(* ===== verification/Float64.thy ===== *)
theory Float64
  imports Complex_Main "HOL-Library.Log_Nat"
begin

text \<open>
  Go's \<^verbatim>\<open>float64\<close> as the program uses it: finite values are rationals, and every
  arithmetic operation is the exact operation followed by \<^verbatim>\<open>f64_rnd\<close>, the rounding of
  IEEE 754 to a 53-bit significand, to nearest, ties to even.  The exponent is not
  bounded: overflow to infinity, subnormals and NaN are outside the model (the
  magnitudes of the program, token counts, rates and seconds, stay far from them).
\<close>

section \<open>Rounding to the nearest integer, ties to even\<close>

definition round_even :: "rat \<Rightarrow> int" where
  "round_even r =
     (let f = \<lfloor>r\<rfloor>; d = r - of_int f in
      if d < 1 / 2 then f
      else if 1 / 2 < d then f + 1
      else if even f then f else f + 1)"

lemma round_even_of_int [simp]: "round_even (of_int k) = k"
  by (simp add: round_even_def)

lemma round_even_bounds: "\<lfloor>r\<rfloor> \<le> round_even r" "round_even r \<le> \<lfloor>r\<rfloor> + 1"
  by (auto simp: round_even_def Let_def)

lemma round_even_error: "\<bar>of_int (round_even r) - r\<bar> \<le> 1 / 2"
proof -
  have "of_int \<lfloor>r\<rfloor> \<le> r" "r < of_int \<lfloor>r\<rfloor> + 1"
    by linarith+
  then show ?thesis
    by (auto simp: round_even_def Let_def abs_le_iff)
qed

lemma round_even_mono:
  assumes "r \<le> s"
  shows "round_even r \<le> round_even s"
proof (cases "\<lfloor>r\<rfloor> = \<lfloor>s\<rfloor>")
  case True
  then show ?thesis
    using assms by (auto simp: round_even_def Let_def)
next
  case False
  then have "\<lfloor>r\<rfloor> + 1 \<le> \<lfloor>s\<rfloor>"
    using floor_mono [OF assms] by linarith
  then show ?thesis
    using round_even_bounds [of r] round_even_bounds [of s] by linarith
qed

lemma round_even_minus: "round_even (- r) = - round_even r"
proof (cases "r = of_int \<lfloor>r\<rfloor>")
  case True
  then obtain k where "r = of_int k" by blast
  then show ?thesis
    using round_even_of_int [of "- k"] by simp
next
  case False
  then have fl: "\<lfloor>- r\<rfloor> = - \<lfloor>r\<rfloor> - 1"
    by (intro floor_unique) linarith+
  show ?thesis
    unfolding round_even_def Let_def fl by (auto simp: not_less)
qed

section \<open>The binary exponent of a rational\<close>

definition f64_exp :: "rat \<Rightarrow> int" where
  "f64_exp x =
     (let (n, d) = quotient_of \<bar>x\<bar>; e = bitlen n - bitlen d
      in if 2 powi e \<le> \<bar>x\<bar> then e else e - 1)"

lemma bitlen_bounds_rat:
  assumes "0 < n"
  shows "2 powi (bitlen n - 1) \<le> (of_int n :: rat)" "(of_int n :: rat) < 2 powi bitlen n"
proof -
  have b: "0 < bitlen n"
    using assms bitlen_bounds [OF assms] by (cases "bitlen n \<le> 0") auto
  have "2 ^ nat (bitlen n - 1) \<le> n \<and> n < 2 ^ nat (bitlen n)"
    using bitlen_bounds [OF assms] by simp
  then have "(2 ^ nat (bitlen n - 1) :: rat) \<le> of_int n \<and> of_int n < (2 ^ nat (bitlen n) :: rat)"
    by (metis of_int_le_iff of_int_less_iff of_int_numeral of_int_power)
  then show "2 powi (bitlen n - 1) \<le> (of_int n :: rat)" "(of_int n :: rat) < 2 powi bitlen n"
    using b by (simp_all add: power_int_def)
qed

lemma f64_exp_bounds:
  assumes "x \<noteq> 0"
  shows "2 powi f64_exp x \<le> \<bar>x\<bar>" "\<bar>x\<bar> < 2 powi (f64_exp x + 1)"
proof -
  obtain n d where q: "quotient_of \<bar>x\<bar> = (n, d)"
    by (cases "quotient_of \<bar>x\<bar>")
  have d: "0 < d" using q by (rule quotient_of_denom_pos)
  have x: "\<bar>x\<bar> = of_int n / of_int d" using q by (rule quotient_of_div)
  have "0 < \<bar>x\<bar>" using assms by simp
  then have n: "0 < n"
    using d by (simp add: x zero_less_divide_iff)
  let ?a = "bitlen n" and ?b = "bitlen d"
  note nb = bitlen_bounds_rat [OF n] and db = bitlen_bounds_rat [OF d]
  have dr: "(0::rat) < of_int d" using d by simp
  have "\<bar>x\<bar> * of_int d = of_int n"
    using d by (simp add: x)
  have upper: "\<bar>x\<bar> < 2 powi (?a - ?b + 1)"
  proof -
    have "of_int n < (2 powi ?a :: rat)" by (rule nb(2))
    also have "\<dots> = 2 powi (?a - ?b + 1) * 2 powi (?b - 1)"
      by (simp flip: power_int_add)
    also have "\<dots> \<le> 2 powi (?a - ?b + 1) * of_int d"
      using db(1) by (simp add: mult_left_mono)
    finally show ?thesis
      using dr by (simp add: x divide_less_eq)
  qed
  have lower: "2 powi (?a - ?b - 1) \<le> \<bar>x\<bar>"
  proof -
    have "2 powi (?a - ?b - 1) * of_int d \<le> 2 powi (?a - ?b - 1) * (2 powi ?b :: rat)"
      using db(2) by (intro mult_left_mono) auto
    also have "\<dots> = 2 powi (?a - 1)"
      by (simp flip: power_int_add)
    also have "\<dots> \<le> of_int n" by (rule nb(1))
    finally show ?thesis
      using dr by (simp add: x le_divide_eq)
  qed
  show "2 powi f64_exp x \<le> \<bar>x\<bar>" "\<bar>x\<bar> < 2 powi (f64_exp x + 1)"
    using upper lower by (auto simp: f64_exp_def q Let_def)
qed

lemma powi_le_cancel: "(2::rat) powi a < 2 powi b \<Longrightarrow> a < b"
  by (metis not_less one_le_numeral power_int_increasing)

lemma f64_exp_unique:
  assumes "2 powi e \<le> \<bar>x\<bar>" "\<bar>x\<bar> < 2 powi (e + 1)"
  shows "f64_exp x = e"
proof -
  have "(0::rat) < 2 powi e" by simp
  with assms(1) have "0 < \<bar>x\<bar>" by linarith
  then have "x \<noteq> 0" by simp
  note b = f64_exp_bounds [OF this]
  have "f64_exp x < e + 1"
    by (rule powi_le_cancel) (rule order.strict_trans1 [OF b(1) assms(2)])
  moreover have "e < f64_exp x + 1"
    by (rule powi_le_cancel) (rule order.strict_trans1 [OF assms(1) b(2)])
  ultimately show ?thesis by simp
qed

lemma f64_exp_mono:
  assumes "0 < x" "x \<le> y"
  shows "f64_exp x \<le> f64_exp y"
proof -
  have "2 powi f64_exp x \<le> x" "y < 2 powi (f64_exp y + 1)"
    using f64_exp_bounds [of x] f64_exp_bounds [of y] assms by auto
  then have "(2::rat) powi f64_exp x < 2 powi (f64_exp y + 1)"
    using assms(2) by linarith
  then show ?thesis
    using powi_le_cancel by fastforce
qed

lemma f64_exp_minus [simp]: "f64_exp (- x) = f64_exp x"
  by (simp add: f64_exp_def)

section \<open>Rounding to float64\<close>

definition f64_rnd :: "rat \<Rightarrow> rat" where
  "f64_rnd x =
     (if x = 0 then 0
      else let e = f64_exp x - 52 in of_int (round_even (x / 2 powi e)) * 2 powi e)"

lemma f64_rnd_0 [simp]: "f64_rnd 0 = 0"
  by (simp add: f64_rnd_def)

lemma f64_rnd_minus: "f64_rnd (- x) = - f64_rnd x"
  using round_even_minus [of "x / 2 powi (f64_exp x - 52)"] by (simp add: f64_rnd_def Let_def)

text \<open>The half unit in the last place bounds the error of one operation.\<close>

lemma f64_rnd_error: "\<bar>f64_rnd x - x\<bar> \<le> \<bar>x\<bar> / 2 ^ 53"
proof (cases "x = 0")
  case False
  let ?e = "f64_exp x - 52" and ?p = "2 powi (f64_exp x - 52) :: rat"
  have p: "0 < ?p" by simp
  have "f64_rnd x - x = (of_int (round_even (x / ?p)) - x / ?p) * ?p"
    using False by (simp add: f64_rnd_def Let_def left_diff_distrib)
  then have "\<bar>f64_rnd x - x\<bar> = \<bar>of_int (round_even (x / ?p)) - x / ?p\<bar> * ?p"
    using p by (simp add: abs_mult)
  also have "\<dots> \<le> 1 / 2 * ?p"
    using p by (intro mult_right_mono round_even_error) simp
  also have "\<dots> = 2 powi f64_exp x / 2 ^ 53"
    by (simp add: power_int_diff)
  also have "\<dots> \<le> \<bar>x\<bar> / 2 ^ 53"
    using f64_exp_bounds(1) [OF False] by (intro divide_right_mono) simp_all
  finally show ?thesis .
qed simp

lemma f64_rnd_pos_bounds:
  assumes "0 < x"
  shows "2 powi f64_exp x \<le> f64_rnd x" "f64_rnd x \<le> 2 powi (f64_exp x + 1)"
proof -
  let ?e = "f64_exp x" and ?p = "2 powi (f64_exp x - 52) :: rat"
  have p: "0 < ?p" by simp
  have x: "2 powi ?e \<le> x" "x < 2 powi (?e + 1)"
    using f64_exp_bounds [of x] assms by auto
  have s: "2 powi ?e = of_int (2 ^ 52) * ?p" "2 powi (?e + 1) = of_int (2 ^ 53) * ?p"
    by (simp_all add: power_int_diff power_int_add)
  have "of_int (2 ^ 52) \<le> x / ?p" "x / ?p \<le> of_int (2 ^ 53)"
    using x p unfolding s by (simp_all add: le_divide_eq divide_le_eq)
  then have "2 ^ 52 \<le> round_even (x / ?p)" "round_even (x / ?p) \<le> 2 ^ 53"
    using round_even_mono round_even_of_int by metis+
  then have "of_int (2 ^ 52) \<le> (of_int (round_even (x / ?p)) :: rat)"
    "(of_int (round_even (x / ?p)) :: rat) \<le> of_int (2 ^ 53)"
    by (simp_all only: of_int_le_iff)
  then have "of_int (2 ^ 52) * ?p \<le> of_int (round_even (x / ?p)) * ?p"
    "of_int (round_even (x / ?p)) * ?p \<le> of_int (2 ^ 53) * ?p"
    using p by (simp_all only: mult_right_mono less_imp_le)
  then show "2 powi ?e \<le> f64_rnd x" "f64_rnd x \<le> 2 powi (?e + 1)"
    using assms unfolding s by (simp_all add: f64_rnd_def Let_def)
qed

lemma f64_rnd_nonneg: "0 \<le> x \<Longrightarrow> 0 \<le> f64_rnd x"
proof (cases "x = 0")
  case False
  assume "0 \<le> x"
  with False have "2 powi f64_exp x \<le> f64_rnd x"
    by (intro f64_rnd_pos_bounds(1)) simp
  moreover have "(0::rat) < 2 powi f64_exp x" by simp
  ultimately show ?thesis by linarith
qed simp

lemma f64_rnd_mono_pos:
  assumes "0 < x" "x \<le> y"
  shows "f64_rnd x \<le> f64_rnd y"
proof (cases "f64_exp x = f64_exp y")
  case True
  then have "round_even (x / 2 powi (f64_exp x - 52)) \<le> round_even (y / 2 powi (f64_exp y - 52))"
    using assms by (intro round_even_mono) (simp add: divide_right_mono)
  with True assms show ?thesis
    by (simp add: f64_rnd_def Let_def)
next
  case False
  then have "f64_exp x + 1 \<le> f64_exp y"
    using f64_exp_mono [OF assms] by simp
  then have "(2::rat) powi (f64_exp x + 1) \<le> 2 powi f64_exp y"
    by (intro power_int_increasing) auto
  then show ?thesis
    using f64_rnd_pos_bounds(2) [of x] f64_rnd_pos_bounds(1) [of y] assms by linarith
qed

lemma f64_rnd_mono:
  assumes "x \<le> y"
  shows "f64_rnd x \<le> f64_rnd y"
proof -
  consider "0 < x" | "x \<le> 0" "0 \<le> y" | "y < 0"
    by linarith
  then show ?thesis
  proof cases
    case 1
    then show ?thesis by (rule f64_rnd_mono_pos [OF _ assms])
  next
    case 2
    then show ?thesis
      using f64_rnd_nonneg [of y] f64_rnd_nonneg [of "- x"] by (simp add: f64_rnd_minus)
  next
    case 3
    then show ?thesis
      using f64_rnd_mono_pos [of "- y" "- x"] assms by (simp add: f64_rnd_minus)
  qed
qed

section \<open>Representable values\<close>

definition is_f64 :: "rat \<Rightarrow> bool" where
  "is_f64 x \<longleftrightarrow> f64_rnd x = x"

lemma is_f64_scaled:
  assumes "\<bar>m\<bar> \<le> 2 ^ 53"
  shows "is_f64 (of_int m * 2 powi e)"
proof (cases "m = 0 \<or> \<bar>m\<bar> = 2 ^ 53")
  case True
  moreover have "is_f64 (2 powi k)" for k
  proof -
    have ex: "f64_exp (2 powi k) = k"
      by (rule f64_exp_unique) (simp_all add: power_int_add)
    have "(2 powi k / 2 powi (k - 52) :: rat) = of_int (2 ^ 52)"
      by (simp add: power_int_diff)
    then show ?thesis
      unfolding is_f64_def f64_rnd_def Let_def ex
      by (simp only: round_even_of_int) (simp add: power_int_diff)
  qed
  moreover have "(of_int m * 2 powi e :: rat) = sgn (of_int m) * 2 powi (e + 53)"
    if "\<bar>m\<bar> = 2 ^ 53"
    using that by (auto simp: power_int_add abs_if sgn_if split: if_splits)
  ultimately show ?thesis
    by (auto simp: is_f64_def sgn_if f64_rnd_minus)
next
  case False
  let ?x = "of_int m * 2 powi e :: rat"
  have m: "m \<noteq> 0" "\<bar>m\<bar> < 2 ^ 53" using False assms by auto
  have x0: "?x \<noteq> 0" using m by simp
  have ax: "\<bar>?x\<bar> = of_int \<bar>m\<bar> * 2 powi e"
    by (simp add: abs_mult)
  have "(of_int \<bar>m\<bar> :: rat) < of_int (2 ^ 53)"
    using m(2) by (simp only: of_int_less_iff)
  then have "\<bar>?x\<bar> < 2 powi (e + 53)"
    unfolding ax by (simp add: power_int_add)
  then have "(2::rat) powi f64_exp ?x < 2 powi (e + 53)"
    using f64_exp_bounds(1) [OF x0] by linarith
  then have ex: "0 \<le> e + 52 - f64_exp ?x"
    using powi_le_cancel by fastforce
  let ?k = "m * 2 ^ nat (e + 52 - f64_exp ?x)"
  have "?x / 2 powi (f64_exp ?x - 52) = of_int m * 2 powi (e - (f64_exp ?x - 52))"
    by (simp add: power_int_diff)
  also have "\<dots> = of_int ?k"
    using ex by (simp add: power_int_def algebra_simps)
  finally have k: "?x / 2 powi (f64_exp ?x - 52) = of_int ?k" .
  have "f64_rnd ?x = of_int (round_even (?x / 2 powi (f64_exp ?x - 52))) * 2 powi (f64_exp ?x - 52)"
    using x0 by (simp only: f64_rnd_def Let_def if_False)
  also have "\<dots> = (?x / 2 powi (f64_exp ?x - 52)) * 2 powi (f64_exp ?x - 52)"
    by (simp only: k round_even_of_int)
  also have "\<dots> = ?x"
    by (rule nonzero_eq_divide_eq [THEN iffD1, symmetric]) simp_all
  finally show ?thesis
    by (simp only: is_f64_def)
qed

lemma is_f64_of_int: "\<bar>k\<bar> \<le> 2 ^ 53 \<Longrightarrow> is_f64 (of_int k)"
  using is_f64_scaled [of k 0] by simp

lemma is_f64_numeral: "(numeral n :: int) \<le> 2 ^ 53 \<Longrightarrow> is_f64 (numeral n)"
  using is_f64_of_int [of "numeral n"] by simp

lemma f64_rnd_of_int: "\<bar>k\<bar> \<le> 2 ^ 53 \<Longrightarrow> f64_rnd (of_int k) = of_int k"
  using is_f64_of_int by (simp add: is_f64_def)

lemma is_f64_rnd: "is_f64 (f64_rnd x)"
proof -
  have pos: "is_f64 (f64_rnd x)" if x: "0 < x" for x
  proof -
    let ?p = "2 powi (f64_exp x - 52) :: rat" and ?m = "round_even (x / 2 powi (f64_exp x - 52))"
    have p: "0 < ?p" by simp
    have r: "f64_rnd x = of_int ?m * ?p"
      using x by (simp add: f64_rnd_def Let_def)
    have "of_int ?m * ?p \<le> of_int (2 ^ 53) * ?p"
      using f64_rnd_pos_bounds(2) [OF x] unfolding r by (simp add: power_int_diff power_int_add)
    then have "?m \<le> 2 ^ 53"
      using p by (simp only: mult_le_cancel_right_pos of_int_le_iff)
    moreover have "0 \<le> ?m"
      using round_even_mono [of 0 "x / ?p"] round_even_of_int [of 0] x by simp
    ultimately show ?thesis
      unfolding r by (intro is_f64_scaled) simp
  qed
  consider "0 < x" | "x = 0" | "0 < - x" by linarith
  then show ?thesis
  proof cases
    case 1
    then show ?thesis by (rule pos)
  next
    case 2
    then show ?thesis by (simp add: is_f64_def)
  next
    case 3
    then show ?thesis
      using pos [of "- x"] by (simp add: is_f64_def f64_rnd_minus)
  qed
qed

lemma f64_rnd_idem [simp]: "f64_rnd (f64_rnd x) = f64_rnd x"
  using is_f64_rnd by (simp add: is_f64_def)

lemma f64_rnd_le_iff_bound: "is_f64 b \<Longrightarrow> x \<le> b \<Longrightarrow> f64_rnd x \<le> b"
  using f64_rnd_mono by (fastforce simp: is_f64_def)

lemma f64_rnd_ge_bound: "is_f64 b \<Longrightarrow> b \<le> x \<Longrightarrow> b \<le> f64_rnd x"
  using f64_rnd_mono by (fastforce simp: is_f64_def)

section \<open>The operations\<close>

definition f64_add :: "rat \<Rightarrow> rat \<Rightarrow> rat" where
  "f64_add x y = f64_rnd (x + y)"

definition f64_sub :: "rat \<Rightarrow> rat \<Rightarrow> rat" where
  "f64_sub x y = f64_rnd (x - y)"

definition f64_mul :: "rat \<Rightarrow> rat \<Rightarrow> rat" where
  "f64_mul x y = f64_rnd (x * y)"

definition f64_div :: "rat \<Rightarrow> rat \<Rightarrow> rat" where
  "f64_div x y = f64_rnd (x / y)"

text \<open>The conversions \<^verbatim>\<open>float64(n)\<close> and \<^verbatim>\<open>int(x)\<close>; the latter truncates towards zero.\<close>

definition f64_of_int :: "int \<Rightarrow> rat" where
  "f64_of_int k = f64_rnd (of_int k)"

definition f64_to_int :: "rat \<Rightarrow> int" where
  "f64_to_int x = (if 0 \<le> x then \<lfloor>x\<rfloor> else - \<lfloor>- x\<rfloor>)"

lemma f64_of_int_exact [simp]: "\<bar>k\<bar> \<le> 2 ^ 53 \<Longrightarrow> f64_of_int k = of_int k"
  by (simp add: f64_of_int_def f64_rnd_of_int)

lemma f64_of_int_nonneg: "0 \<le> k \<Longrightarrow> 0 \<le> f64_of_int k"
  by (simp add: f64_of_int_def f64_rnd_nonneg)

lemma f64_of_int_mono: "j \<le> k \<Longrightarrow> f64_of_int j \<le> f64_of_int k"
  by (simp add: f64_of_int_def f64_rnd_mono)

lemma is_f64_ops [simp]:
  "is_f64 (f64_add x y)" "is_f64 (f64_sub x y)" "is_f64 (f64_mul x y)" "is_f64 (f64_div x y)"
  "is_f64 (f64_of_int k)"
  by (simp_all add: f64_add_def f64_sub_def f64_mul_def f64_div_def f64_of_int_def is_f64_rnd)

lemma f64_rnd_upper_add: "0 \<le> x \<Longrightarrow> f64_rnd x \<le> x + x / 2 ^ 53"
  using abs_le_D1 [OF f64_rnd_error [of x]] by simp

lemma f64_rnd_upper: "0 \<le> x \<Longrightarrow> f64_rnd x \<le> x * (1 + 1 / 2 ^ 53)"
  using f64_rnd_upper_add [of x] by (simp add: algebra_simps)

lemma f64_rnd_lower: "0 \<le> x \<Longrightarrow> x * (1 - 1 / 2 ^ 53) \<le> f64_rnd x"
proof -
  assume "0 \<le> x"
  then have "x - f64_rnd x \<le> x / 2 ^ 53"
    using abs_le_D2 [OF f64_rnd_error [of x]] by simp
  then show ?thesis by (simp add: algebra_simps)
qed

lemma f64_rnd_nonpos_iff: "f64_rnd x \<le> 0 \<longleftrightarrow> x \<le> 0"
proof
  assume "x \<le> 0"
  then show "f64_rnd x \<le> 0"
    using f64_rnd_mono [of x 0] by simp
next
  assume r: "f64_rnd x \<le> 0"
  show "x \<le> 0"
  proof (rule ccontr)
    assume "\<not> x \<le> 0"
    then have "2 powi f64_exp x \<le> f64_rnd x"
      by (intro f64_rnd_pos_bounds(1)) simp
    moreover have "(0::rat) < 2 powi f64_exp x" by simp
    ultimately show False using r by linarith
  qed
qed

lemma f64_mul_bounds:
  assumes "0 \<le> x * y"
  shows "0 \<le> f64_mul x y" "x * y * (1 - 1 / 2 ^ 53) \<le> f64_mul x y"
    "f64_mul x y \<le> x * y * (1 + 1 / 2 ^ 53)"
  unfolding f64_mul_def
  using f64_rnd_nonneg [OF assms] f64_rnd_lower [OF assms] f64_rnd_upper [OF assms] .

end
