(* ===== verification/Prelude.thy ===== *)
theory Prelude
  imports Float64 "HOL-Library.Word"
begin

text \<open>
  What the components share: the lemma collections, Go's error values and
  \<^verbatim>\<open>errors.Is\<close>, instants and durations of package \<^verbatim>\<open>time\<close>, outcomes of code that
  can panic or block, and generic facts on lists and maps.
\<close>

named_theorems go_defs \<open>definitions that component proofs unfold\<close>
named_theorems inv_intros \<open>preservation of component invariants\<close>

section \<open>Errors\<close>

text \<open>
  The sentinel errors of the packages (\<^verbatim>\<open>var Err... = errors.New(...)\<close>), the two errors of
  package \<^verbatim>\<open>context\<close> and redis.Nil; \<^verbatim>\<open>ErrorNew\<close> is any other \<^verbatim>\<open>errors.New\<close> or
  \<^verbatim>\<open>fmt.Errorf\<close> without \<^verbatim>\<open>%w\<close>, and \<^verbatim>\<open>Wrapf p e s\<close> is an \<^verbatim>\<open>fmt.Errorf\<close> whose text is \<^verbatim>\<open>p\<close>,
  the text of the wrapped error \<^verbatim>\<open>e\<close>, and \<^verbatim>\<open>s\<close>.
\<close>

datatype go_error =
    ErrRateLimited | ErrInvalidTokenCost | LimiterBackendUnavailable
  | ErrQueueFull | ErrQueueEmpty | QueueBackendUnavailable
  | ErrProviderNotFound | ErrModelNotFound | ErrRequestFailed | ErrContextCanceled
  | CtxCanceled | CtxDeadlineExceeded | RedisNil
  | ErrorNew string
  | Wrapf string go_error string

primrec error_text :: "go_error \<Rightarrow> string" where
  "error_text ErrRateLimited = ''rate limited: insufficient tokens available''"
| "error_text ErrInvalidTokenCost = ''invalid token cost: must be positive''"
| "error_text LimiterBackendUnavailable = ''backend storage unavailable''"
| "error_text ErrQueueFull = ''queue is full''"
| "error_text ErrQueueEmpty = ''queue is empty''"
| "error_text QueueBackendUnavailable = ''backend storage unavailable''"
| "error_text ErrProviderNotFound = ''provider not found''"
| "error_text ErrModelNotFound = ''model not found''"
| "error_text ErrRequestFailed = ''request failed''"
| "error_text ErrContextCanceled = ''context canceled''"
| "error_text CtxCanceled = ''context canceled''"
| "error_text CtxDeadlineExceeded = ''context deadline exceeded''"
| "error_text RedisNil = ''redis: nil''"
| "error_text (ErrorNew s) = s"
| "error_text (Wrapf p e s) = p @ error_text e @ s"

text \<open>\<^verbatim>\<open>errors.Is\<close>: the error itself or one that it wraps.\<close>

primrec errors_Is :: "go_error \<Rightarrow> go_error \<Rightarrow> bool" where
  "errors_Is (Wrapf p e s) t \<longleftrightarrow> Wrapf p e s = t \<or> errors_Is e t"
| "errors_Is ErrRateLimited t \<longleftrightarrow> ErrRateLimited = t"
| "errors_Is ErrInvalidTokenCost t \<longleftrightarrow> ErrInvalidTokenCost = t"
| "errors_Is LimiterBackendUnavailable t \<longleftrightarrow> LimiterBackendUnavailable = t"
| "errors_Is ErrQueueFull t \<longleftrightarrow> ErrQueueFull = t"
| "errors_Is ErrQueueEmpty t \<longleftrightarrow> ErrQueueEmpty = t"
| "errors_Is QueueBackendUnavailable t \<longleftrightarrow> QueueBackendUnavailable = t"
| "errors_Is ErrProviderNotFound t \<longleftrightarrow> ErrProviderNotFound = t"
| "errors_Is ErrModelNotFound t \<longleftrightarrow> ErrModelNotFound = t"
| "errors_Is ErrRequestFailed t \<longleftrightarrow> ErrRequestFailed = t"
| "errors_Is ErrContextCanceled t \<longleftrightarrow> ErrContextCanceled = t"
| "errors_Is CtxCanceled t \<longleftrightarrow> CtxCanceled = t"
| "errors_Is CtxDeadlineExceeded t \<longleftrightarrow> CtxDeadlineExceeded = t"
| "errors_Is RedisNil t \<longleftrightarrow> RedisNil = t"
| "errors_Is (ErrorNew u) t \<longleftrightarrow> ErrorNew u = t"

lemma errors_Is_refl [simp]: "errors_Is e e"
  by (cases e) simp_all

section \<open>Integers\<close>

text \<open>Go's \<^verbatim>\<open>/\<close> and \<^verbatim>\<open>%\<close> truncate towards zero.\<close>

definition go_quot :: "int \<Rightarrow> int \<Rightarrow> int" where
  "go_quot a b = sgn a * sgn b * (\<bar>a\<bar> div \<bar>b\<bar>)"

definition go_rem :: "int \<Rightarrow> int \<Rightarrow> int" where
  "go_rem a b = a - b * go_quot a b"

lemma go_quot_nonneg: "0 \<le> a \<Longrightarrow> 0 < b \<Longrightarrow> go_quot a b = a div b"
  by (cases "a = 0") (simp_all add: go_quot_def)

lemma go_rem_nonneg: "0 \<le> a \<Longrightarrow> 0 < b \<Longrightarrow> go_rem a b = a mod b"
  by (simp add: go_rem_def go_quot_nonneg minus_mult_div_eq_mod)

definition int64_min :: int where "int64_min = - (2 ^ 63)"

definition int64_max :: int where "int64_max = 2 ^ 63 - 1"

text \<open>The conversion of a wide integer to \<^verbatim>\<open>int64\<close> arithmetic: the low 64 bits, signed.\<close>

definition wrap64 :: "int \<Rightarrow> int" where
  "wrap64 k = (k + 2 ^ 63) mod 2 ^ 64 - 2 ^ 63"

lemma wrap64_id: "int64_min \<le> k \<Longrightarrow> k \<le> int64_max \<Longrightarrow> wrap64 k = k"
  by (simp add: wrap64_def int64_min_def int64_max_def)

section \<open>Instants and durations\<close>

text \<open>
  A \<^verbatim>\<open>time.Time\<close> is the number of nanoseconds since the zero time (January 1, year 1,
  UTC), so that \<^verbatim>\<open>IsZero\<close> is being 0; a \<^verbatim>\<open>time.Duration\<close> is an int64 number of nanoseconds,
  and \<^verbatim>\<open>Sub\<close> saturates at the ends of that range.
\<close>

type_synonym gotime = int
type_synonym duration = int

definition IsZero :: "gotime \<Rightarrow> bool" where
  "IsZero t \<longleftrightarrow> t = 0"

definition time_Sub :: "gotime \<Rightarrow> gotime \<Rightarrow> duration" where
  "time_Sub t u = max int64_min (min int64_max (t - u))"

definition nanosecond :: duration where "nanosecond = 1"
definition millisecond :: duration where "millisecond = 10 ^ 6"
definition second :: duration where "second = 10 ^ 9"
definition minute :: duration where "minute = 60 * second"
definition hour :: duration where "hour = 60 * minute"

lemmas duration_defs = nanosecond_def millisecond_def second_def minute_def hour_def

text \<open>\<^verbatim>\<open>Duration.Seconds\<close> adds the whole seconds and the fraction, both as float64.\<close>

definition Seconds :: "duration \<Rightarrow> rat" where
  "Seconds d =
     f64_add (f64_of_int (go_quot d second)) (f64_div (f64_of_int (go_rem d second)) (10 ^ 9))"

lemma is_f64_Seconds [simp]: "is_f64 (Seconds d)"
  by (simp add: Seconds_def)

lemma time_Sub_mono_range:
  "u \<le> t \<Longrightarrow> 0 \<le> time_Sub t u" "u \<le> t \<Longrightarrow> time_Sub t u \<le> t - u" "time_Sub t u \<le> int64_max"
  by (auto simp: time_Sub_def int64_min_def int64_max_def)

lemma Seconds_nonneg: "0 \<le> d \<Longrightarrow> 0 \<le> Seconds d"
  by (simp add: Seconds_def go_quot_nonneg go_rem_nonneg second_def f64_add_def f64_div_def
      f64_rnd_nonneg f64_of_int_nonneg pos_imp_zdiv_nonneg_iff)

text \<open>The rounding factor of one float64 operation.\<close>

definition ulp_factor :: rat where
  "ulp_factor = 1 + 1 / 2 ^ 53"

lemma ulp_factor_ge_1: "1 \<le> ulp_factor"
  by (simp add: ulp_factor_def)

lemma Seconds_upper:
  assumes "0 \<le> d" "d \<le> int64_max"
  shows "Seconds d \<le> of_int d / 10 ^ 9 * ulp_factor ^ 2"
proof -
  let ?s = "d div 10 ^ 9" and ?n = "d mod 10 ^ 9"
  have s: "0 \<le> ?s" "\<bar>?s\<bar> \<le> 2 ^ 53" "\<bar>?n\<bar> \<le> 2 ^ 53"
    using assms by (simp_all add: int64_max_def)
  let ?f = "of_int ?n / 10 ^ 9 :: rat"
  have f: "0 \<le> ?f" by simp
  have "f64_rnd ?f \<le> ?f * ulp_factor"
    unfolding ulp_factor_def by (rule f64_rnd_upper [OF f])
  moreover have "(of_int ?s :: rat) \<le> of_int ?s * ulp_factor"
    using s(1) ulp_factor_ge_1 by (simp add: mult_le_cancel_left1)
  ultimately have le: "of_int ?s + f64_rnd ?f \<le> (of_int ?s + ?f) * ulp_factor"
    by (simp add: distrib_right)
  have d: "of_int ?s + ?f = of_int d / 10 ^ 9"
  proof -
    have "q + r / 10 ^ 9 = e / 10 ^ 9" if "e = 10 ^ 9 * q + r" for e q r :: rat
      using that by (simp add: add_divide_distrib)
    moreover have "of_int d = (10 ^ 9 * of_int ?s + of_int ?n :: rat)"
    proof -
      have "(of_int d :: rat) = of_int (10 ^ 9 * ?s + ?n)"
        by (subst mult_div_mod_eq) (rule refl)
      also have "\<dots> = of_int (10 ^ 9 * ?s) + of_int ?n"
        by (rule of_int_add)
      finally show ?thesis by simp
    qed
    ultimately show ?thesis by blast
  qed
  have le2: "of_int ?s + f64_rnd ?f \<le> of_int d / 10 ^ 9 * ulp_factor"
    using le unfolding d .
  have "f64_rnd (of_int ?s + f64_rnd ?f) \<le> (of_int ?s + f64_rnd ?f) * ulp_factor"
    unfolding ulp_factor_def using s(1) f64_rnd_nonneg [OF f] by (intro f64_rnd_upper) simp
  moreover have "(of_int ?s + f64_rnd ?f) * ulp_factor \<le> of_int d / 10 ^ 9 * ulp_factor * ulp_factor"
    using le2 ulp_factor_ge_1 by (intro mult_right_mono) simp_all
  ultimately have "f64_rnd (of_int ?s + f64_rnd ?f) \<le> of_int d / 10 ^ 9 * ulp_factor * ulp_factor"
    by linarith
  moreover have "Seconds d = f64_rnd (of_int ?s + f64_rnd ?f)"
    using assms s by (simp add: Seconds_def go_quot_nonneg go_rem_nonneg second_def f64_add_def f64_div_def)
  ultimately show ?thesis
    by (simp add: power2_eq_square mult.assoc)
qed

section \<open>Outcomes\<close>

text \<open>
  A step of a goroutine returns a value, blocks (a send on a full channel, a receive that
  nobody serves), or panics (a nil dereference, an index out of range, closing a closed
  channel).
\<close>

datatype 'a outcome = Returns 'a | Blocks | Panics

primrec bind_outcome :: "'a outcome \<Rightarrow> ('a \<Rightarrow> 'b outcome) \<Rightarrow> 'b outcome" where
  "bind_outcome (Returns a) f = f a"
| "bind_outcome Blocks f = Blocks"
| "bind_outcome Panics f = Panics"

lemma bind_outcome_Returns: "bind_outcome x f = Returns b \<longleftrightarrow> (\<exists>a. x = Returns a \<and> f a = Returns b)"
  by (cases x) simp_all

section \<open>Lists and maps\<close>

text \<open>The index of the first element that satisfies a predicate.\<close>

primrec find_index :: "('a \<Rightarrow> bool) \<Rightarrow> 'a list \<Rightarrow> nat option" where
  "find_index p [] = None"
| "find_index p (x # xs) = (if p x then Some 0 else map_option Suc (find_index p xs))"

definition remove_nth :: "nat \<Rightarrow> 'a list \<Rightarrow> 'a list" where
  "remove_nth i xs = take i xs @ drop (Suc i) xs"

lemma find_index_None: "find_index p xs = None \<longleftrightarrow> (\<forall>x \<in> set xs. \<not> p x)"
  by (induction xs) auto

lemma find_index_Some:
  "find_index p xs = Some i \<longleftrightarrow> i < length xs \<and> p (xs ! i) \<and> (\<forall>j < i. \<not> p (xs ! j))"
proof (induction xs arbitrary: i)
  case (Cons x xs)
  then show ?case
    by (cases i) (auto simp: less_Suc_eq_0_disj)
qed simp

lemma length_remove_nth [simp]: "i < length xs \<Longrightarrow> length (remove_nth i xs) = length xs - 1"
  by (simp add: remove_nth_def)

lemma set_remove_nth: "set (remove_nth i xs) \<subseteq> set xs"
  by (auto simp: remove_nth_def dest: in_set_takeD in_set_dropD)

lemma remove_nth_split:
  assumes "i < length xs"
  obtains ys zs where "xs = ys @ xs ! i # zs" "remove_nth i xs = ys @ zs" "length ys = i"
proof
  show "xs = take i xs @ xs ! i # drop (Suc i) xs"
    using assms by (rule id_take_nth_drop)
  show "remove_nth i xs = take i xs @ drop (Suc i) xs"
    by (rule remove_nth_def)
  show "length (take i xs) = i"
    using assms by simp
qed

lemma find_index_split:
  assumes "find_index p xs = Some i"
  obtains ys zs where "xs = ys @ xs ! i # zs" "remove_nth i xs = ys @ zs"
    "\<forall>y \<in> set ys. \<not> p y" "p (xs ! i)"
proof -
  from assms have i: "i < length xs" "p (xs ! i)" "\<forall>j < i. \<not> p (xs ! j)"
    by (simp_all add: find_index_Some)
  obtain ys zs where s: "xs = ys @ xs ! i # zs" "remove_nth i xs = ys @ zs" "length ys = i"
    using remove_nth_split [OF i(1)] by blast
  have "\<forall>y \<in> set ys. \<not> p y"
  proof
    fix y assume "y \<in> set ys"
    then obtain j where "j < i" "y = ys ! j"
      using s(3) by (auto simp: in_set_conv_nth)
    then have "y = xs ! j"
      by (subst s(1)) (simp add: nth_append s(3))
    with i(3) \<open>j < i\<close> show "\<not> p y" by simp
  qed
  with s i(2) show ?thesis by (rule_tac that)
qed

end
