(* ===== verification/Text.thy ===== *)
theory Text
  imports Prelude
begin

text \<open>
  The text functions of Go's \<^verbatim>\<open>fmt\<close> and \<^verbatim>\<open>strings\<close> that the program uses: the verbs \<^verbatim>\<open>%d\<close>
  and \<^verbatim>\<open>%x\<close> on integers, prefixes, and white space.  A Go string is the list of its bytes.
\<close>

section \<open>Numbers in a base\<close>

definition digit_char :: "nat \<Rightarrow> char" where
  "digit_char d = ''0123456789abcdef'' ! d"

fun nat_digits :: "nat \<Rightarrow> nat \<Rightarrow> string" where
  "nat_digits b n =
     (if b < 2 \<or> n < b then [digit_char n] else nat_digits b (n div b) @ [digit_char (n mod b)])"

declare nat_digits.simps [simp del]

definition format_base :: "nat \<Rightarrow> int \<Rightarrow> string" where
  "format_base b i = (if i < 0 then CHR ''-'' # nat_digits b (nat (- i)) else nat_digits b (nat i))"

definition fmt_d :: "int \<Rightarrow> string" where "fmt_d = format_base 10"

definition fmt_x :: "int \<Rightarrow> string" where "fmt_x = format_base 16"

lemma digit_char_inj:
  assumes "digit_char a = digit_char b" "a < 16" "b < 16"
  shows "a = b"
proof -
  have "distinct ''0123456789abcdef''" by simp
  moreover have "a < length ''0123456789abcdef''" "b < length ''0123456789abcdef''"
    using assms by simp_all
  ultimately show ?thesis
    using assms(1) unfolding digit_char_def by (metis nth_eq_iff_index_eq)
qed

lemma digit_char_range: "d < 16 \<Longrightarrow> digit_char d \<in> set ''0123456789abcdef''"
  unfolding digit_char_def by (rule nth_mem) simp

lemma nat_digits_nonempty [simp]: "nat_digits b n \<noteq> []"
  by (subst nat_digits.simps) simp

lemma nat_digits_range:
  "2 \<le> b \<Longrightarrow> b \<le> 16 \<Longrightarrow> set (nat_digits b n) \<subseteq> set ''0123456789abcdef''"
proof (induction b n rule: nat_digits.induct)
  case (1 b n)
  show ?case
  proof (cases "n < b")
    case True
    then show ?thesis
      using "1.prems" digit_char_range [of n] by (subst nat_digits.simps) auto
  next
    case False
    have "n mod b < 16" using "1.prems" mod_less_divisor [of b n] by linarith
    then have "digit_char (n mod b) \<in> set ''0123456789abcdef''" by (rule digit_char_range)
    moreover have "set (nat_digits b (n div b)) \<subseteq> set ''0123456789abcdef''"
      using False "1.prems" by (intro "1.IH") simp_all
    ultimately show ?thesis
      using False "1.prems" by (subst nat_digits.simps) auto
  qed
qed

lemma nat_digits_inj:
  "2 \<le> b \<Longrightarrow> b \<le> 16 \<Longrightarrow> nat_digits b m = nat_digits b n \<Longrightarrow> m = n"
proof (induction b m arbitrary: n rule: nat_digits.induct)
  case (1 b m)
  have small: "k mod b < 16" for k
    using "1.prems"(1,2) mod_less_divisor [of b k] by linarith
  have unfold: "nat_digits b k = (if k < b then [digit_char k]
      else nat_digits b (k div b) @ [digit_char (k mod b)])" for k
    using "1.prems"(1) by (subst nat_digits.simps) simp
  consider "m < b" "n < b" | "m < b" "\<not> n < b" | "\<not> m < b" "n < b" | "\<not> m < b" "\<not> n < b"
    by blast
  then show ?case
  proof cases
    case 1
    then show ?thesis
      using "1.prems" digit_char_inj [of m n] by (simp add: unfold)
  next
    case 4
    then have "nat_digits b (m div b) = nat_digits b (n div b)"
      and "digit_char (m mod b) = digit_char (n mod b)"
      using "1.prems"(3) by (simp_all add: unfold)
    then have "m div b = n div b" "m mod b = n mod b"
      using 4 "1.prems"(1,2) "1.IH" [of "n div b"] digit_char_inj small by auto
    then show ?thesis by (metis div_mult_mod_eq)
  qed (use "1.prems"(3) unfold [of m] unfold [of n] nat_digits_nonempty [of b "n div b", symmetric] in auto)
qed

lemma format_base_nonneg_inj:
  assumes "0 \<le> i" "0 \<le> j" "2 \<le> b" "b \<le> 16" "format_base b i = format_base b j"
  shows "i = j"
  using nat_digits_inj [OF assms(3,4), of "nat i" "nat j"] assms by (simp add: format_base_def)

lemma fmt_x_chars: "0 \<le> i \<Longrightarrow> set (fmt_x i) \<subseteq> set ''0123456789abcdef''"
  unfolding fmt_x_def format_base_def using nat_digits_range [of 16 "nat i"] by simp

section \<open>Prefixes and separators\<close>

definition HasPrefix :: "string \<Rightarrow> string \<Rightarrow> bool" where
  "HasPrefix s p \<longleftrightarrow> take (length p) s = p"

lemma split_at_separator:
  assumes "xs @ c # ys = xs' @ c # ys'" "c \<notin> set xs" "c \<notin> set xs'"
  shows "xs = xs' \<and> ys = ys'"
  using assms by (induction xs arbitrary: xs') (auto simp: Cons_eq_append_conv append_eq_Cons_conv)

end
