(* ===== verification/Config.thy ===== *)
theory Config
  imports Text
begin

text \<open>
  Package \<^verbatim>\<open>config\<close>, file config.go: the configuration structures, the defaults, the
  validation, and \<^verbatim>\<open>LoadConfig\<close>, with the library Viper as a parameter.
\<close>

section \<open>Structures\<close>

record ServerConfig =
  Port :: string
  HealthCheckPath :: string
  HealthCheckInterval :: duration
  ReadTimeout :: duration
  WriteTimeout :: duration
  IdleTimeout :: duration
  ShutdownTimeout :: duration

record RedisConfig =
  Addr :: string
  Password :: string
  DB :: int
  PoolSize :: int

record RateLimiterConfig =
  Enabled :: bool
  UseRedis :: bool
  TokensPerSecond :: rat
  BucketSize :: int
  KeyPrefix :: string
  WaitTimeout :: duration
  ModelLimits :: "(string \<times> rat) list"

record ModelInfo =
  miName :: string
  miTokenCostFn :: string

record ProviderSettings =
  BaseURL :: string
  APIKey :: string
  RequestTimeout :: duration
  MaxRetries :: int
  RetryBackoffMin :: duration
  RetryBackoffMax :: duration
  Models :: "ModelInfo list"

record LLMProviderConfig =
  Providers :: "(string \<times> ProviderSettings) list"
  DefaultProvider :: string
  DefaultModel :: string

record LoggingConfig =
  Level :: string
  Pretty :: bool

record Config =
  Server :: ServerConfig
  Redis :: RedisConfig
  RateLimiter :: RateLimiterConfig
  LLMProvider :: LLMProviderConfig
  Logging :: LoggingConfig

section \<open>Defaults\<close>

datatype default_value = DString string | DInt int | DFloat rat | DBool bool

definition setDefaults :: "(string \<times> default_value) list" where
  "setDefaults =
     [(''server.port'', DString '':8080''),
      (''server.healthCheckPath'', DString ''/health''),
      (''server.healthCheckInterval'', DString ''5s''),
      (''server.readTimeout'', DString ''30s''),
      (''server.writeTimeout'', DString ''60s''),
      (''server.idleTimeout'', DString ''120s''),
      (''server.shutdownTimeout'', DString ''30s''),
      (''redis.addr'', DString ''localhost:6379''),
      (''redis.db'', DInt 0),
      (''redis.poolSize'', DInt 10),
      (''rateLimiter.enabled'', DBool True),
      (''rateLimiter.useRedis'', DBool True),
      (''rateLimiter.tokensPerSecond'', DFloat 100),
      (''rateLimiter.bucketSize'', DInt 1000),
      (''rateLimiter.keyPrefix'', DString ''llm-rate-limit:''),
      (''rateLimiter.waitTimeout'', DString ''30s''),
      (''llmProvider.requestTimeout'', DString ''60s''),
      (''llmProvider.maxRetries'', DInt 3),
      (''llmProvider.retryBackoffMin'', DString ''100ms''),
      (''llmProvider.retryBackoffMax'', DString ''10s''),
      (''logging.level'', DString ''info''),
      (''logging.pretty'', DBool False)]"

text \<open>
  The keys that the structures read, from their \<^verbatim>\<open>mapstructure\<close> tags: the fields of the
  sections, and under a provider's name those of \<^verbatim>\<open>ProviderSettings\<close>.
\<close>

definition section_keys :: "string list" where
  "section_keys =
     map (\<lambda>f. ''server.'' @ f) [''port'', ''healthCheckPath'', ''healthCheckInterval'',
       ''readTimeout'', ''writeTimeout'', ''idleTimeout'', ''shutdownTimeout''] @
     map (\<lambda>f. ''redis.'' @ f) [''addr'', ''password'', ''db'', ''poolSize''] @
     map (\<lambda>f. ''rateLimiter.'' @ f) [''enabled'', ''useRedis'', ''tokensPerSecond'',
       ''bucketSize'', ''keyPrefix'', ''waitTimeout'', ''modelLimits''] @
     map (\<lambda>f. ''llmProvider.'' @ f) [''providers'', ''defaultProvider'', ''defaultModel''] @
     map (\<lambda>f. ''logging.'' @ f) [''level'', ''pretty'']"

section \<open>Validation\<close>

definition validateConfig :: "Config \<Rightarrow> go_error option" where
  "validateConfig cfg =
     (if Port (Server cfg) = '''' then Some (ErrorNew ''server port must be specified'')
      else if UseRedis (RateLimiter cfg) \<and> Addr (Redis cfg) = ''''
      then Some (ErrorNew ''redis address must be specified when using Redis rate limiter'')
      else if DefaultProvider (LLMProvider cfg) = ''''
      then Some (ErrorNew ''LLM provider default provider must be specified'')
      else if DefaultModel (LLMProvider cfg) = ''''
      then Some (ErrorNew ''LLM provider default model must be specified'')
      else None)"

section \<open>Loading\<close>

text \<open>What the code tells Viper before it reads: defaults, environment, and where the file is.\<close>

datatype config_source = ConfigFile string | ConfigSearch string string "string list"

record viper_setup =
  vDefaults :: "(string \<times> default_value) list"
  vEnvPrefix :: string
  vEnvKeyReplacer :: "string \<times> string"
  vAutomaticEnv :: bool
  vSource :: config_source

definition viper_setup_of :: "string \<Rightarrow> viper_setup" where
  "viper_setup_of configPath =
     \<lparr>vDefaults = setDefaults,
      vEnvPrefix = ''LLM_BALANCER'',
      vEnvKeyReplacer = (''.'', ''_''),
      vAutomaticEnv = True,
      vSource =
        (if configPath \<noteq> '''' then ConfigFile configPath
         else ConfigSearch ''config'' ''json'' [''.'', ''./config'', ''./internal/config''])\<rparr>"

definition LoadConfig ::
  "(viper_setup \<Rightarrow> go_error + 'v) \<Rightarrow> ('v \<Rightarrow> go_error + Config) \<Rightarrow> string \<Rightarrow> go_error + Config" where
  "LoadConfig readInConfig unmarshal configPath =
     (case readInConfig (viper_setup_of configPath) of
        Inl err \<Rightarrow> Inl (Wrapf ''failed to read config file: '' err '''')
      | Inr v \<Rightarrow>
          (case unmarshal v of
             Inl err \<Rightarrow> Inl (Wrapf ''failed to unmarshal config: '' err '''')
           | Inr config \<Rightarrow>
               (case validateConfig config of
                  Some err \<Rightarrow> Inl err
                | None \<Rightarrow> Inr config)))"

definition config_valid :: "Config \<Rightarrow> bool" where
  "config_valid cfg \<longleftrightarrow>
     Port (Server cfg) \<noteq> '''' \<and> (UseRedis (RateLimiter cfg) \<longrightarrow> Addr (Redis cfg) \<noteq> '''') \<and>
     DefaultProvider (LLMProvider cfg) \<noteq> '''' \<and> DefaultModel (LLMProvider cfg) \<noteq> ''''"

lemma validateConfig_None [simp]: "validateConfig cfg = None \<longleftrightarrow> config_valid cfg"
  by (auto simp: validateConfig_def config_valid_def)

lemma LoadConfig_valid: "LoadConfig rd um path = Inr cfg \<Longrightarrow> config_valid cfg"
  by (auto simp: LoadConfig_def split: sum.splits option.splits)

text \<open>
  The defaults that no structure reads: the four settings under \<^verbatim>\<open>llmProvider\<close>, which the
  structures expect under \<^verbatim>\<open>llmProvider.providers.NAME\<close>.
\<close>

lemma unread_defaults:
  "filter (\<lambda>k. k \<notin> set section_keys) (map fst setDefaults)
   = [''llmProvider.requestTimeout'', ''llmProvider.maxRetries'',
      ''llmProvider.retryBackoffMin'', ''llmProvider.retryBackoffMax'']"
  by (simp add: setDefaults_def section_keys_def)

end
