(* ===== verification/Go_Value.thy ===== *)
theory Go_Value
  imports Prelude
begin

text \<open>
  Go's \<^verbatim>\<open>interface{}\<close> values as the program meets them: what \<^verbatim>\<open>encoding/json\<close> decodes into
  an \<^verbatim>\<open>interface{}\<close>, and the values that the program itself puts into such maps.  A
  \<^verbatim>\<open>map[string]interface{}\<close> is an association list, and \<^verbatim>\<open>None\<close> where the code may hold a
  nil map; reading a nil map finds nothing.
\<close>

datatype gval =
    VNil | VBool bool | VFloat rat | VInt int | VString string
  | VSlice "gval list"
  | VMapSlice "(string \<times> gval) list list"
  | VMap "(string \<times> gval) list"

type_synonym gmap = "(string \<times> gval) list"

text \<open>The two-value index \<^verbatim>\<open>v, ok := m[k]\<close>, and the index that yields nil for a missing key.\<close>

definition gm_lookup :: "gmap option \<Rightarrow> string \<Rightarrow> gval option" where
  "gm_lookup m k = (case m of None \<Rightarrow> None | Some kvs \<Rightarrow> map_of kvs k)"

definition gm_index :: "gmap option \<Rightarrow> string \<Rightarrow> gval" where
  "gm_index m k = (case gm_lookup m k of None \<Rightarrow> VNil | Some v \<Rightarrow> v)"

text \<open>The type assertions that the code uses, with their \<^verbatim>\<open>ok\<close> result.\<close>

fun as_string :: "gval \<Rightarrow> string option" where
  "as_string (VString s) = Some s"
| "as_string v = None"

fun as_slice :: "gval \<Rightarrow> gval list option" where
  "as_slice (VSlice vs) = Some vs"
| "as_slice v = None"

fun as_map_slice :: "gval \<Rightarrow> gmap list option" where
  "as_map_slice (VMapSlice ms) = Some ms"
| "as_map_slice v = None"

fun as_map :: "gval \<Rightarrow> gmap option" where
  "as_map (VMap kvs) = Some kvs"
| "as_map v = None"

fun as_float :: "gval \<Rightarrow> rat option" where
  "as_float (VFloat x) = Some x"
| "as_float v = None"

text \<open>The assignment \<^verbatim>\<open>m[k] = v\<close>: the value of an existing key is replaced in its place.\<close>

primrec gm_assign :: "string \<Rightarrow> gval \<Rightarrow> gmap \<Rightarrow> gmap" where
  "gm_assign k v [] = [(k, v)]"
| "gm_assign k v (p # kvs) = (if fst p = k then (k, v) # kvs else p # gm_assign k v kvs)"

lemma map_of_gm_assign [simp]: "map_of (gm_assign k v kvs) = (map_of kvs)(k \<mapsto> v)"
  by (induction kvs) (auto simp: fun_upd_twist)

end
