(* ===== verification/Retry.thy ===== *)
theory Retry
  imports Config Go_Value
begin

text \<open>
  Package \<^verbatim>\<open>llm\<close>, file provider.go, the retry machinery of \<^verbatim>\<open>BaseProvider\<close>: exponential
  backoff with jitter on int64 durations, the status codes that are retried, and the
  request loop \<^verbatim>\<open>doRequest\<close>.  The network is a parameter: a function from the request and
  the number of the attempt to what the HTTP client returns.
\<close>

section \<open>Backoff\<close>

text \<open>
  Durations are 64-bit words read as signed; the shift and the product wrap around.  The
  last argument is the value of \<^verbatim>\<open>rand.Float64()\<close>, in the half-open unit interval.
\<close>

definition backoff_base :: "nat \<Rightarrow> 64 word \<Rightarrow> 64 word \<Rightarrow> 64 word" where
  "backoff_base attempt minBackoff maxBackoff =
     (let backoff = minBackoff * push_bit attempt 1
      in if maxBackoff <s backoff then maxBackoff else backoff)"

definition calculateBackoff :: "nat \<Rightarrow> 64 word \<Rightarrow> 64 word \<Rightarrow> rat \<Rightarrow> duration" where
  "calculateBackoff attempt minBackoff maxBackoff r =
     f64_to_int (f64_mul (f64_of_int (sint (backoff_base attempt minBackoff maxBackoff)))
       (f64_add (f64_rnd (8 / 10)) (f64_mul (f64_rnd (4 / 10)) r)))"

definition isRetryableStatusCode :: "int \<Rightarrow> bool" where
  "isRetryableStatusCode statusCode \<longleftrightarrow>
     statusCode = 429 \<or> statusCode = 500 \<or> statusCode = 502 \<or> statusCode = 503 \<or> statusCode = 504"

lemma sint_shifted:
  fixes x :: "64 word"
  shows "sint (x * push_bit n 1) = signed_take_bit 63 (sint x * 2 ^ n)"
proof -
  have eq: "x * push_bit n 1 = word_of_int (sint x * 2 ^ n)"
    by (simp add: push_bit_eq_mult)
  show ?thesis by (simp only: eq sint_sbintrunc') simp
qed

text \<open>Without overflow the base is the minimum, doubled once per attempt, capped.\<close>

lemma backoff_base_exact:
  assumes "0 \<le> sint minB" "sint minB * 2 ^ attempt < 2 ^ 63"
  shows "sint (backoff_base attempt minB maxB) = min (sint minB * 2 ^ attempt) (sint maxB)"
proof -
  have "sint (minB * push_bit attempt 1) = sint minB * 2 ^ attempt"
    unfolding sint_shifted using assms
    by (intro signed_take_bit_int_eq_self) (auto intro: order_trans [of _ 0])
  then show ?thesis
    by (simp add: backoff_base_def Let_def word_sless_alt min_def)
qed

text \<open>The jitter factor, rounding included.\<close>

lemma jitter_bounds:
  assumes "0 \<le> r" "r < 1"
  shows "4 / 5 * (1 - 1 / 2 ^ 53) ^ 2 \<le> f64_add (f64_rnd (8 / 10)) (f64_mul (f64_rnd (4 / 10)) r)"
    and "f64_add (f64_rnd (8 / 10)) (f64_mul (f64_rnd (4 / 10)) r) \<le> 6 / 5 * ulp_factor ^ 3"
proof -
  let ?u = "ulp_factor" and ?l = "1 - 1 / 2 ^ 53 :: rat"
  let ?m = "f64_mul (f64_rnd (4 / 10)) r" and ?j = "f64_add (f64_rnd (8 / 10)) (f64_mul (f64_rnd (4 / 10)) r)"
  have u: "1 \<le> ?u" by (rule ulp_factor_ge_1)
  have e: "0 \<le> f64_rnd (8 / 10)" "0 \<le> f64_rnd (4 / 10)" by (simp_all add: f64_rnd_nonneg)
  have m0: "0 \<le> ?m" using e assms by (simp add: f64_mul_def f64_rnd_nonneg)
  have "8 / 10 * ?l \<le> f64_rnd (8 / 10)" by (rule f64_rnd_lower) simp
  then have "8 / 10 * ?l * ?l \<le> (f64_rnd (8 / 10) + ?m) * ?l"
    using m0 by (intro mult_right_mono) simp_all
  also have "\<dots> \<le> ?j"
    unfolding f64_add_def using e m0 by (intro f64_rnd_lower) simp
  finally show "4 / 5 * ?l ^ 2 \<le> ?j" by (simp add: power2_eq_square)
  have "?m \<le> f64_rnd (4 / 10) * r * ?u"
    unfolding f64_mul_def ulp_factor_def using e assms by (intro f64_rnd_upper) simp
  also have "\<dots> \<le> (4 / 10 * ?u) * 1 * ?u"
    using e assms u f64_rnd_upper [of "4 / 10"]
    by (intro mult_right_mono mult_mono) (simp_all add: ulp_factor_def)
  finally have m: "?m \<le> 4 / 10 * ?u ^ 2" by (simp add: power2_eq_square)
  have "f64_rnd (8 / 10) \<le> 8 / 10 * ?u"
    unfolding ulp_factor_def by (rule f64_rnd_upper) simp
  also have "\<dots> \<le> 8 / 10 * ?u ^ 2"
    using u by (simp add: power2_eq_square mult_le_cancel_left1)
  finally have s: "f64_rnd (8 / 10) + ?m \<le> 12 / 10 * ?u ^ 2" using m by simp
  have "?j \<le> (f64_rnd (8 / 10) + ?m) * ?u"
    unfolding f64_add_def ulp_factor_def using e m0 by (intro f64_rnd_upper) simp
  also have "\<dots> \<le> 12 / 10 * ?u ^ 2 * ?u"
    using s u by (intro mult_right_mono) simp_all
  finally show "?j \<le> 6 / 5 * ?u ^ 3" by (simp add: power_numeral_reduce)
qed

lemma backoff_powers:
  fixes b l :: rat
  shows "(b * l) * (4 / 5 * l ^ 2) * l = 4 / 5 * b * l ^ 4"
    "(b * l) * (6 / 5 * l ^ 3) * l = 6 / 5 * b * l ^ 5"
  by (simp_all add: power_numeral_reduce)

text \<open>
  backoff_in_jitter_range: as long as doubling the minimum does not overflow, the delay
  before retry number \<^verbatim>\<open>attempt\<close> is the capped exponential backoff within the jitter of
  20 percent, up to float64 rounding and the truncation to nanoseconds.
\<close>

theorem backoff_in_jitter_range:
  assumes "0 \<le> sint minB" "0 \<le> sint maxB" "sint minB * 2 ^ attempt < 2 ^ 63" "0 \<le> r" "r < 1"
    and "b = of_int (min (sint minB * 2 ^ attempt) (sint maxB))"
  shows "4 / 5 * b * (1 - 1 / 2 ^ 53) ^ 4 - 1 < of_int (calculateBackoff attempt minB maxB r) \<and>
    of_int (calculateBackoff attempt minB maxB r) \<le> 6 / 5 * b * ulp_factor ^ 5"
proof -
  let ?l = "1 - 1 / 2 ^ 53 :: rat" and ?u = ulp_factor
  let ?j = "f64_add (f64_rnd (8 / 10)) (f64_mul (f64_rnd (4 / 10)) r)" and ?k = "min (sint minB * 2 ^ attempt) (sint maxB)"
  have l: "0 \<le> ?l" by simp
  have u: "0 \<le> ?u" using ulp_factor_ge_1 by linarith
  have base: "sint (backoff_base attempt minB maxB) = ?k"
    by (rule backoff_base_exact [OF assms(1,3)])
  have k0: "0 \<le> ?k" using assms(1,2) by simp
  then have b0: "0 \<le> b" unfolding assms(6) by (simp only: of_int_0_le_iff)
  let ?f = "f64_of_int ?k"
  have f: "b * ?l \<le> ?f" "?f \<le> b * ?u"
    using f64_rnd_lower [OF b0] f64_rnd_upper [OF b0] unfolding f64_of_int_def assms(6) ulp_factor_def .
  have j: "4 / 5 * ?l ^ 2 \<le> ?j" "?j \<le> 6 / 5 * ?u ^ 3"
    using jitter_bounds [OF assms(4,5)] by blast+
  have "0 \<le> 4 / 5 * ?l ^ 2" by simp
  from order_trans [OF this j(1)] have j0: "0 \<le> ?j" .
  have f0: "0 \<le> ?f" using k0 by (rule f64_of_int_nonneg)
  have fj: "0 \<le> ?f * ?j" using f0 j0 by simp
  let ?p = "f64_mul ?f ?j"
  have p0: "0 \<le> ?p" by (rule f64_mul_bounds(1) [OF fj])
  have "calculateBackoff attempt minB maxB r = \<lfloor>?p\<rfloor>"
    using p0 by (simp add: calculateBackoff_def base f64_to_int_def)
  then have fl: "?p - 1 < of_int (calculateBackoff attempt minB maxB r)"
    "of_int (calculateBackoff attempt minB maxB r) \<le> ?p"
    by linarith+
  have "(b * ?l) * (4 / 5 * ?l ^ 2) * ?l \<le> (?f * ?j) * ?l"
    using f(1) j(1) b0 l f0 j0 by (intro mult_right_mono mult_mono) simp_all
  also have "\<dots> \<le> ?p"
    by (rule f64_mul_bounds(2) [OF fj])
  finally have lo: "4 / 5 * b * ?l ^ 4 \<le> ?p" unfolding backoff_powers .
  have "?p \<le> (?f * ?j) * ?u"
    using f64_mul_bounds(3) [OF fj] by (simp only: ulp_factor_def)
  also have "\<dots> \<le> (b * ?u) * (6 / 5 * ?u ^ 3) * ?u"
    using f(2) j(2) b0 u f0 j0 by (intro mult_right_mono mult_mono) simp_all
  finally have "?p \<le> 6 / 5 * b * ?u ^ 5" unfolding backoff_powers .
  with lo fl show ?thesis by linarith
qed

text \<open>
  backoff_overflows: nothing keeps the doubling within 64 bits.  From attempt 64 on, the
  delay is zero whatever the configured minimum and maximum are.
\<close>

theorem backoff_overflows:
  assumes "64 \<le> attempt" "0 \<le> sint maxB"
  shows "calculateBackoff attempt minB maxB r = 0"
proof -
  have z: "(2 ^ attempt :: 64 word) = 0"
    using assms(1) by simp
  have "minB * push_bit attempt 1 = 0"
    unfolding push_bit_eq_mult z by simp
  then have "backoff_base attempt minB maxB = 0"
    using assms(2) unfolding backoff_base_def by (simp only: Let_def word_sless_alt) simp
  then show ?thesis
    by (simp add: calculateBackoff_def f64_mul_def f64_to_int_def f64_of_int_def)
qed

text \<open>
  With the default settings (100ms doubled up to 10s) the first wrap-around comes at attempt
  37: the delay is negative, and \<^verbatim>\<open>time.Sleep\<close> returns at once.
\<close>

lemma backoff_wraps_negative:
  "calculateBackoff 37 (word_of_int (100 * millisecond)) (word_of_int (10 * second)) 0 < 0"
  by code_simp

theorem backoff_in_jitter_range_witness:
  "4 / 5 * 500 * (1 - 1 / 2 ^ 53) ^ 4 - 1 < (of_int (calculateBackoff 3 100 500 (1 / 2)) :: rat)"
  using backoff_in_jitter_range [of 100 500 3 "1 / 2" 500] by simp

theorem backoff_overflows_witness: "calculateBackoff 70 100 500 (1 / 2) = 0"
  by (rule backoff_overflows) simp_all

section \<open>The request loop\<close>

record http_request =
  hrMethod :: string
  hrURL :: string
  hrBody :: string
  hrHeaders :: "(string \<times> string) list"

text \<open>What the HTTP client does with one attempt; a failing read yields the bytes read so far.\<close>

datatype http_outcome = DoFails go_error | BodyReadFails string go_error | HttpResponse int string

record llm_env =
  envCtxErr :: "nat \<Rightarrow> bool"
  envNewRequest :: "http_request \<Rightarrow> go_error option"
  envDo :: "http_request \<Rightarrow> nat \<Rightarrow> http_outcome"
  envRand :: "nat \<Rightarrow> rat"
  envMarshal :: "gmap option \<Rightarrow> go_error + string"
  envUnmarshal :: "string \<Rightarrow> go_error + gmap option"

record retryPolicy =
  maxRetries :: int
  minBackoff :: "64 word"
  maxBackoff :: "64 word"

text \<open>
  The loop from a given attempt: the result (an error, or the body, \<^verbatim>\<open>None\<close> for a nil slice),
  the number of requests made, and the delays slept.
\<close>

function doRequest_loop ::
  "llm_env \<Rightarrow> retryPolicy \<Rightarrow> http_request \<Rightarrow> nat \<Rightarrow> string option \<Rightarrow>
   (go_error + string option) \<times> nat \<times> duration list" where
  "doRequest_loop env p req attempt respBody =
     (if int attempt \<le> maxRetries p then
        (if envCtxErr env attempt then (Inl ErrContextCanceled, 0, [])
         else
           case envNewRequest env req of
             Some err \<Rightarrow> (Inl (Wrapf ''failed to create request: '' err ''''), 0, [])
           | None \<Rightarrow>
               let backoff = calculateBackoff attempt (minBackoff p) (maxBackoff p) (envRand env attempt) in
               (case envDo env req attempt of
                  DoFails err \<Rightarrow>
                    if int attempt < maxRetries p then
                      (case doRequest_loop env p req (Suc attempt) respBody of
                         (r, n, sleeps) \<Rightarrow> (r, Suc n, backoff # sleeps))
                    else (Inl (Wrapf '''' ErrRequestFailed ('': '' @ error_text err)), 1, [])
                | BodyReadFails body err \<Rightarrow>
                    if int attempt < maxRetries p then
                      (case doRequest_loop env p req (Suc attempt) (Some body) of
                         (r, n, sleeps) \<Rightarrow> (r, Suc n, backoff # sleeps))
                    else (Inl (Wrapf ''failed to read response body: '' err ''''), 1, [])
                | HttpResponse statusCode body \<Rightarrow>
                    if 200 \<le> statusCode \<and> statusCode < 300 then (Inr (Some body), 1, [])
                    else if int attempt < maxRetries p \<and> isRetryableStatusCode statusCode then
                      (case doRequest_loop env p req (Suc attempt) (Some body) of
                         (r, n, sleeps) \<Rightarrow> (r, Suc n, backoff # sleeps))
                    else (Inl (ErrorNew (''request failed with status '' @ fmt_d statusCode @ '': '' @ body)), 1, [])))
      else (Inr respBody, 0, []))"
  by pat_completeness auto
termination
  by (relation "measure (\<lambda>(env, p, req, attempt, respBody). nat (maxRetries p + 1 - int attempt))") auto

declare doRequest_loop.simps [simp del]

definition doRequest ::
  "llm_env \<Rightarrow> retryPolicy \<Rightarrow> http_request \<Rightarrow> (go_error + string option) \<times> nat \<times> duration list" where
  "doRequest env p req = doRequest_loop env p req 0 None"

section \<open>What the loop returns\<close>

text \<open>The outcomes after which the loop tries again while attempts are left.\<close>

fun retryable :: "http_outcome \<Rightarrow> bool" where
  "retryable (DoFails err) \<longleftrightarrow> True"
| "retryable (BodyReadFails body err) \<longleftrightarrow> True"
| "retryable (HttpResponse statusCode body) \<longleftrightarrow>
     \<not> (200 \<le> statusCode \<and> statusCode < 300) \<and> isRetryableStatusCode statusCode"

text \<open>The result of an attempt that is not repeated.\<close>

fun final_result :: "http_outcome \<Rightarrow> go_error + string option" where
  "final_result (DoFails err) = Inl (Wrapf '''' ErrRequestFailed ('': '' @ error_text err))"
| "final_result (BodyReadFails body err) = Inl (Wrapf ''failed to read response body: '' err '''')"
| "final_result (HttpResponse statusCode body) =
     (if 200 \<le> statusCode \<and> statusCode < 300 then Inr (Some body)
      else Inl (ErrorNew (''request failed with status '' @ fmt_d statusCode @ '': '' @ body)))"

definition backoffs :: "llm_env \<Rightarrow> retryPolicy \<Rightarrow> nat \<Rightarrow> nat \<Rightarrow> duration list" where
  "backoffs env p a k =
     map (\<lambda>j. calculateBackoff j (minBackoff p) (maxBackoff p) (envRand env j)) [a..<k]"

text \<open>The value of \<^verbatim>\<open>respBody\<close> after an attempt.\<close>

fun body_after :: "http_outcome \<Rightarrow> string option \<Rightarrow> string option" where
  "body_after (DoFails err) respBody = respBody"
| "body_after (BodyReadFails body err) respBody = Some body"
| "body_after (HttpResponse statusCode body) respBody = Some body"

text \<open>The loop, its three ways to try again taken together.\<close>

lemma doRequest_loop_step:
  "doRequest_loop env p req a respBody =
     (if int a \<le> maxRetries p then
        if envCtxErr env a then (Inl ErrContextCanceled, 0, [])
        else
          (case envNewRequest env req of
             Some err \<Rightarrow> (Inl (Wrapf ''failed to create request: '' err ''''), 0, [])
           | None \<Rightarrow>
               if int a < maxRetries p \<and> retryable (envDo env req a) then
                 (case doRequest_loop env p req (Suc a) (body_after (envDo env req a) respBody) of
                    (r, n, sleeps) \<Rightarrow>
                      (r, Suc n, calculateBackoff a (minBackoff p) (maxBackoff p) (envRand env a) # sleeps))
               else (final_result (envDo env req a), 1, []))
      else (Inr respBody, 0, []))"
  by (subst doRequest_loop.simps)
    (cases "envDo env req a"; cases "envNewRequest env req"; auto simp: Let_def)

lemma doRequest_loop_retries:
  assumes "int a < maxRetries p" "\<not> envCtxErr env a" "envNewRequest env req = None"
    and "retryable (envDo env req a)"
  shows "doRequest_loop env p req a respBody =
    (case doRequest_loop env p req (Suc a) (body_after (envDo env req a) respBody) of
       (r, n, sleeps) \<Rightarrow>
         (r, Suc n, calculateBackoff a (minBackoff p) (maxBackoff p) (envRand env a) # sleeps))"
  using assms by (subst doRequest_loop_step) simp

lemma doRequest_loop_stops:
  assumes "int a \<le> maxRetries p" "\<not> envCtxErr env a" "envNewRequest env req = None"
    and "int a = maxRetries p \<or> \<not> retryable (envDo env req a)"
  shows "doRequest_loop env p req a respBody = (final_result (envDo env req a), 1, [])"
  using assms by (subst doRequest_loop_step) auto

lemma doRequest_loop_spec:
  assumes "a \<le> k" "int k \<le> maxRetries p" "envNewRequest env req = None"
    and "\<forall>j. a \<le> j \<and> j \<le> k \<longrightarrow> \<not> envCtxErr env j"
    and "\<forall>j. a \<le> j \<and> j < k \<longrightarrow> retryable (envDo env req j)"
    and "int k = maxRetries p \<or> \<not> retryable (envDo env req k)"
  shows "doRequest_loop env p req a respBody =
    (final_result (envDo env req k), Suc (k - a), backoffs env p a k)"
  using assms
proof (induction "k - a" arbitrary: a respBody)
  case 0
  then have "a = k" by simp
  with 0 show ?case
    using doRequest_loop_stops [of k p env req respBody] by (simp add: backoffs_def)
next
  case (Suc d)
  then have lt: "a < k" by simp
  have step: "doRequest_loop env p req a respBody =
      (case doRequest_loop env p req (Suc a) (body_after (envDo env req a) respBody) of
         (r, n, sleeps) \<Rightarrow>
           (r, Suc n, calculateBackoff a (minBackoff p) (maxBackoff p) (envRand env a) # sleeps))"
    using Suc.prems lt by (intro doRequest_loop_retries) auto
  have "doRequest_loop env p req (Suc a) body =
      (final_result (envDo env req k), Suc (k - Suc a), backoffs env p (Suc a) k)" for body
    using Suc.hyps(2) Suc.prems lt by (intro Suc.hyps(1)) auto
  then show ?case
    using lt by (simp add: step backoffs_def upt_conv_Cons Suc_diff_Suc)
qed


definition example_env :: llm_env where
  "example_env =
     \<lparr>envCtxErr = (\<lambda>_. False), envNewRequest = (\<lambda>_. None),
      envDo = (\<lambda>_ k. if k = 0 then HttpResponse 503 ''busy'' else HttpResponse 200 ''{}''),
      envRand = (\<lambda>_. 0), envMarshal = (\<lambda>_. Inr ''{}''), envUnmarshal = (\<lambda>_. Inr (Some []))\<rparr>"

definition example_policy :: retryPolicy where
  "example_policy = \<lparr>maxRetries = 3, minBackoff = 100, maxBackoff = 1000\<rparr>"

definition example_request :: http_request where
  "example_request = \<lparr>hrMethod = ''POST'', hrURL = ''u'', hrBody = ''{}'', hrHeaders = []\<rparr>"


text \<open>The general facts about the loop, from any attempt on and in any environment.\<close>

lemma doRequest_loop_bound:
  assumes "doRequest_loop env p req a respBody = (r, n, sleeps)"
  shows "int n \<le> max 0 (maxRetries p + 1 - int a) \<and> length sleeps \<le> n"
  using assms
proof (induction "nat (maxRetries p + 1 - int a)" arbitrary: a respBody r n sleeps)
  case 0
  then show ?case by (simp add: doRequest_loop.simps)
next
  case (Suc d)
  obtain r' n' sl where rec: "doRequest_loop env p req (Suc a) (body_after (envDo env req a) respBody) = (r', n', sl)"
    by (metis prod_cases3)
  have "int n' \<le> max 0 (maxRetries p + 1 - int (Suc a)) \<and> length sl \<le> n'"
    using Suc.hyps(2) by (intro Suc.hyps(1) [OF _ rec]) simp
  then show ?case
    using Suc.prems Suc.hyps(2) rec
    by (subst (asm) doRequest_loop_step) (auto split: if_splits option.splits)
qed

lemma doRequest_loop_success:
  assumes "doRequest_loop env p req a respBody = (Inr b, n, sleeps)" "int a \<le> maxRetries p"
  shows "\<exists>k st body. a \<le> k \<and> int k \<le> maxRetries p \<and> envDo env req k = HttpResponse st body \<and>
    200 \<le> st \<and> st < 300 \<and> b = Some body \<and> n = Suc (k - a)"
  using assms
proof (induction "nat (maxRetries p - int a)" arbitrary: a respBody n sleeps rule: less_induct)
  case less
  have ok: "\<not> envCtxErr env a" "envNewRequest env req = None"
    using less.prems by (auto simp: doRequest_loop_step [of env p req a] split: option.splits if_splits)
  show ?case
  proof (cases "int a < maxRetries p \<and> retryable (envDo env req a)")
    case True
    then obtain m sl where m: "doRequest_loop env p req (Suc a) (body_after (envDo env req a) respBody) = (Inr b, m, sl)"
      "n = Suc m"
      using less.prems(1) ok by (subst (asm) doRequest_loop_step) (auto split: prod.splits)
    have "\<exists>k st body. Suc a \<le> k \<and> int k \<le> maxRetries p \<and> envDo env req k = HttpResponse st body \<and>
        200 \<le> st \<and> st < 300 \<and> b = Some body \<and> m = Suc (k - Suc a)"
      using True by (intro less.hyps [OF _ m(1)]) auto
    then show ?thesis
      using m(2) by (metis Suc_diff_Suc Suc_leD Suc_le_eq)
  next
    case False
    then have "final_result (envDo env req a) = Inr b" "n = 1"
      using less.prems ok by (auto simp: doRequest_loop_step [of env p req a] split: if_splits)
    then show ?thesis
      using less.prems(2) by (cases "envDo env req a") (auto intro!: exI [of _ a] split: if_splits)
  qed
qed

text \<open>
  C18: in every environment \<^verbatim>\<open>doRequest\<close> makes at most one request
  more than the configured retries; it reports a body only if the last request it made was
  answered with that body and a 2xx status; and for a negative number of retries it makes no
  request at all and reports success with a nil body.
\<close>

theorem doRequest_bounded_and_honest:
  assumes "doRequest env p req = (r, n, sleeps)"
  shows "int n \<le> max 0 (maxRetries p + 1) \<and> length sleeps \<le> n \<and>
    (\<forall>body. r = Inr (Some body) \<longrightarrow>
       0 < n \<and> (\<exists>st. envDo env req (n - 1) = HttpResponse st body \<and> 200 \<le> st \<and> st < 300)) \<and>
    (r = Inr None \<longleftrightarrow> maxRetries p < 0)"
proof -
  have loop: "doRequest_loop env p req 0 None = (r, n, sleeps)"
    using assms by (simp add: doRequest_def)
  have neg: "(r, n, sleeps) = (Inr None, 0, [])" if "maxRetries p < 0"
    using loop that by (simp add: doRequest_loop.simps)
  have pos: "\<exists>k st body. int k \<le> maxRetries p \<and> envDo env req k = HttpResponse st body \<and>
      200 \<le> st \<and> st < 300 \<and> b = Some body \<and> n = Suc k"
    if "r = Inr b" "\<not> maxRetries p < 0" for b
    using doRequest_loop_success [of env p req 0 None b n sleeps] loop that by auto
  show ?thesis
    using doRequest_loop_bound [OF loop] neg pos by (cases "maxRetries p < 0") fastforce+
qed

theorem doRequest_bounded_and_honest_witness:
  "doRequest example_env example_policy example_request
     = (Inr (Some ''{}''), 2, [calculateBackoff 0 100 1000 0]) \<and>
   (\<exists>st. envDo example_env example_request 1 = HttpResponse st ''{}'' \<and> 200 \<le> st \<and> st < 300)"
proof -
  have run: "doRequest example_env example_policy example_request
     = (Inr (Some ''{}''), 2, [calculateBackoff 0 100 1000 0])"
    by (simp add: doRequest_def doRequest_loop.simps example_env_def example_policy_def
        isRetryableStatusCode_def Let_def)
  show ?thesis
    using run doRequest_bounded_and_honest [OF run] by simp
qed

end
