(* ===== verification/Provider.thy ===== *)
theory Provider
  imports Retry
begin

text \<open>
  Package \<^verbatim>\<open>llm\<close>, file provider.go: requests and responses, the three providers and the
  service that chooses among them.  \<^verbatim>\<open>encoding/json\<close> and the HTTP client are fields of the
  environment \<^verbatim>\<open>llm_env\<close>.  A provider's call returns its result together with the HTTP
  requests that it issued and how often each was attempted.
\<close>

section \<open>Data\<close>

record Request =
  rqProviderName :: string
  rqModelName :: string
  rqPayload :: "gmap option"

record Response =
  rsProviderName :: string
  rsModelName :: string
  rsResult :: "gmap option"
  rsTokensUsed :: int
  rsError :: "go_error option"

text \<open>The map \<^verbatim>\<open>models\<close> only ever holds \<^verbatim>\<open>true\<close>: it is the list of its keys.\<close>

record BaseProvider =
  bpName :: string
  bpConfig :: ProviderSettings
  bpModels :: "string list"
  bpClientTimeout :: duration
  bpRetryPolicy :: retryPolicy

definition newBaseProvider :: "string \<Rightarrow> ProviderSettings \<Rightarrow> duration \<Rightarrow> BaseProvider" where
  "newBaseProvider name cfg clientTimeout =
     \<lparr>bpName = name,
      bpConfig = cfg,
      bpModels = remdups (map miName (Models cfg)),
      bpClientTimeout = clientTimeout,
      bpRetryPolicy =
        \<lparr>maxRetries = MaxRetries cfg,
         minBackoff = word_of_int (RetryBackoffMin cfg),
         maxBackoff = word_of_int (RetryBackoffMax cfg)\<rparr>\<rparr>"

definition SupportedModels :: "BaseProvider \<Rightarrow> string list" where
  "SupportedModels p = bpModels p"

type_synonym http_log = "(http_request \<times> nat) list"
type_synonym call_result = "(go_error + Response) \<times> http_log"

text \<open>The copy of the payload, with the model added.\<close>

definition payload_with_model :: "Request \<Rightarrow> gmap" where
  "payload_with_model req =
     gm_assign ''model'' (VString (rqModelName req))
       (case rqPayload req of None \<Rightarrow> [] | Some kvs \<Rightarrow> kvs)"

text \<open>The bytes of a possibly nil slice.\<close>

definition slice_bytes :: "string option \<Rightarrow> string" where
  "slice_bytes b = (case b of None \<Rightarrow> '''' | Some s \<Rightarrow> s)"

section \<open>OpenAI\<close>

text \<open>The text that the OpenAI estimate counts.\<close>

definition openai_content :: "gmap \<Rightarrow> string" where
  "openai_content msg =
     (case as_string (gm_index (Some msg) ''content'') of
        Some content \<Rightarrow> content @ '' ''
      | None \<Rightarrow> '''')"

definition openai_text :: "Request \<Rightarrow> string" where
  "openai_text req =
     (case gm_lookup (rqPayload req) ''messages'' of
        Some messagesRaw \<Rightarrow>
          (case as_slice messagesRaw of
             None \<Rightarrow>
               (case as_map_slice messagesRaw of
                  Some msgsArray \<Rightarrow> concat (map openai_content msgsArray)
                | None \<Rightarrow> '''')
           | Some messages \<Rightarrow>
               concat (map (\<lambda>msgRaw. case as_map msgRaw of
                 Some msg \<Rightarrow> openai_content msg | None \<Rightarrow> '''') messages))
      | None \<Rightarrow>
          (case as_string (gm_index (rqPayload req) ''prompt'') of
             Some prompt \<Rightarrow> prompt
           | None \<Rightarrow> ''''))"

definition OpenAI_EstimateTokens :: "Request \<Rightarrow> go_error + int" where
  "OpenAI_EstimateTokens req =
     (let inputText = openai_text req
      in if length inputText = 0 then Inr 1 else Inr (go_quot (int (length inputText)) 4))"

definition openai_tokens :: "gmap option \<Rightarrow> int" where
  "openai_tokens result =
     (case as_map (gm_index result ''usage'') of
        Some usage \<Rightarrow>
          (case as_float (gm_index (Some usage) ''total_tokens'') of
             Some t \<Rightarrow> f64_to_int t
           | None \<Rightarrow> 0)
      | None \<Rightarrow> 0)"

definition OpenAI_ProcessRequest :: "llm_env \<Rightarrow> BaseProvider \<Rightarrow> Request \<Rightarrow> call_result" where
  "OpenAI_ProcessRequest env p req =
     (if rqModelName req \<notin> set (bpModels p) then (Inl ErrModelNotFound, [])
      else
        case envMarshal env (Some (payload_with_model req)) of
          Inl err \<Rightarrow> (Inl (Wrapf ''failed to marshal request body: '' err ''''), [])
        | Inr reqBody \<Rightarrow>
            let hr = \<lparr>hrMethod = ''POST'',
                      hrURL = BaseURL (bpConfig p) @ ''/chat/completions'',
                      hrBody = reqBody,
                      hrHeaders = [(''Content-Type'', ''application/json''),
                                   (''Authorization'', ''Bearer '' @ APIKey (bpConfig p))]\<rparr>;
                (r, n, sleeps) = doRequest env (bpRetryPolicy p) hr
            in (case r of
                  Inl err \<Rightarrow> Inl err
                | Inr respBody \<Rightarrow>
                    (case envUnmarshal env (slice_bytes respBody) of
                       Inl err \<Rightarrow> Inl (Wrapf ''failed to unmarshal response: '' err '''')
                     | Inr result \<Rightarrow>
                         Inr \<lparr>rsProviderName = bpName p,
                              rsModelName = rqModelName req,
                              rsResult = result,
                              rsTokensUsed = openai_tokens result,
                              rsError = None\<rparr>),
                [(hr, n)]))"

section \<open>Anthropic\<close>

definition anthropic_text :: "Request \<Rightarrow> string" where
  "anthropic_text req =
     (case as_string (gm_index (rqPayload req) ''prompt'') of
        Some prompt \<Rightarrow> prompt
      | None \<Rightarrow>
          (case as_slice (gm_index (rqPayload req) ''messages'') of
             Some messages \<Rightarrow>
               concat (map (\<lambda>msg. case as_map msg of
                 Some m \<Rightarrow>
                   (case as_string (gm_index (Some m) ''content'') of
                      Some content \<Rightarrow> content
                    | None \<Rightarrow> '''')
               | None \<Rightarrow> '''') messages)
           | None \<Rightarrow> ''''))"

definition Anthropic_EstimateTokens :: "Request \<Rightarrow> go_error + int" where
  "Anthropic_EstimateTokens req = Inr (go_quot (int (length (anthropic_text req))) 4)"

definition anthropic_tokens :: "gmap option \<Rightarrow> int" where
  "anthropic_tokens result =
     (case as_map (gm_index result ''usage'') of
        Some usage \<Rightarrow>
          let part = (\<lambda>k. case as_float (gm_index (Some usage) k) of
                            Some x \<Rightarrow> f64_to_int x | None \<Rightarrow> 0)
          in wrap64 (part ''input_tokens'' + part ''output_tokens'')
      | None \<Rightarrow> 0)"

definition Anthropic_ProcessRequest :: "llm_env \<Rightarrow> BaseProvider \<Rightarrow> Request \<Rightarrow> call_result" where
  "Anthropic_ProcessRequest env p req =
     (if rqModelName req \<notin> set (bpModels p) then (Inl ErrModelNotFound, [])
      else
        case envMarshal env (Some (payload_with_model req)) of
          Inl err \<Rightarrow> (Inl (Wrapf ''failed to marshal request body: '' err ''''), [])
        | Inr reqBody \<Rightarrow>
            let hr = \<lparr>hrMethod = ''POST'',
                      hrURL = BaseURL (bpConfig p) @ ''/messages'',
                      hrBody = reqBody,
                      hrHeaders = [(''Content-Type'', ''application/json''),
                                   (''X-API-Key'', APIKey (bpConfig p)),
                                   (''anthropic-version'', ''2023-06-01'')]\<rparr>;
                (r, n, sleeps) = doRequest env (bpRetryPolicy p) hr
            in (case r of
                  Inl err \<Rightarrow> Inl err
                | Inr respBody \<Rightarrow>
                    (case envUnmarshal env (slice_bytes respBody) of
                       Inl err \<Rightarrow> Inl (Wrapf ''failed to unmarshal response: '' err '''')
                     | Inr result \<Rightarrow>
                         Inr \<lparr>rsProviderName = bpName p,
                              rsModelName = rqModelName req,
                              rsResult = result,
                              rsTokensUsed = anthropic_tokens result,
                              rsError = None\<rparr>),
                [(hr, n)]))"

section \<open>Generic providers\<close>

definition Generic_EstimateTokens :: "llm_env \<Rightarrow> Request \<Rightarrow> go_error + int" where
  "Generic_EstimateTokens env req =
     (case envMarshal env (rqPayload req) of
        Inl err \<Rightarrow> Inl (Wrapf ''failed to marshal payload: '' err '''')
      | Inr jsonBytes \<Rightarrow> Inr (go_quot (int (length jsonBytes)) 4))"

definition Generic_ProcessRequest :: "llm_env \<Rightarrow> BaseProvider \<Rightarrow> Request \<Rightarrow> call_result" where
  "Generic_ProcessRequest env p req =
     (if rqModelName req \<notin> set (bpModels p) then (Inl ErrModelNotFound, [])
      else
        case envMarshal env (Some (payload_with_model req)) of
          Inl err \<Rightarrow> (Inl (Wrapf ''failed to marshal request body: '' err ''''), [])
        | Inr reqBody \<Rightarrow>
            let hr = \<lparr>hrMethod = ''POST'',
                      hrURL = BaseURL (bpConfig p),
                      hrBody = reqBody,
                      hrHeaders = [(''Content-Type'', ''application/json''),
                                   (''Authorization'', ''Bearer '' @ APIKey (bpConfig p))]\<rparr>;
                (r, n, sleeps) = doRequest env (bpRetryPolicy p) hr
            in (case r of
                  Inl err \<Rightarrow> Inl err
                | Inr respBody \<Rightarrow>
                    (case envUnmarshal env (slice_bytes respBody) of
                       Inl err \<Rightarrow> Inl (Wrapf ''failed to unmarshal response: '' err '''')
                     | Inr result \<Rightarrow>
                         Inr \<lparr>rsProviderName = bpName p,
                              rsModelName = rqModelName req,
                              rsResult = result,
                              rsTokensUsed =
                                (case Generic_EstimateTokens env req of Inl err \<Rightarrow> 0 | Inr t \<Rightarrow> t),
                              rsError = None\<rparr>),
                [(hr, n)]))"

section \<open>The interface\<close>

text \<open>
  What a successful call promises: one request was issued, whose body is the payload with the
  model in it; its last attempt was answered with a 2xx status; and the response carries the
  decoded body under the provider's name and the requested model.
\<close>

definition answered_by :: "llm_env \<Rightarrow> string \<Rightarrow> Request \<Rightarrow> Response \<Rightarrow> http_log \<Rightarrow> bool" where
  "answered_by env name req resp lg \<longleftrightarrow>
     (\<exists>hr k st body.
        lg = [(hr, Suc k)] \<and> envMarshal env (Some (payload_with_model req)) = Inr (hrBody hr) \<and>
        envDo env hr k = HttpResponse st body \<and> 200 \<le> st \<and> st < 300 \<and>
        envUnmarshal env body = Inr (rsResult resp) \<and>
        rsProviderName resp = name \<and> rsModelName resp = rqModelName req \<and> rsError resp = None)"

text \<open>\<^verbatim>\<open>json.Unmarshal\<close> rejects empty input.\<close>

definition rejects_empty :: "llm_env \<Rightarrow> bool" where
  "rejects_empty env \<longleftrightarrow> (\<exists>err. envUnmarshal env '''' = Inl err)"

locale llm_provider =
  fixes process :: "llm_env \<Rightarrow> 'p \<Rightarrow> Request \<Rightarrow> call_result"
    and base :: "'p \<Rightarrow> BaseProvider"
  assumes unsupported: "rqModelName req \<notin> set (bpModels (base p)) \<Longrightarrow>
      process env p req = (Inl ErrModelNotFound, [])"
    and answered: "process env p req = (Inr resp, lg) \<Longrightarrow> rejects_empty env \<Longrightarrow>
      answered_by env (bpName (base p)) req resp lg"
    and attempts: "(hr, n) \<in> set (snd (process env p req)) \<Longrightarrow>
      int n \<le> max 0 (maxRetries (bpRetryPolicy (base p)) + 1)"
begin

text \<open>A successful call means that the model is one of the configured ones.\<close>

lemma success_supported:
  "process env p req = (Inr resp, lg) \<Longrightarrow> rqModelName req \<in> set (bpModels (base p))"
  using unsupported [of req p env] by (cases "rqModelName req \<in> set (bpModels (base p))") auto

lemma success_answer:
  assumes "process env p req = (Inr resp, lg)" "rejects_empty env"
  shows "rsProviderName resp = bpName (base p) \<and> rsModelName resp = rqModelName req \<and> rsError resp = None"
  using answered [OF assms] by (auto simp: answered_by_def)

end

text \<open>The part that the three providers share.\<close>

lemma doRequest_success:
  assumes "doRequest env p hr = (Inr b, n, sleeps)" "envUnmarshal env (slice_bytes b) = Inr result"
    "rejects_empty env"
  shows "\<exists>k st body. n = Suc k \<and> envDo env hr k = HttpResponse st body \<and> 200 \<le> st \<and> st < 300 \<and>
    envUnmarshal env body = Inr result"
proof -
  have "0 \<le> maxRetries p"
  proof (rule ccontr)
    assume "\<not> 0 \<le> maxRetries p"
    then have "b = None"
      using assms(1) by (simp add: doRequest_def doRequest_loop.simps)
    then show False
      using assms(2,3) by (simp add: slice_bytes_def rejects_empty_def)
  qed
  then obtain k st body where "envDo env hr k = HttpResponse st body" "200 \<le> st" "st < 300"
    "b = Some body" "n = Suc k"
    using doRequest_loop_success [of env p hr 0 None b n sleeps] assms(1) by (auto simp: doRequest_def)
  then show ?thesis
    using assms(2) by (auto simp: slice_bytes_def)
qed

lemma doRequest_attempts:
  "doRequest env p hr = (r, n, sleeps) \<Longrightarrow> int n \<le> max 0 (maxRetries p + 1)"
  using doRequest_loop_bound [of env p hr 0 None r n sleeps] by (simp add: doRequest_def)

lemma posted_answer:
  assumes "doRequest env p hr = (Inr b, n, sleeps)" "envUnmarshal env (slice_bytes b) = Inr result"
    "rejects_empty env" "envMarshal env (Some (payload_with_model req)) = Inr (hrBody hr)"
  shows "answered_by env name req
    \<lparr>rsProviderName = name, rsModelName = rqModelName req, rsResult = result,
     rsTokensUsed = t, rsError = None\<rparr> [(hr, n)]"
  using doRequest_success [OF assms(1-3)] assms(4) by (auto simp: answered_by_def)

lemmas process_split = sum.splits prod.splits if_splits

interpretation openai: llm_provider OpenAI_ProcessRequest "\<lambda>p. p"
proof
  fix req p env resp lg and hr :: http_request and n
  show "OpenAI_ProcessRequest env p req = (Inl ErrModelNotFound, [])"
    if "rqModelName req \<notin> set (bpModels p)"
    using that by (simp add: OpenAI_ProcessRequest_def)
  show "answered_by env (bpName p) req resp lg"
    if "OpenAI_ProcessRequest env p req = (Inr resp, lg)" "rejects_empty env"
    using that by (auto simp: OpenAI_ProcessRequest_def Let_def split: process_split intro: posted_answer)
  show "int n \<le> max 0 (maxRetries (bpRetryPolicy p) + 1)"
    if "(hr, n) \<in> set (snd (OpenAI_ProcessRequest env p req))"
    using that by (auto simp: OpenAI_ProcessRequest_def Let_def split: process_split dest: doRequest_attempts)
qed

interpretation anthropic: llm_provider Anthropic_ProcessRequest "\<lambda>p. p"
proof
  fix req p env resp lg and hr :: http_request and n
  show "Anthropic_ProcessRequest env p req = (Inl ErrModelNotFound, [])"
    if "rqModelName req \<notin> set (bpModels p)"
    using that by (simp add: Anthropic_ProcessRequest_def)
  show "answered_by env (bpName p) req resp lg"
    if "Anthropic_ProcessRequest env p req = (Inr resp, lg)" "rejects_empty env"
    using that by (auto simp: Anthropic_ProcessRequest_def Let_def split: process_split intro: posted_answer)
  show "int n \<le> max 0 (maxRetries (bpRetryPolicy p) + 1)"
    if "(hr, n) \<in> set (snd (Anthropic_ProcessRequest env p req))"
    using that by (auto simp: Anthropic_ProcessRequest_def Let_def split: process_split dest: doRequest_attempts)
qed

interpretation generic: llm_provider Generic_ProcessRequest "\<lambda>p. p"
proof
  fix req p env resp lg and hr :: http_request and n
  show "Generic_ProcessRequest env p req = (Inl ErrModelNotFound, [])"
    if "rqModelName req \<notin> set (bpModels p)"
    using that by (simp add: Generic_ProcessRequest_def)
  show "answered_by env (bpName p) req resp lg"
    if "Generic_ProcessRequest env p req = (Inr resp, lg)" "rejects_empty env"
    using that by (auto simp: Generic_ProcessRequest_def Let_def split: process_split intro: posted_answer)
  show "int n \<le> max 0 (maxRetries (bpRetryPolicy p) + 1)"
    if "(hr, n) \<in> set (snd (Generic_ProcessRequest env p req))"
    using that by (auto simp: Generic_ProcessRequest_def Let_def split: process_split dest: doRequest_attempts)
qed

section \<open>Dispatch\<close>

datatype Provider =
  OpenAIProvider BaseProvider | AnthropicProvider BaseProvider | GenericProvider BaseProvider

primrec provider_base :: "Provider \<Rightarrow> BaseProvider" where
  "provider_base (OpenAIProvider p) = p"
| "provider_base (AnthropicProvider p) = p"
| "provider_base (GenericProvider p) = p"

primrec ProcessRequest :: "llm_env \<Rightarrow> Provider \<Rightarrow> Request \<Rightarrow> call_result" where
  "ProcessRequest env (OpenAIProvider p) req = OpenAI_ProcessRequest env p req"
| "ProcessRequest env (AnthropicProvider p) req = Anthropic_ProcessRequest env p req"
| "ProcessRequest env (GenericProvider p) req = Generic_ProcessRequest env p req"

primrec Provider_EstimateTokens :: "llm_env \<Rightarrow> Provider \<Rightarrow> Request \<Rightarrow> go_error + int" where
  "Provider_EstimateTokens env (OpenAIProvider p) req = OpenAI_EstimateTokens req"
| "Provider_EstimateTokens env (AnthropicProvider p) req = Anthropic_EstimateTokens req"
| "Provider_EstimateTokens env (GenericProvider p) req = Generic_EstimateTokens env req"

interpretation provider: llm_provider ProcessRequest provider_base
proof
  fix req p env resp lg and hr :: http_request and n
  show "ProcessRequest env p req = (Inl ErrModelNotFound, [])"
    if "rqModelName req \<notin> set (bpModels (provider_base p))"
    using that by (cases p) (simp_all add: openai.unsupported anthropic.unsupported generic.unsupported)
  show "answered_by env (bpName (provider_base p)) req resp lg"
    if "ProcessRequest env p req = (Inr resp, lg)" "rejects_empty env"
    using that by (cases p) (simp_all add: openai.answered anthropic.answered generic.answered)
  show "int n \<le> max 0 (maxRetries (bpRetryPolicy (provider_base p)) + 1)"
    if "(hr, n) \<in> set (snd (ProcessRequest env p req))"
  proof (cases p)
    case (OpenAIProvider b)
    with that openai.attempts [of hr n env b req] show ?thesis by simp
  next
    case (AnthropicProvider b)
    with that anthropic.attempts [of hr n env b req] show ?thesis by simp
  next
    case (GenericProvider b)
    with that generic.attempts [of hr n env b req] show ?thesis by simp
  qed
qed

section \<open>Asynchronous calls\<close>

text \<open>
  What the goroutine of \<^verbatim>\<open>ProcessRequestAsync\<close> sends: the response, or a response that holds
  the error.  A channel is the list of what was sent on it.
\<close>

definition async_response :: "string \<Rightarrow> Request \<Rightarrow> go_error + Response \<Rightarrow> Response" where
  "async_response name req r =
     (case r of
        Inl err \<Rightarrow>
          \<lparr>rsProviderName = name, rsModelName = rqModelName req, rsResult = None,
           rsTokensUsed = 0, rsError = Some err\<rparr>
      | Inr resp \<Rightarrow> resp)"

definition OpenAI_ProcessRequestAsync ::
  "llm_env \<Rightarrow> BaseProvider \<Rightarrow> Request \<Rightarrow> Response list \<Rightarrow> Response list" where
  "OpenAI_ProcessRequestAsync env p req responseCh =
     responseCh @ [async_response (bpName p) req (fst (OpenAI_ProcessRequest env p req))]"

definition Anthropic_ProcessRequestAsync ::
  "llm_env \<Rightarrow> BaseProvider \<Rightarrow> Request \<Rightarrow> Response list \<Rightarrow> Response list" where
  "Anthropic_ProcessRequestAsync env p req responseCh =
     responseCh @ [async_response (bpName p) req (fst (Anthropic_ProcessRequest env p req))]"

definition Generic_ProcessRequestAsync ::
  "llm_env \<Rightarrow> BaseProvider \<Rightarrow> Request \<Rightarrow> Response list \<Rightarrow> Response list" where
  "Generic_ProcessRequestAsync env p req responseCh =
     responseCh @ [async_response (bpName p) req (fst (Generic_ProcessRequest env p req))]"

primrec ProcessRequestAsync ::
  "llm_env \<Rightarrow> Provider \<Rightarrow> Request \<Rightarrow> Response list \<Rightarrow> Response list" where
  "ProcessRequestAsync env (OpenAIProvider p) req responseCh = OpenAI_ProcessRequestAsync env p req responseCh"
| "ProcessRequestAsync env (AnthropicProvider p) req responseCh = Anthropic_ProcessRequestAsync env p req responseCh"
| "ProcessRequestAsync env (GenericProvider p) req responseCh = Generic_ProcessRequestAsync env p req responseCh"

lemma ProcessRequestAsync_sends:
  "ProcessRequestAsync env p req responseCh =
     responseCh @ [async_response (bpName (provider_base p)) req (fst (ProcessRequest env p req))]"
  by (cases p) (simp_all add: OpenAI_ProcessRequestAsync_def Anthropic_ProcessRequestAsync_def
      Generic_ProcessRequestAsync_def)

section \<open>The service\<close>

record Service =
  svProviders :: "(string \<times> Provider) list"
  svDefaultProvider :: string
  svDefaultModel :: string
  svClientTimeout :: duration

text \<open>
  The timeout of the shared HTTP client is the default provider's; reading a missing entry of
  the map \<^verbatim>\<open>cfg.Providers\<close> yields the zero value.
\<close>

definition client_timeout :: "LLMProviderConfig \<Rightarrow> duration" where
  "client_timeout cfg =
     (case map_of (Providers cfg) (DefaultProvider cfg) of
        None \<Rightarrow> 0
      | Some ps \<Rightarrow> RequestTimeout ps)"

definition new_provider :: "duration \<Rightarrow> string \<Rightarrow> ProviderSettings \<Rightarrow> Provider" where
  "new_provider timeout name providerCfg =
     (let base = newBaseProvider name providerCfg timeout
      in if name = ''openai'' then OpenAIProvider base
         else if name = ''anthropic'' then AnthropicProvider base
         else GenericProvider base)"

definition NewService :: "LLMProviderConfig \<Rightarrow> go_error + Service" where
  "NewService cfg =
     (if DefaultProvider cfg = '''' then Inl (ErrorNew ''default provider must be specified'')
      else if DefaultModel cfg = '''' then Inl (ErrorNew ''default model must be specified'')
      else
        let httpClient = client_timeout cfg
        in Inr \<lparr>svProviders = map (\<lambda>(name, ps). (name, new_provider httpClient name ps)) (Providers cfg),
                svDefaultProvider = DefaultProvider cfg,
                svDefaultModel = DefaultModel cfg,
                svClientTimeout = httpClient\<rparr>)"

text \<open>The names come in the unspecified order of Go's map iteration; here in the list's.\<close>

definition GetProviderNames :: "Service \<Rightarrow> string list" where
  "GetProviderNames s = map fst (svProviders s)"

definition GetProvider :: "Service \<Rightarrow> string \<Rightarrow> go_error + Provider" where
  "GetProvider s name =
     (case map_of (svProviders s) name of
        None \<Rightarrow> Inl ErrProviderNotFound
      | Some provider \<Rightarrow> Inr provider)"

text \<open>\<^verbatim>\<open>Process\<close> and its siblings write the defaults into the caller's request.\<close>

definition fill_defaults :: "Service \<Rightarrow> Request \<Rightarrow> Request" where
  "fill_defaults s req =
     (let req1 = (if rqProviderName req = '''' then req\<lparr>rqProviderName := svDefaultProvider s\<rparr> else req)
      in if rqModelName req1 = '''' then req1\<lparr>rqModelName := svDefaultModel s\<rparr> else req1)"

definition Process :: "llm_env \<Rightarrow> Service \<Rightarrow> Request \<Rightarrow> call_result \<times> Request" where
  "Process env s req =
     (let req' = fill_defaults s req
      in (case GetProvider s (rqProviderName req') of
            Inl err \<Rightarrow> (Inl err, [])
          | Inr provider \<Rightarrow> ProcessRequest env provider req',
          req'))"

definition ProcessAsync ::
  "llm_env \<Rightarrow> Service \<Rightarrow> Request \<Rightarrow> Response list \<Rightarrow> Response list \<times> Request" where
  "ProcessAsync env s req responseCh =
     (let req' = fill_defaults s req
      in (case GetProvider s (rqProviderName req') of
            Inl err \<Rightarrow>
              responseCh @ [\<lparr>rsProviderName = rqProviderName req', rsModelName = rqModelName req',
                             rsResult = None, rsTokensUsed = 0, rsError = Some err\<rparr>]
          | Inr provider \<Rightarrow> ProcessRequestAsync env provider req' responseCh,
          req'))"

definition EstimateTokens :: "llm_env \<Rightarrow> Service \<Rightarrow> Request \<Rightarrow> (go_error + int) \<times> Request" where
  "EstimateTokens env s req =
     (let req' = fill_defaults s req
      in (case GetProvider s (rqProviderName req') of
            Inl err \<Rightarrow> Inl err
          | Inr provider \<Rightarrow> Provider_EstimateTokens env provider req',
          req'))"

text \<open>In a service, every provider is registered under its own name and uses the shared client.\<close>

definition service_ok :: "Service \<Rightarrow> bool" where
  "service_ok s \<longleftrightarrow>
     svDefaultProvider s \<noteq> '''' \<and> svDefaultModel s \<noteq> '''' \<and>
     (\<forall>(name, p) \<in> set (svProviders s).
        bpName (provider_base p) = name \<and> bpClientTimeout (provider_base p) = svClientTimeout s)"

lemma new_provider_base [simp]:
  "provider_base (new_provider timeout name ps) = newBaseProvider name ps timeout"
  by (simp add: new_provider_def Let_def)

lemma NewService_ok: "NewService cfg = Inr s \<Longrightarrow> service_ok s"
  by (auto simp: NewService_def service_ok_def newBaseProvider_def Let_def split: if_splits)

lemma GetProvider_named:
  "service_ok s \<Longrightarrow> GetProvider s name = Inr p \<Longrightarrow> bpName (provider_base p) = name"
  by (auto simp: GetProvider_def service_ok_def dest!: map_of_SomeD split: option.splits)

lemma fill_defaults_names [simp]:
  "rqProviderName (fill_defaults s req) =
     (if rqProviderName req = '''' then svDefaultProvider s else rqProviderName req)"
  "rqModelName (fill_defaults s req) =
     (if rqModelName req = '''' then svDefaultModel s else rqModelName req)"
  "rqPayload (fill_defaults s req) = rqPayload req"
  by (simp_all add: fill_defaults_def Let_def)

lemma map_of_new_providers:
  "map_of (map (\<lambda>(name, ps). (name, f name ps)) kvs) k = map_option (f k) (map_of kvs k)"
  by (induction kvs) auto

lemma GetProvider_new:
  assumes "NewService cfg = Inr s"
  shows "GetProvider s name =
    (case map_of (Providers cfg) name of
       None \<Rightarrow> Inl ErrProviderNotFound
     | Some ps \<Rightarrow> Inr (new_provider (client_timeout cfg) name ps))"
proof -
  have "svProviders s = map (\<lambda>(name, ps). (name, new_provider (client_timeout cfg) name ps)) (Providers cfg)"
    using assms by (auto simp: NewService_def Let_def split: if_splits)
  then show ?thesis
    by (auto simp: GetProvider_def map_of_new_providers split: option.splits)
qed

lemma newBaseProvider_fields [simp]:
  "bpName (newBaseProvider name ps t) = name"
  "bpConfig (newBaseProvider name ps t) = ps"
  "set (bpModels (newBaseProvider name ps t)) = miName ` set (Models ps)"
  "bpClientTimeout (newBaseProvider name ps t) = t"
  "maxRetries (bpRetryPolicy (newBaseProvider name ps t)) = MaxRetries ps"
  by (simp_all add: newBaseProvider_def)

text \<open>
  NewService_builds_the_configured_providers: a configuration that passed validation yields
  a service; its providers are exactly the configured ones, each under its own name, with
  the models of its settings; and all of them share one HTTP client, whose timeout is the
  default provider's.
\<close>

theorem NewService_builds_the_configured_providers:
  assumes "config_valid cfg"
  shows "\<exists>s. NewService (LLMProvider cfg) = Inr s \<and>
    GetProviderNames s = map fst (Providers (LLMProvider cfg)) \<and>
    (\<forall>name. case map_of (Providers (LLMProvider cfg)) name of
        None \<Rightarrow> GetProvider s name = Inl ErrProviderNotFound
      | Some ps \<Rightarrow>
          \<exists>p. GetProvider s name = Inr p \<and> bpName (provider_base p) = name \<and>
            set (SupportedModels (provider_base p)) = miName ` set (Models ps) \<and>
            bpClientTimeout (provider_base p) = client_timeout (LLMProvider cfg))"
proof -
  obtain s where s: "NewService (LLMProvider cfg) = Inr s"
    "GetProviderNames s = map fst (Providers (LLMProvider cfg))"
    using assms
    by (simp add: config_valid_def NewService_def GetProviderNames_def Let_def o_def case_prod_beta)
  show ?thesis
    by (intro exI [of _ s])
      (auto simp: s(1,2) GetProvider_new [OF s(1)] SupportedModels_def split: option.splits)
qed


text \<open>
  Process_refuses_unconfigured: a request for a provider that is not configured, or for a
  model that the provider does not list, fails with the matching error and no HTTP request
  is made; in any case no request is attempted more often than the provider's retries allow.
\<close>

theorem Process_refuses_unconfigured:
  assumes "NewService cfg = Inr s" "req' = fill_defaults s req"
  shows "case map_of (Providers cfg) (rqProviderName req') of
      None \<Rightarrow> Process env s req = ((Inl ErrProviderNotFound, []), req')
    | Some ps \<Rightarrow>
        if rqModelName req' \<in> miName ` set (Models ps)
        then list_all (\<lambda>(hr, n). int n \<le> max 0 (MaxRetries ps + 1)) (snd (fst (Process env s req)))
        else Process env s req = ((Inl ErrModelNotFound, []), req')"
proof (cases "map_of (Providers cfg) (rqProviderName req')")
  case None
  then show ?thesis
    using assms(2) by (simp add: Process_def Let_def GetProvider_new [OF assms(1)])
next
  case (Some ps)
  let ?p = "new_provider (client_timeout cfg) (rqProviderName req') ps"
  have run: "Process env s req = (ProcessRequest env ?p req', req')"
    using Some assms(2) by (simp add: Process_def Let_def GetProvider_new [OF assms(1)])
  have "list_all (\<lambda>(hr, n). int n \<le> max 0 (MaxRetries ps + 1)) (snd (ProcessRequest env ?p req'))"
    using provider.attempts [of _ _ env ?p req'] by (auto simp: list_all_iff)
  then show ?thesis
    using Some provider.unsupported [of req' ?p env] by (simp add: run)
qed

text \<open>
  C24: \<^verbatim>\<open>ProcessAsync\<close> sends exactly one response: the one that
  \<^verbatim>\<open>Process\<close> would have returned, or one that holds its error under the names asked for.
\<close>

theorem ProcessAsync_agrees_with_Process:
  assumes "NewService cfg = Inr s" "Process env s req = ((r, lg), req')"
  shows "ProcessAsync env s req responseCh =
    (responseCh @ [async_response (rqProviderName req') req' r], req')"
proof -
  have req': "req' = fill_defaults s req"
    using assms(2) by (simp add: Process_def Let_def)
  have r: "(case GetProvider s (rqProviderName req') of
      Inl err \<Rightarrow> (Inl err, []) | Inr p \<Rightarrow> ProcessRequest env p req') = (r, lg)"
    using assms(2) unfolding req' by (simp add: Process_def Let_def)
  show ?thesis
    using r by (auto simp: ProcessAsync_def Let_def req' [symmetric] ProcessRequestAsync_sends
        GetProvider_named [OF NewService_ok [OF assms(1)]] async_response_def split: sum.splits)
qed

text \<open>
  OpenAI_EstimateTokens_range: the OpenAI estimate is one for a request without text, and
  else a quarter of the number of bytes, rounded down; so it is never negative, and it is
  zero exactly for texts of one to three bytes.
\<close>

theorem OpenAI_EstimateTokens_range:
  "\<exists>t. OpenAI_EstimateTokens req = Inr t \<and> 0 \<le> t \<and>
     (t = 0 \<longleftrightarrow> length (openai_text req) \<in> {1, 2, 3}) \<and>
     (if openai_text req = '''' then t = 1
      else 4 * t \<le> int (length (openai_text req)) \<and> int (length (openai_text req)) < 4 * t + 4)"
proof -
  have "int (length (openai_text req)) div 4 = 0 \<longleftrightarrow> length (openai_text req) < 4"
    by linarith
  then show ?thesis
    by (cases "length (openai_text req) = 0")
      (auto simp: OpenAI_EstimateTokens_def Let_def go_quot_nonneg less_Suc_eq numeral_eq_Suc)
qed

section \<open>A concrete service\<close>

definition example_settings :: ProviderSettings where
  "example_settings =
     \<lparr>BaseURL = ''http://x'', APIKey = ''k'', RequestTimeout = 60 * second, MaxRetries = 3,
      RetryBackoffMin = 100, RetryBackoffMax = 1000,
      Models = [\<lparr>miName = ''m'', miTokenCostFn = ''''\<rparr>]\<rparr>"

definition example_llm_config :: LLMProviderConfig where
  "example_llm_config =
     \<lparr>Providers = [(''openai'', example_settings)], DefaultProvider = ''openai'', DefaultModel = ''m''\<rparr>"

definition example_full_config :: Config where
  "example_full_config =
     \<lparr>Server = \<lparr>Port = '':8080'', HealthCheckPath = '''', HealthCheckInterval = 0, ReadTimeout = 0,
                WriteTimeout = 0, IdleTimeout = 0, ShutdownTimeout = 0\<rparr>,
      Redis = \<lparr>Addr = '''', Password = '''', DB = 0, PoolSize = 0\<rparr>,
      RateLimiter = \<lparr>Enabled = True, UseRedis = False, TokensPerSecond = 1, BucketSize = 10,
                     KeyPrefix = '''', WaitTimeout = 0, ModelLimits = []\<rparr>,
      LLMProvider = example_llm_config,
      Logging = \<lparr>Level = '''', Pretty = False\<rparr>\<rparr>"

definition example_service :: Service where
  "example_service =
     \<lparr>svProviders = [(''openai'', new_provider (60 * second) ''openai'' example_settings)],
      svDefaultProvider = ''openai'', svDefaultModel = ''m'', svClientTimeout = 60 * second\<rparr>"

lemma example_service: "NewService example_llm_config = Inr example_service"
  by (simp add: NewService_def example_llm_config_def example_service_def client_timeout_def
      example_settings_def Let_def)

text \<open>An environment that answers busy first, and rejects empty input.\<close>

definition json_env :: llm_env where
  "json_env = example_env\<lparr>envUnmarshal :=
     (\<lambda>s. if s = '''' then Inl (ErrorNew ''unexpected end of JSON input'') else Inr (Some []))\<rparr>"

definition example_llm_request :: Request where
  "example_llm_request = \<lparr>rqProviderName = '''', rqModelName = '''', rqPayload = None\<rparr>"

lemma json_env_rejects_empty: "rejects_empty json_env"
  by (simp add: rejects_empty_def json_env_def)

lemma example_fill:
  "fill_defaults example_service example_llm_request =
     \<lparr>rqProviderName = ''openai'', rqModelName = ''m'', rqPayload = None\<rparr>"
  by (simp add: fill_defaults_def example_service_def example_llm_request_def)

definition example_http_request :: http_request where
  "example_http_request =
     \<lparr>hrMethod = ''POST'', hrURL = ''http://x/chat/completions'', hrBody = ''{}'',
      hrHeaders = [(''Content-Type'', ''application/json''), (''Authorization'', ''Bearer k'')]\<rparr>"

definition example_response :: Response where
  "example_response =
     \<lparr>rsProviderName = ''openai'', rsModelName = ''m'', rsResult = Some [], rsTokensUsed = 0,
      rsError = None\<rparr>"

lemma example_Process:
  "Process json_env example_service example_llm_request =
     ((Inr example_response, [(example_http_request, 2)]),
      \<lparr>rqProviderName = ''openai'', rqModelName = ''m'', rqPayload = None\<rparr>)"
  unfolding Process_def Let_def example_fill
  by (simp add: GetProvider_def example_service_def new_provider_def newBaseProvider_def
      OpenAI_ProcessRequest_def example_settings_def json_env_def example_env_def doRequest_def
      doRequest_loop.simps isRetryableStatusCode_def slice_bytes_def openai_tokens_def gm_index_def
      gm_lookup_def example_response_def example_http_request_def Let_def)

theorem NewService_builds_the_configured_providers_witness:
  "\<exists>s. NewService (LLMProvider example_full_config) = Inr s \<and> GetProviderNames s = [''openai'']"
  using NewService_builds_the_configured_providers [of example_full_config]
  by (auto simp: config_valid_def example_full_config_def example_llm_config_def)


theorem Process_refuses_unconfigured_witness:
  "Process json_env example_service (example_llm_request\<lparr>rqModelName := ''other''\<rparr>) =
     ((Inl ErrModelNotFound, []), \<lparr>rqProviderName = ''openai'', rqModelName = ''other'', rqPayload = None\<rparr>)"
  using Process_refuses_unconfigured [OF example_service refl,
      where req = "example_llm_request\<lparr>rqModelName := ''other''\<rparr>" and env = json_env]
  by (simp add: example_llm_config_def example_settings_def fill_defaults_def example_service_def
      example_llm_request_def)

theorem ProcessAsync_agrees_with_Process_witness:
  "fst (ProcessAsync json_env example_service example_llm_request []) = [example_response]"
  using ProcessAsync_agrees_with_Process [OF example_service example_Process, of "[]"]
  by (simp add: async_response_def)

end
