(* ===== verification/Channel_Registry.thy ===== *)
theory Channel_Registry
  imports Provider
begin

text \<open>
  Response channels and the registry of package \<^verbatim>\<open>queue\<close> (file channel_registry.go).  A
  channel is an address into a store of buffers; the registry maps request ids to
  addresses.  Every operation of the registry runs under its mutex.
\<close>

section \<open>Buffered channels\<close>

type_synonym chan = nat

record chan_store =
  chBuf :: "chan \<Rightarrow> Response list"
  chCap :: "chan \<Rightarrow> nat"
  chNext :: chan

definition no_chans :: chan_store where
  "no_chans = \<lparr>chBuf = (\<lambda>_. []), chCap = (\<lambda>_. 0), chNext = 0\<rparr>"

text \<open>\<^verbatim>\<open>make(chan *llm.Response, n)\<close>\<close>

definition make_chan :: "nat \<Rightarrow> chan_store \<Rightarrow> chan \<times> chan_store" where
  "make_chan n cs =
     (chNext cs, cs\<lparr>chBuf := (chBuf cs)(chNext cs := []), chCap := (chCap cs)(chNext cs := n),
       chNext := Suc (chNext cs)\<rparr>)"

text \<open>A send blocks while the buffer is full; a receive takes the oldest element.\<close>

definition chan_send :: "chan \<Rightarrow> Response \<Rightarrow> chan_store \<Rightarrow> chan_store outcome" where
  "chan_send c r cs =
     (if length (chBuf cs c) < chCap cs c
      then Returns (cs\<lparr>chBuf := (chBuf cs)(c := chBuf cs c @ [r])\<rparr>)
      else Blocks)"

definition chan_receive :: "chan \<Rightarrow> chan_store \<Rightarrow> (Response \<times> chan_store) option" where
  "chan_receive c cs =
     (case chBuf cs c of
        [] \<Rightarrow> None
      | r # rs \<Rightarrow> Some (r, cs\<lparr>chBuf := (chBuf cs)(c := rs)\<rparr>))"

section \<open>The registry\<close>

record ChannelRegistry =
  channels :: "string \<rightharpoonup> chan"

definition NewChannelRegistry :: ChannelRegistry where
  "NewChannelRegistry = \<lparr>channels = Map.empty\<rparr>"

definition Register :: "string \<Rightarrow> chan \<Rightarrow> ChannelRegistry \<Rightarrow> ChannelRegistry" where
  "Register requestID ch r = r\<lparr>channels := (channels r)(requestID \<mapsto> ch)\<rparr>"

definition Get :: "string \<Rightarrow> ChannelRegistry \<Rightarrow> chan option" where
  "Get requestID r = channels r requestID"

definition Remove :: "string \<Rightarrow> ChannelRegistry \<Rightarrow> ChannelRegistry" where
  "Remove requestID r = r\<lparr>channels := (channels r)(requestID := None)\<rparr>"

definition Registry_Clear :: "ChannelRegistry \<Rightarrow> ChannelRegistry" where
  "Registry_Clear r = r\<lparr>channels := Map.empty\<rparr>"

text \<open>The ids that hold a channel.\<close>

definition registered :: "ChannelRegistry \<Rightarrow> string set" where
  "registered r = dom (channels r)"

locale channel_map =
  fixes empty :: 'r
    and register :: "string \<Rightarrow> chan \<Rightarrow> 'r \<Rightarrow> 'r"
    and get :: "string \<Rightarrow> 'r \<Rightarrow> chan option"
    and remove :: "string \<Rightarrow> 'r \<Rightarrow> 'r"
  assumes get_empty: "get i empty = None"
    and get_register: "get i (register j c r) = (if i = j then Some c else get i r)"
    and get_remove: "get i (remove j r) = (if i = j then None else get i r)"
begin

text \<open>A registration is visible until its own id is removed, and the clean-up is complete.\<close>

lemma remove_register: "get i (remove j (register j c r)) = (if i = j then None else get i r)"
  by (simp add: get_register get_remove)

lemma register_survives_others:
  "j \<notin> set is \<Longrightarrow> get j (fold remove is (register j c r)) = Some c"
proof -
  have "get j (fold remove is r') = get j r'" if "j \<notin> set is" for r' "is"
    using that by (induction "is" arbitrary: r') (auto simp: get_remove)
  then show "j \<notin> set is \<Longrightarrow> get j (fold remove is (register j c r)) = Some c"
    by (simp add: get_register)
qed

end

interpretation registry: channel_map NewChannelRegistry Register Get Remove
  by unfold_locales (auto simp: NewChannelRegistry_def Register_def Get_def Remove_def)

lemma registered_simps [simp]:
  "registered NewChannelRegistry = {}"
  "registered (Register i c r) = insert i (registered r)"
  "registered (Remove i r) = registered r - {i}"
  "registered (Registry_Clear r) = {}"
  by (auto simp: registered_def NewChannelRegistry_def Register_def Remove_def Registry_Clear_def)

lemma registered_iff: "i \<in> registered r \<longleftrightarrow> (\<exists>c. Get i r = Some c)"
  by (auto simp: registered_def Get_def)

end
