(* ===== verification/Fifo_Queue.thy ===== *)
theory Fifo_Queue
  imports Go_Value "HOL-Library.Multiset"
begin

text \<open>
  Package \<^verbatim>\<open>queue\<close>, file fifo_queue.go: queue items, the interface \<^verbatim>\<open>Queue\<close> as a locale, and
  the in-memory queue.  The payload of an item, a byte slice in the code, is of any type
  \<^verbatim>\<open>'b\<close> here: the queue only passes it on.  Operations are functions on the state under the
  queue's mutex; readings of the clock are arguments.
\<close>

section \<open>Items\<close>

record 'b QueueItem =
  qID :: string
  qData :: 'b
  qMetadata :: "gmap option"
  qPriority :: int
  qEnqueueTime :: gotime
  qProcessAfter :: gotime

text \<open>\<^verbatim>\<open>Enqueue\<close> sets the time of an item that has none.\<close>

definition stamp :: "gotime \<Rightarrow> 'b QueueItem \<Rightarrow> 'b QueueItem" where
  "stamp now item = (if IsZero (qEnqueueTime item) then item\<lparr>qEnqueueTime := now\<rparr> else item)"

definition item_ready :: "gotime \<Rightarrow> 'b QueueItem \<Rightarrow> bool" where
  "item_ready now item \<longleftrightarrow> IsZero (qProcessAfter item) \<or> \<not> now < qProcessAfter item"

lemma stamp_simps [simp]:
  "qID (stamp now item) = qID item" "qData (stamp now item) = qData item"
  "qMetadata (stamp now item) = qMetadata item" "qPriority (stamp now item) = qPriority item"
  "qProcessAfter (stamp now item) = qProcessAfter item"
  by (simp_all add: stamp_def)

section \<open>The interface\<close>

type_synonym ('q, 'b) enqueue_op = "gotime \<Rightarrow> 'b QueueItem option \<Rightarrow> 'q \<Rightarrow> go_error option \<times> 'q"
type_synonym ('q, 'b) dequeue_op = "gotime \<Rightarrow> 'q \<Rightarrow> ((go_error + 'b QueueItem) \<times> 'q) outcome"

text \<open>A client's calls, and the run of a sequence of them; a blocked call takes no effect.\<close>

datatype 'b queue_call = CallEnqueue gotime "'b QueueItem" | CallDequeue gotime

fun queue_run ::
  "('q, 'b) enqueue_op \<Rightarrow> ('q, 'b) dequeue_op \<Rightarrow> 'b queue_call list \<Rightarrow> 'q \<Rightarrow>
   'b QueueItem list \<times> 'b QueueItem list \<times> 'q" where
  "queue_run enq deq [] q = ([], [], q)"
| "queue_run enq deq (CallEnqueue t item # cs) q =
     (let (e, q1) = enq t (Some item) q; (ins, outs, q2) = queue_run enq deq cs q1
      in (if e = None then stamp t item # ins else ins, outs, q2))"
| "queue_run enq deq (CallDequeue t # cs) q =
     (case deq t q of
        Returns (Inr item, q1) \<Rightarrow>
          (let (ins, outs, q2) = queue_run enq deq cs q1 in (ins, item # outs, q2))
      | Returns (Inl e, q1) \<Rightarrow> queue_run enq deq cs q1
      | _ \<Rightarrow> queue_run enq deq cs q)"

text \<open>
  The contract of the interface: \<^verbatim>\<open>Enqueue\<close> appends the stamped item or leaves the contents
  alone; \<^verbatim>\<open>Dequeue\<close> takes one ready item out of the contents, and neither operation invents
  or duplicates items.  The view of an item is what the queue keeps of it.
\<close>

locale request_queue =
  fixes contents :: "'q \<Rightarrow> 'b QueueItem list"
    and enq :: "('q, 'b) enqueue_op"
    and deq :: "('q, 'b) dequeue_op"
    and view :: "'b QueueItem \<Rightarrow> 'b QueueItem"
  assumes enq_accepts:
      "enq t (Some item) q = (None, q') \<Longrightarrow> contents q' = contents q @ [view (stamp t item)]"
    and enq_rejects: "enq t i q = (Some e, q') \<Longrightarrow> contents q' = contents q"
    and deq_takes:
      "deq t q = Returns (Inr item, q') \<Longrightarrow>
       item_ready t item \<and> add_mset (view item) (mset (contents q')) \<subseteq># mset (contents q)"
    and deq_fails: "deq t q = Returns (Inl e, q') \<Longrightarrow> mset (contents q') \<subseteq># mset (contents q)"
    and deq_never_panics: "deq t q \<noteq> Panics"
begin

text \<open>
  Whatever a client does, the items that come out, with those still inside, are among those
  inside at the start and those accepted: no item is delivered twice or made up.
\<close>

lemma run_at_most_once:
  "queue_run enq deq cs q = (ins, outs, q') \<Longrightarrow>
   mset (map view outs) + mset (contents q') \<subseteq># mset (contents q) + mset (map view ins)"
proof (induction cs arbitrary: q ins outs q')
  case Nil
  then show ?case by simp
next
  case (Cons c cs)
  show ?case
  proof (cases c)
    case (CallEnqueue t item)
    obtain e q1 where e: "enq t (Some item) q = (e, q1)" by fastforce
    obtain ins1 where run: "queue_run enq deq cs q1 = (ins1, outs, q')"
      and ins: "ins = (if e = None then stamp t item # ins1 else ins1)"
      using Cons.prems by (auto simp: CallEnqueue e Let_def split: prod.splits)
    show ?thesis
      using Cons.IH [OF run] enq_accepts [of t item q q1] enq_rejects [of t "Some item" q] e
      by (cases e) (auto simp: ins)
  next
    case (CallDequeue t)
    show ?thesis
    proof (cases "deq t q")
      case (Returns r)
      obtain res q1 where r: "r = (res, q1)" by (cases r)
      show ?thesis
      proof (cases res)
        case (Inl e)
        with Cons.prems have "queue_run enq deq cs q1 = (ins, outs, q')"
          by (simp add: CallDequeue Returns r)
        then have "mset (map view outs) + mset (contents q') \<subseteq># mset (contents q1) + mset (map view ins)"
          by (rule Cons.IH)
        also have "\<dots> \<subseteq># mset (contents q) + mset (map view ins)"
          using deq_fails [of t q e q1] by (intro mset_subset_eq_mono_add) (simp_all add: Returns r Inl)
        finally show ?thesis .
      next
        case (Inr item)
        obtain outs1 where run: "queue_run enq deq cs q1 = (ins, outs1, q')" and o: "outs = item # outs1"
          using Cons.prems by (auto simp: CallDequeue Returns r Inr split: prod.splits)
        have "mset (map view outs1) + mset (contents q') \<subseteq># mset (contents q1) + mset (map view ins)"
          using run by (rule Cons.IH)
        then have "mset (map view outs) + mset (contents q') \<subseteq># add_mset (view item) (mset (contents q1)) + mset (map view ins)"
          by (simp add: o)
        also have "\<dots> \<subseteq># mset (contents q) + mset (map view ins)"
          using deq_takes [of t q item q1] by (intro mset_subset_eq_mono_add) (simp_all add: Returns r Inr)
        finally show ?thesis .
      qed
    next
      case Blocks
      then show ?thesis using Cons by (simp add: CallDequeue)
    next
      case Panics
      then show ?thesis using deq_never_panics by blast
    qed
  qed
qed

end

section \<open>The in-memory queue\<close>

datatype QueueType = InMemoryQueue | RedisQueue | OtherQueueType string

record QueueRedisOptions =
  qoKeyPrefix :: string
  qoKeyExpiry :: duration

record QueueConfig =
  qcType :: QueueType
  qcMaxSize :: int
  qcItemTTL :: duration
  qcRedisOptions :: "QueueRedisOptions option"

record 'b InMemoryFIFO =
  items :: "'b QueueItem list"
  maxSize :: int
  itemTTL :: duration

definition NewInMemoryQueue :: "QueueConfig \<Rightarrow> 'b InMemoryFIFO" where
  "NewInMemoryQueue config =
     \<lparr>items = [],
      maxSize = (if qcMaxSize config \<le> 0 then 1000 else qcMaxSize config),
      itemTTL = (if qcItemTTL config \<le> 0 then 24 * hour else qcItemTTL config)\<rparr>"

text \<open>One tick of the background goroutine.\<close>

definition cleanupExpired :: "gotime \<Rightarrow> 'b InMemoryFIFO \<Rightarrow> 'b InMemoryFIFO" where
  "cleanupExpired now q =
     (let newItems = filter (\<lambda>item. time_Sub now (qEnqueueTime item) < itemTTL q) (items q);
          expiredCount = length (filter (\<lambda>item. \<not> time_Sub now (qEnqueueTime item) < itemTTL q) (items q))
      in if 0 < expiredCount then q\<lparr>items := newItems\<rparr> else q)"

definition Enqueue :: "('b InMemoryFIFO, 'b) enqueue_op" where
  "Enqueue now item q =
     (case item of
        None \<Rightarrow> (Some (ErrorNew ''cannot enqueue nil item''), q)
      | Some item \<Rightarrow>
          let item = stamp now item in
          if maxSize q \<le> int (length (items q)) then (Some ErrQueueFull, q)
          else (None, q\<lparr>items := items q @ [item]\<rparr>))"

text \<open>
  \<^verbatim>\<open>Dequeue\<close> waits while the queue is empty (how it waits is the subject of
  \<^verbatim>\<open>Dequeue_Wait\<close>), then takes the first item that is ready.
\<close>

definition Dequeue :: "('b InMemoryFIFO, 'b) dequeue_op" where
  "Dequeue now q =
     (if items q = [] then Blocks
      else
        case find_index (item_ready now) (items q) of
          None \<Rightarrow> Returns (Inl ErrQueueEmpty, q)
        | Some readyIndex \<Rightarrow>
            Returns (Inr (items q ! readyIndex), q\<lparr>items := remove_nth readyIndex (items q)\<rparr>))"

definition Peek :: "gotime \<Rightarrow> 'b InMemoryFIFO \<Rightarrow> go_error + 'b QueueItem" where
  "Peek now q =
     (if items q = [] then Inl ErrQueueEmpty
      else
        case find_index (item_ready now) (items q) of
          None \<Rightarrow> Inl ErrQueueEmpty
        | Some i \<Rightarrow> Inr (items q ! i))"

definition Size :: "'b InMemoryFIFO \<Rightarrow> int" where
  "Size q = int (length (items q))"

definition Clear :: "'b InMemoryFIFO \<Rightarrow> 'b InMemoryFIFO" where
  "Clear q = q\<lparr>items := []\<rparr>"

lemmas queue_defs = Enqueue_def Dequeue_def Peek_def Size_def Clear_def cleanupExpired_def

section \<open>The contract holds\<close>

lemma Dequeue_cases:
  assumes "Dequeue now q = Returns (Inr item, q')"
  obtains pre post where "items q = pre @ item # post" "q' = q\<lparr>items := pre @ post\<rparr>"
    "\<forall>x \<in> set pre. \<not> item_ready now x" "item_ready now item"
proof -
  from assms obtain i where i: "find_index (item_ready now) (items q) = Some i"
    and item: "item = items q ! i" and q': "q' = q\<lparr>items := remove_nth i (items q)\<rparr>"
    by (auto simp: Dequeue_def split: if_splits option.splits)
  obtain pre post where "items q = pre @ items q ! i # post" "remove_nth i (items q) = pre @ post"
    "\<forall>x \<in> set pre. \<not> item_ready now x" "item_ready now (items q ! i)"
    using find_index_split [OF i] by blast
  then show ?thesis by (intro that [of pre post]) (simp_all add: item q')
qed

interpretation mem: request_queue items Enqueue Dequeue "\<lambda>item. item"
proof unfold_locales
  fix t item and i :: "'b QueueItem option" and q q' :: "'b InMemoryFIFO" and e
  show "Enqueue t (Some item) q = (None, q') \<Longrightarrow> items q' = items q @ [stamp t item]"
    by (auto simp: Enqueue_def Let_def split: if_splits)
  show "Enqueue t i q = (Some e, q') \<Longrightarrow> items q' = items q"
    by (auto simp: Enqueue_def Let_def split: if_splits option.splits)
  show "item_ready t item \<and> add_mset item (mset (items q')) \<subseteq># mset (items q)"
    if "Dequeue t q = Returns (Inr item, q')"
    using that by (rule Dequeue_cases) simp
  show "Dequeue t q = Returns (Inl e, q') \<Longrightarrow> mset (items q') \<subseteq># mset (items q)"
    by (auto simp: Dequeue_def split: if_splits option.splits)
  show "Dequeue t q \<noteq> Panics"
    by (simp add: Dequeue_def split: option.split)
qed

section \<open>Properties\<close>

definition item1 :: "string \<Rightarrow> gotime \<Rightarrow> string QueueItem" where
  "item1 i after = \<lparr>qID = i, qData = ''data'', qMetadata = None, qPriority = 0,
     qEnqueueTime = 1, qProcessAfter = after\<rparr>"

definition queue2 :: "string InMemoryFIFO" where
  "queue2 = \<lparr>items = [item1 ''a'' 100, item1 ''b'' 0, item1 ''c'' 7], maxSize = 4, itemTTL = hour\<rparr>"





text \<open>
  The abstract queue: a bounded list with first-in first-out calls.
\<close>

fun fifo_spec :: "int \<Rightarrow> 'b queue_call list \<Rightarrow> 'b QueueItem list \<Rightarrow>
  'b QueueItem list \<times> 'b QueueItem list \<times> 'b QueueItem list" where
  "fifo_spec n [] xs = ([], [], xs)"
| "fifo_spec n (CallEnqueue t item # cs) xs =
     (if n \<le> int (length xs) then fifo_spec n cs xs
      else let (ins, outs, ys) = fifo_spec n cs (xs @ [stamp t item]) in (stamp t item # ins, outs, ys))"
| "fifo_spec n (CallDequeue t # cs) xs =
     (case xs of
        [] \<Rightarrow> fifo_spec n cs []
      | x # xs' \<Rightarrow> (let (ins, outs, ys) = fifo_spec n cs xs' in (ins, x # outs, ys)))"

definition undelayed :: "'b QueueItem \<Rightarrow> bool" where
  "undelayed item \<longleftrightarrow> IsZero (qProcessAfter item)"

fun undelayed_call :: "'b queue_call \<Rightarrow> bool" where
  "undelayed_call (CallEnqueue t item) = undelayed item"
| "undelayed_call (CallDequeue t) = True"

lemma Dequeue_undelayed:
  assumes "\<forall>x \<in> set (items q). undelayed x"
  shows "Dequeue now q = (case items q of [] \<Rightarrow> Blocks | x # xs \<Rightarrow> Returns (Inr x, q\<lparr>items := xs\<rparr>))"
  using assms
  by (cases "items q") (simp_all add: Dequeue_def item_ready_def undelayed_def remove_nth_def)

text \<open>
  C17: on items without a delay the in-memory queue refines the bounded
  first-in first-out list: every sequence of calls accepts and delivers the same items in
  the same order, and leaves the same contents.
\<close>

theorem queue_refines_fifo:
  assumes "\<forall>x \<in> set (items q). undelayed x" "\<forall>c \<in> set cs. undelayed_call c"
  shows "(case queue_run Enqueue Dequeue cs q of (ins, outs, q') \<Rightarrow> (ins, outs, items q'))
    = fifo_spec (maxSize q) cs (items q)"
  using assms
proof (induction "maxSize q" cs "items q" arbitrary: q rule: fifo_spec.induct)
  case 1
  then show ?case by simp
next
  case (2 t item cs)
  show ?case
  proof (cases "maxSize q \<le> int (length (items q))")
    case True
    then show ?thesis using "2.hyps"(1) "2.prems" by (simp add: Enqueue_def Let_def split: prod.splits)
  next
    case False
    let ?q = "q\<lparr>items := items q @ [stamp t item]\<rparr>"
    have "\<forall>x \<in> set (items ?q). undelayed x"
      using "2.prems" by (auto simp: undelayed_def)
    then have "(case queue_run Enqueue Dequeue cs ?q of (ins, outs, q') \<Rightarrow> (ins, outs, items q'))
        = fifo_spec (maxSize ?q) cs (items ?q)"
      using False "2.prems" by (intro "2.hyps"(2)) simp_all
    then show ?thesis
      using False by (auto simp: Enqueue_def Let_def split: prod.splits)
  qed
next
  case (3 t cs)
  show ?case
  proof (cases "items q")
    case Nil
    then show ?thesis using "3.hyps"(1) [of q] "3.prems" by (simp add: Dequeue_def)
  next
    case (Cons x xs)
    let ?q = "q\<lparr>items := xs\<rparr>"
    have "(case queue_run Enqueue Dequeue cs ?q of (ins, outs, q') \<Rightarrow> (ins, outs, items q'))
        = fifo_spec (maxSize ?q) cs (items ?q)"
      using Cons "3.prems" by (intro "3.hyps"(2)) simp_all
    then show ?thesis
      using Cons "3.prems"(1) Dequeue_undelayed [of q t] by (auto split: prod.splits)
  qed
qed

theorem queue_refines_fifo_witness:
  "queue_run Enqueue Dequeue [CallDequeue 9, CallEnqueue 9 (item1 ''d'' 0), CallDequeue 9]
     (queue2\<lparr>items := [item1 ''b'' 0]\<rparr>)
   = ([item1 ''d'' 0], [item1 ''b'' 0, item1 ''d'' 0], queue2\<lparr>items := []\<rparr>)"
proof -
  let ?cs = "[CallDequeue 9, CallEnqueue 9 (item1 ''d'' 0), CallDequeue 9]"
  let ?q = "queue2\<lparr>items := [item1 ''b'' 0]\<rparr>"
  have "(case queue_run Enqueue Dequeue ?cs ?q of (ins, outs, q') \<Rightarrow> (ins, outs, items q'))
      = fifo_spec (maxSize ?q) ?cs (items ?q)"
    by (rule queue_refines_fifo) (simp_all add: item1_def undelayed_def IsZero_def)
  then show ?thesis
    by (simp add: queue2_def Dequeue_def Enqueue_def item1_def item_ready_def IsZero_def
        remove_nth_def stamp_def)
qed

text \<open>The events that change the queue, from any goroutine.\<close>

datatype 'b queue_event = EvEnqueue gotime "'b QueueItem option" | EvDequeue gotime | EvCleanup gotime | EvClear

fun apply_queue_event :: "'b queue_event \<Rightarrow> 'b InMemoryFIFO \<Rightarrow> 'b InMemoryFIFO" where
  "apply_queue_event (EvEnqueue t item) q = snd (Enqueue t item q)"
| "apply_queue_event (EvDequeue t) q = (case Dequeue t q of Returns (r, q') \<Rightarrow> q' | _ \<Rightarrow> q)"
| "apply_queue_event (EvCleanup t) q = cleanupExpired t q"
| "apply_queue_event EvClear q = Clear q"

lemma queue_event_bounded [inv_intros]:
  assumes "int (length (items q)) \<le> maxSize q" "0 \<le> maxSize q"
  shows "int (length (items (apply_queue_event e q))) \<le> maxSize (apply_queue_event e q) \<and>
    maxSize (apply_queue_event e q) = maxSize q"
proof (cases e)
  case (EvDequeue t)
  show ?thesis
  proof (cases "find_index (item_ready t) (items q)")
    case (Some i)
    then have "i < length (items q)" by (simp add: find_index_Some)
    with Some assms show ?thesis by (simp add: EvDequeue Dequeue_def)
  qed (use assms in \<open>simp add: EvDequeue Dequeue_def\<close>)
next
  case (EvCleanup t)
  have "int (length (filter (\<lambda>item. time_Sub t (qEnqueueTime item) < itemTTL q) (items q)))
      \<le> int (length (items q))"
    by simp
  from order_trans [OF this assms(1)] show ?thesis
    using assms by (simp add: EvCleanup cleanupExpired_def Let_def)
qed (use assms in \<open>auto simp: Enqueue_def Clear_def Let_def split: option.split\<close>)

text \<open>
  queue_bounded: the number of items never passes the maximal size, whatever calls and
  clean-up ticks run, and \<^verbatim>\<open>Enqueue\<close> fails with \<^verbatim>\<open>ErrQueueFull\<close> exactly when the queue
  holds that many.
\<close>

theorem queue_bounded:
  "let q = fold apply_queue_event es (NewInMemoryQueue config) in
     maxSize q = (if qcMaxSize config \<le> 0 then 1000 else qcMaxSize config) \<and>
     int (length (items q)) \<le> maxSize q \<and>
     (fst (Enqueue t (Some item) q) = Some ErrQueueFull \<longleftrightarrow> int (length (items q)) = maxSize q)"
proof -
  have pos: "0 \<le> maxSize (NewInMemoryQueue config :: 'a InMemoryFIFO)"
    by (simp add: NewInMemoryQueue_def)
  have run: "int (length (items (fold apply_queue_event es q))) \<le> maxSize (fold apply_queue_event es q) \<and>
      maxSize (fold apply_queue_event es q) = maxSize q"
    if "int (length (items q)) \<le> maxSize q" "0 \<le> maxSize q" for q :: "'a InMemoryFIFO"
    using that
  proof (induction es arbitrary: q)
    case (Cons e es)
    have "int (length (items (apply_queue_event e q))) \<le> maxSize (apply_queue_event e q)"
      "maxSize (apply_queue_event e q) = maxSize q"
      using queue_event_bounded [OF Cons.prems, of e] by simp_all
    then show ?case using Cons.IH [of "apply_queue_event e q"] Cons.prems(2) by simp
  qed simp
  have "int (length (items (NewInMemoryQueue config :: 'a InMemoryFIFO))) \<le> maxSize (NewInMemoryQueue config :: 'a InMemoryFIFO)"
    by (simp add: NewInMemoryQueue_def)
  from run [OF this pos] show ?thesis
    by (simp add: Enqueue_def Let_def) (simp add: NewInMemoryQueue_def)
qed

text \<open>
  A clean-up tick keeps, in their order, exactly the items
  whose age at the tick is below the time to live.
\<close>

lemma cleanup_drops_exactly_expired:
  "items (cleanupExpired now q) = filter (\<lambda>item. time_Sub now (qEnqueueTime item) < itemTTL q) (items q)"
proof (cases "filter (\<lambda>item. \<not> time_Sub now (qEnqueueTime item) < itemTTL q) (items q) = []")
  case True
  then have "\<forall>item \<in> set (items q). time_Sub now (qEnqueueTime item) < itemTTL q"
    by (simp add: filter_empty_conv)
  then show ?thesis
    using True by (simp add: cleanupExpired_def Let_def)
qed (simp add: cleanupExpired_def Let_def)

end
