(* ===== verification/Limiter.thy ===== *)
theory Limiter
  imports Prelude
begin

text \<open>
  Package \<^verbatim>\<open>limiter\<close>, file limiter.go: the configuration, the interface \<^verbatim>\<open>Limiter\<close> as a
  locale with the laws its clients rely on, and what follows from the laws for any
  sequence of \<^verbatim>\<open>AllowN\<close> calls.
\<close>

section \<open>Configuration\<close>

datatype LimiterType = InMemoryLimiter | RedisLimiter | OtherLimiterType string

record LimiterRedisOptions =
  lKeyPrefix :: string
  lKeyExpiry :: duration
  lLuaScriptPath :: string

record LimiterConfig =
  lcType :: LimiterType
  lcTokensPerSecond :: rat
  lcBucketSize :: int
  lcRedisOptions :: "LimiterRedisOptions option"

text \<open>The generic constructor is a stub in the code: it fails for every configuration.\<close>

definition limiter_New :: "LimiterConfig \<Rightarrow> go_error + 'limiter" where
  "limiter_New config = Inl (ErrorNew ''not implemented'')"

text \<open>
  The defaulting that both constructors start with: the rate, then the bucket size
  computed from the rate.
\<close>

definition default_rate :: "LimiterConfig \<Rightarrow> rat" where
  "default_rate config = (if lcTokensPerSecond config \<le> 0 then 1 else lcTokensPerSecond config)"

definition default_size :: "LimiterConfig \<Rightarrow> int" where
  "default_size config =
     (if lcBucketSize config \<le> 0 then f64_to_int (f64_mul (default_rate config) 60)
      else lcBucketSize config)"

lemma default_rate_pos: "0 < default_rate config"
  by (simp add: default_rate_def)

lemma default_size_nonneg: "0 \<le> default_size config"
  using default_rate_pos [of config]
  by (simp add: default_size_def f64_to_int_def f64_mul_def f64_rnd_nonneg)

text \<open>
  A configured size is positive, but a size derived from a rate below one token per minute
  is zero.
\<close>

lemma default_size_zero_iff:
  "default_size config = 0 \<longleftrightarrow>
     lcBucketSize config \<le> 0 \<and> f64_mul (default_rate config) 60 < 1"
  using default_rate_pos [of config]
  by (auto simp: default_size_def f64_to_int_def f64_mul_def f64_rnd_nonneg floor_eq_iff)

section \<open>A sequence of AllowN calls\<close>

type_synonym 's allow_op = "string \<Rightarrow> int \<Rightarrow> gotime \<Rightarrow> 's \<Rightarrow> (go_error + bool) \<times> 's"

text \<open>
  The tokens that a sequence of \<^verbatim>\<open>AllowN(key, cost)\<close> calls at given instants is granted,
  and the final state.
\<close>

fun grant_run :: "'s allow_op \<Rightarrow> string \<Rightarrow> (int \<times> gotime) list \<Rightarrow> 's \<Rightarrow> int \<times> 's" where
  "grant_run allow k [] s = (0, s)"
| "grant_run allow k ((c, t) # reqs) s =
     (let (r, s') = allow k c t s; (g, s'') = grant_run allow k reqs s'
      in (if r = Inr True then c + g else g, s''))"

fun instants_from :: "gotime \<Rightarrow> (int \<times> gotime) list \<Rightarrow> bool" where
  "instants_from t0 [] = True"
| "instants_from t0 ((c, t) # reqs) = (0 < c \<and> t0 \<le> t \<and> instants_from t reqs)"

fun last_instant :: "gotime \<Rightarrow> (int \<times> gotime) list \<Rightarrow> gotime" where
  "last_instant t0 [] = t0"
| "last_instant t0 ((c, t) # reqs) = last_instant t reqs"

lemma instants_from_earlier: "t0 \<le> t1 \<Longrightarrow> instants_from t1 reqs \<Longrightarrow> instants_from t0 reqs"
  by (cases reqs) auto

lemma last_instant_mono: "t0 \<le> t1 \<Longrightarrow> last_instant t0 reqs \<le> last_instant t1 reqs"
  by (cases reqs) auto

text \<open>What a refill over a number of nanoseconds can add, rounding included.\<close>

definition refill_bound :: "rat \<Rightarrow> int \<Rightarrow> rat" where
  "refill_bound rate d = of_int d / 10 ^ 9 * rate * ulp_factor ^ 3"

lemma refill_bound_add: "refill_bound r a + refill_bound r b = refill_bound r (a + b)"
  by (simp add: refill_bound_def add_divide_distrib distrib_right)

lemma refill_bound_0 [simp]: "refill_bound r 0 = 0"
  by (simp add: refill_bound_def)

lemma refill_bound_mono: "0 \<le> r \<Longrightarrow> d \<le> e \<Longrightarrow> refill_bound r d \<le> refill_bound r e"
  unfolding refill_bound_def ulp_factor_def
  by (intro mult_right_mono divide_right_mono) simp_all

section \<open>Float64 levels\<close>

text \<open>
  The level of a bucket of an integral size below \<^verbatim>\<open>2^53\<close>: what a refill and a consumption
  do to it, rounding included.
\<close>

definition level_ok :: "int \<Rightarrow> rat \<Rightarrow> bool" where
  "level_ok cap l \<longleftrightarrow> 0 \<le> l \<and> l \<le> of_int cap \<and> is_f64 l"

lemma level_ok_refill:
  assumes "level_ok cap l" "0 \<le> cap" "cap < 2 ^ 53" "0 \<le> a"
  shows "level_ok cap (min (f64_of_int cap) (f64_add l a))"
  using assms by (auto simp: level_ok_def f64_add_def f64_rnd_nonneg min_def is_f64_rnd is_f64_of_int)

lemma level_ok_consume:
  assumes "level_ok cap l" "f64_of_int c \<le> l" "0 < c"
  shows "level_ok cap (f64_sub l (f64_of_int c))"
proof -
  have "0 \<le> f64_of_int c" using assms(3) by (simp add: f64_of_int_nonneg)
  moreover from this have "f64_sub l (f64_of_int c) \<le> l"
    using assms(1) unfolding f64_sub_def by (intro f64_rnd_le_iff_bound) (simp_all add: level_ok_def)
  ultimately show ?thesis
    using assms by (auto simp: level_ok_def f64_sub_def f64_rnd_nonneg is_f64_rnd)
qed

lemma cost_exact:
  assumes "f64_of_int c \<le> of_int b" "0 < c" "b < 2 ^ 53"
  shows "c \<le> b" "f64_of_int c = of_int c"
proof -
  show c: "c \<le> b"
  proof (rule ccontr)
    assume "\<not> c \<le> b"
    then have "f64_of_int (b + 1) \<le> f64_of_int c" by (intro f64_of_int_mono) simp
    moreover have "0 \<le> f64_of_int c" using assms(2) by (simp add: f64_of_int_nonneg)
    then have "0 \<le> b" using assms(1) by linarith
    then have "f64_of_int (b + 1) = of_int (b + 1)" using assms(3) by (intro f64_of_int_exact) simp
    ultimately show False using assms(1) by simp
  qed
  then show "f64_of_int c = of_int c"
    using assms by (intro f64_of_int_exact) simp
qed

lemma level_refill_bound:
  assumes "0 \<le> l" "0 \<le> a" "a \<le> r" "0 \<le> cap" "cap < 2 ^ 53"
  shows "min (f64_of_int cap) (f64_add l a) \<le> l + r + of_int cap / 2 ^ 53"
proof -
  let ?b = "of_int cap :: rat" and ?x = "l + a"
  have "min ?b (f64_rnd ?x) \<le> ?x + ?b / 2 ^ 53"
  proof (cases "?b \<le> ?x")
    case True
    moreover have "0 \<le> ?b / 2 ^ 53" using assms(4) by simp
    ultimately show ?thesis by linarith
  next
    case False
    then have "?x / 2 ^ 53 \<le> ?b / 2 ^ 53" by (intro divide_right_mono) simp_all
    moreover have "f64_rnd ?x \<le> ?x + ?x / 2 ^ 53"
      using assms(1,2) by (intro f64_rnd_upper_add) simp
    ultimately show ?thesis by linarith
  qed
  then show ?thesis
    using assms by (simp add: f64_add_def)
qed

lemma level_consume_bound:
  assumes "level_ok cap l" "f64_of_int c \<le> l" "0 < c" "cap < 2 ^ 53"
  shows "f64_sub l (f64_of_int c) + of_int c \<le> l + of_int cap / 2 ^ 53"
proof -
  let ?y = "l - of_int c"
  have eq: "f64_of_int c = of_int c"
    using assms by (intro cost_exact(2) [of c cap]) (auto simp: level_ok_def)
  then have y: "0 \<le> ?y" using assms(2) by simp
  have "f64_rnd ?y \<le> ?y + ?y / 2 ^ 53"
    by (rule f64_rnd_upper_add [OF y])
  moreover have "?y / 2 ^ 53 \<le> of_int cap / 2 ^ 53"
    using assms by (intro divide_right_mono) (auto simp: level_ok_def)
  ultimately show ?thesis
    unfolding f64_sub_def eq by linarith
qed

section \<open>The interface\<close>

text \<open>
  A limiter keeps a level and the instant of its last refill for every key.  The clock may
  stay behind the call, as when a call fails before it reaches the state; the instants at
  which the arithmetic is exact are the admissible ones.
\<close>

locale token_limiter =
  fixes allowN :: "'s allow_op"
    and level :: "string \<Rightarrow> 's \<Rightarrow> rat"
    and clock :: "string \<Rightarrow> 's \<Rightarrow> gotime"
    and capacity :: "'s \<Rightarrow> rat"
    and rate :: "'s \<Rightarrow> rat"
    and invar :: "'s \<Rightarrow> bool"
    and admissible :: "gotime \<Rightarrow> bool"
  assumes bad_cost: "c \<le> 0 \<Longrightarrow> allowN k c t s = (Inl ErrInvalidTokenCost, s)"
    and level_range: "invar s \<Longrightarrow> 0 \<le> level k s \<and> level k s \<le> capacity s"
    and rate_nonneg: "invar s \<Longrightarrow> 0 \<le> rate s"
    and keeps_invar:
      "invar s \<Longrightarrow> clock k s \<le> t \<Longrightarrow> admissible t \<Longrightarrow> invar (snd (allowN k c t s))"
    and keeps_config:
      "capacity (snd (allowN k c t s)) = capacity s" "rate (snd (allowN k c t s)) = rate s"
    and clock_moves:
      "invar s \<Longrightarrow> clock k s \<le> t \<Longrightarrow> admissible t \<Longrightarrow>
       clock k s \<le> clock k (snd (allowN k c t s)) \<and> clock k (snd (allowN k c t s)) \<le> t"
    and grant_fits:
      "invar s \<Longrightarrow> fst (allowN k c t s) = Inr True \<Longrightarrow> of_int c \<le> capacity s"
    and accounting:
      "invar s \<Longrightarrow> clock k s \<le> t \<Longrightarrow> admissible t \<Longrightarrow> 0 < c \<Longrightarrow>
       level k (snd (allowN k c t s)) + (if fst (allowN k c t s) = Inr True then of_int c else 0)
       \<le> level k s + refill_bound (rate s) (clock k (snd (allowN k c t s)) - clock k s)
         + 2 * capacity s / 2 ^ 53"
begin

definition admitted :: "(int \<times> gotime) list \<Rightarrow> bool" where
  "admitted reqs \<longleftrightarrow> (\<forall>(c, t) \<in> set reqs. admissible t)"

lemma run_config:
  "capacity (snd (grant_run allowN k reqs s)) = capacity s"
  "rate (snd (grant_run allowN k reqs s)) = rate s"
  by (induction reqs arbitrary: s) (auto simp: keeps_config case_prod_beta' Let_def)

text \<open>What one call leaves for the rest of a run.\<close>

lemma run_step:
  assumes "invar s" "instants_from (clock k s) ((c, t) # reqs)" "admitted ((c, t) # reqs)"
  shows "0 < c" "clock k s \<le> t" "admissible t" "admitted reqs" "invar (snd (allowN k c t s))"
    "instants_from (clock k (snd (allowN k c t s))) reqs"
    "clock k s \<le> clock k (snd (allowN k c t s))" "clock k (snd (allowN k c t s)) \<le> t"
proof -
  show ct: "0 < c" "clock k s \<le> t" "admissible t" "admitted reqs"
    using assms(2,3) by (auto simp: admitted_def)
  show "invar (snd (allowN k c t s))"
    by (rule keeps_invar [OF assms(1) ct(2,3)])
  show le: "clock k s \<le> clock k (snd (allowN k c t s))" "clock k (snd (allowN k c t s)) \<le> t"
    using clock_moves [OF assms(1) ct(2,3)] by blast+
  show "instants_from (clock k (snd (allowN k c t s))) reqs"
    using assms(2) instants_from_earlier [OF le(2)] by simp
qed

lemma run_invar:
  assumes "invar s" "instants_from (clock k s) reqs" "admitted reqs"
  shows "invar (snd (grant_run allowN k reqs s)) \<and>
    clock k s \<le> clock k (snd (grant_run allowN k reqs s)) \<and>
    clock k (snd (grant_run allowN k reqs s)) \<le> last_instant (clock k s) reqs"
  using assms
proof (induction reqs arbitrary: s)
  case (Cons r reqs)
  obtain c t where r: "r = (c, t)" by (cases r)
  note st = run_step [OF Cons.prems [unfolded r]]
  have "invar (snd (grant_run allowN k reqs (snd (allowN k c t s)))) \<and>
      clock k (snd (allowN k c t s)) \<le> clock k (snd (grant_run allowN k reqs (snd (allowN k c t s)))) \<and>
      clock k (snd (grant_run allowN k reqs (snd (allowN k c t s))))
        \<le> last_instant (clock k (snd (allowN k c t s))) reqs"
    by (rule Cons.IH [OF st(5,6,4)])
  moreover have "last_instant (clock k (snd (allowN k c t s))) reqs \<le> last_instant t reqs"
    by (rule last_instant_mono [OF st(8)])
  ultimately show ?case
    using st(7) by (auto simp: r case_prod_beta' Let_def)
qed simp

text \<open>
  The rate limit: what a run is granted and what is left at its end come from what was
  there at its start, the rate, and the rounding of two operations per call.
\<close>

lemma run_accounting:
  assumes "invar s" "instants_from (clock k s) reqs" "admitted reqs"
  shows "level k (snd (grant_run allowN k reqs s)) + of_int (fst (grant_run allowN k reqs s))
    \<le> level k s + refill_bound (rate s) (clock k (snd (grant_run allowN k reqs s)) - clock k s)
      + of_nat (length reqs) * (2 * capacity s / 2 ^ 53)"
  using assms
proof (induction reqs arbitrary: s)
  case Nil
  then show ?case by simp
next
  case (Cons r reqs)
  obtain c t where r: "r = (c, t)" by (cases r)
  note st = run_step [OF Cons.prems [unfolded r]]
  let ?a = "allowN k c t s"
  let ?s = "snd ?a" and ?e = "2 * capacity s / 2 ^ 53"
  let ?u = "clock k (snd (grant_run allowN k reqs ?s))"
  have IH: "level k (snd (grant_run allowN k reqs ?s)) + of_int (fst (grant_run allowN k reqs ?s))
    \<le> level k ?s + refill_bound (rate s) (?u - clock k ?s) + of_nat (length reqs) * ?e"
    using Cons.IH [OF st(5,6,4)] by (simp add: keeps_config)
  have step: "level k ?s + (if fst ?a = Inr True then of_int c else 0)
    \<le> level k s + refill_bound (rate s) (clock k ?s - clock k s) + ?e"
    by (rule accounting [OF Cons.prems(1) st(2,3,1)])
  have split: "refill_bound (rate s) (clock k ?s - clock k s) + refill_bound (rate s) (?u - clock k ?s)
    = refill_bound (rate s) (?u - clock k s)"
    by (simp add: refill_bound_add)
  have n: "of_nat (length (r # reqs)) * ?e = of_nat (length reqs) * ?e + ?e"
    by (simp add: distrib_right del: times_divide_eq_right)
  have run: "fst (grant_run allowN k (r # reqs) s)
      = (if fst ?a = Inr True then c else 0) + fst (grant_run allowN k reqs ?s)"
    "snd (grant_run allowN k (r # reqs) s) = snd (grant_run allowN k reqs ?s)"
    by (simp_all add: r case_prod_beta' Let_def)
  show ?case
    unfolding run n split [symmetric]
    using IH step by (simp only: of_int_add split: if_split) auto
qed

lemma run_bound:
  assumes "invar s" "instants_from (clock k s) reqs" "admitted reqs"
  shows "of_int (fst (grant_run allowN k reqs s))
    \<le> capacity s + refill_bound (rate s) (last_instant (clock k s) reqs - clock k s)
      + of_nat (length reqs) * (2 * capacity s / 2 ^ 53)"
proof -
  note fin = run_invar [OF assms]
  have "refill_bound (rate s) (clock k (snd (grant_run allowN k reqs s)) - clock k s)
      \<le> refill_bound (rate s) (last_instant (clock k s) reqs - clock k s)"
    using fin by (intro refill_bound_mono rate_nonneg assms(1)) simp
  then show ?thesis
    using run_accounting [OF assms] level_range [OF assms(1), of k]
      level_range [of "snd (grant_run allowN k reqs s)" k] fin by linarith
qed

text \<open>A request that costs more than the capacity is refused for ever.\<close>

lemma oversize_refused:
  assumes "invar s" "instants_from (clock k s) reqs" "admitted reqs"
    and "\<forall>(c, t) \<in> set reqs. capacity s < of_int c"
  shows "fst (grant_run allowN k reqs s) = 0"
  using assms
proof (induction reqs arbitrary: s)
  case (Cons r reqs)
  obtain c t where r: "r = (c, t)" by (cases r)
  note st = run_step [OF Cons.prems(1,2,3) [unfolded r]]
  have "fst (allowN k c t s) \<noteq> Inr True"
    using grant_fits [OF Cons.prems(1)] Cons.prems(4) by (fastforce simp: r)
  moreover have "fst (grant_run allowN k reqs (snd (allowN k c t s))) = 0"
    using Cons.prems(4) by (intro Cons.IH [OF st(5,6,4)]) (simp add: keeps_config)
  ultimately show ?case
    by (simp add: r case_prod_beta' Let_def)
qed simp

end

end
