(* ===== verification/Token_Bucket.thy ===== *)
theory Token_Bucket
  imports Limiter
begin

text \<open>
  Package \<^verbatim>\<open>limiter\<close>, file token_bucket.go: the in-memory token bucket, its reservations
  and the goroutine that \<^verbatim>\<open>ReserveN\<close> starts.  Every operation that holds the mutex \<^verbatim>\<open>mu\<close>
  is one function on the state; a reading of the clock is an argument.  The channels that
  the limiter makes are numbers, with the next number and the list of the closed ones in
  the state.
\<close>

section \<open>State\<close>

record TokenBucket =
  tokensPerSecond :: rat
  bucketSize :: int
  availableTokens :: rat
  lastRefillTime :: gotime
  waiters :: "string \<Rightarrow> nat option"
  waitersByID :: "string \<Rightarrow> string option"
  chanNext :: nat
  chanClosed :: "nat list"

record tokenBucketReservation =
  rTokens :: int
  rTimeToProcess :: gotime
  rReservationID :: string
  rOk :: bool

text \<open>What the goroutine of \<^verbatim>\<open>ReserveN\<close> captures.\<close>

record reserveTask =
  gWaitTime :: duration
  gTokenCost :: int
  gWaiterKey :: string
  gReservationID :: string

definition NewTokenBucket :: "LimiterConfig \<Rightarrow> gotime \<Rightarrow> TokenBucket" where
  "NewTokenBucket config now =
     \<lparr>tokensPerSecond = default_rate config,
      bucketSize = default_size config,
      availableTokens = f64_of_int (default_size config),
      lastRefillTime = now,
      waiters = Map.empty,
      waitersByID = Map.empty,
      chanNext = 0,
      chanClosed = []\<rparr>"

section \<open>Operations\<close>

definition refill :: "gotime \<Rightarrow> TokenBucket \<Rightarrow> TokenBucket" where
  "refill now tb =
     (let elapsed = Seconds (time_Sub now (lastRefillTime tb));
          tokensToAdd = f64_mul elapsed (tokensPerSecond tb)
      in tb\<lparr>lastRefillTime := now,
            availableTokens :=
              min (f64_of_int (bucketSize tb)) (f64_add (availableTokens tb) tokensToAdd)\<rparr>)"

definition AllowN :: "string \<Rightarrow> int \<Rightarrow> gotime \<Rightarrow> TokenBucket \<Rightarrow> (go_error + bool) \<times> TokenBucket" where
  "AllowN key tokenCost now tb =
     (if tokenCost \<le> 0 then (Inl ErrInvalidTokenCost, tb)
      else
        let tb = refill now tb in
        if f64_of_int tokenCost \<le> availableTokens tb
        then (Inr True, tb\<lparr>availableTokens := f64_sub (availableTokens tb) (f64_of_int tokenCost)\<rparr>)
        else (Inr False, tb))"

definition Allow :: "int \<Rightarrow> gotime \<Rightarrow> TokenBucket \<Rightarrow> (go_error + bool) \<times> TokenBucket" where
  "Allow tokenCost now tb = AllowN ''default'' tokenCost now tb"

text \<open>
  \<^verbatim>\<open>ReserveN\<close> reads the clock in \<^verbatim>\<open>refill\<close> and again for the time to process; its
  reservation id comes from \<^verbatim>\<open>utils.GenerateShortID\<close>.  The second component of a
  successful result is the goroutine that it starts, if any.
\<close>

definition ReserveN ::
  "string \<Rightarrow> int \<Rightarrow> gotime \<Rightarrow> gotime \<Rightarrow> string \<Rightarrow> TokenBucket \<Rightarrow>
   (go_error + tokenBucketReservation \<times> reserveTask option) \<times> TokenBucket" where
  "ReserveN key tokenCost now now' newID tb =
     (if tokenCost \<le> 0 then (Inl ErrInvalidTokenCost, tb)
      else
        let tb = refill now tb;
            tokensNeeded = f64_sub (f64_of_int tokenCost) (availableTokens tb)
        in
        if tokensNeeded \<le> 0
        then (Inr (\<lparr>rTokens = tokenCost, rTimeToProcess = now', rReservationID = newID, rOk = True\<rparr>, None),
              tb\<lparr>availableTokens := f64_sub (availableTokens tb) (f64_of_int tokenCost)\<rparr>)
        else
          let waitTime =
                f64_to_int (f64_mul (f64_div tokensNeeded (tokensPerSecond tb)) (f64_of_int second));
              timeToProcess = now' + waitTime;
              waiterKey = key @ '':'' @ newID;
              waitCh = chanNext tb
          in (Inr (\<lparr>rTokens = tokenCost, rTimeToProcess = timeToProcess,
                    rReservationID = newID, rOk = True\<rparr>,
                   Some \<lparr>gWaitTime = waitTime, gTokenCost = tokenCost,
                         gWaiterKey = waiterKey, gReservationID = newID\<rparr>),
              tb\<lparr>waiters := (waiters tb)(waiterKey \<mapsto> waitCh),
                 waitersByID := (waitersByID tb)(newID \<mapsto> waiterKey),
                 chanNext := Suc waitCh\<rparr>))"

definition Reserve ::
  "int \<Rightarrow> gotime \<Rightarrow> gotime \<Rightarrow> string \<Rightarrow> TokenBucket \<Rightarrow>
   (go_error + tokenBucketReservation \<times> reserveTask option) \<times> TokenBucket" where
  "Reserve tokenCost now now' newID tb = ReserveN ''default'' tokenCost now now' newID tb"

text \<open>The goroutine after its sleep: the section under \<^verbatim>\<open>mu\<close>, then the one under \<^verbatim>\<open>waitersMu\<close>.\<close>

definition close_chan :: "nat \<Rightarrow> TokenBucket \<Rightarrow> TokenBucket outcome" where
  "close_chan ch tb =
     (if ch \<in> set (chanClosed tb) then Panics else Returns (tb\<lparr>chanClosed := ch # chanClosed tb\<rparr>))"

definition wake_consume :: "reserveTask \<Rightarrow> TokenBucket \<Rightarrow> bool \<times> TokenBucket" where
  "wake_consume g tb =
     (if f64_of_int (gTokenCost g) \<le> availableTokens tb
      then (True, tb\<lparr>availableTokens := f64_sub (availableTokens tb) (f64_of_int (gTokenCost g))\<rparr>)
      else (False, tb))"

definition wake_notify :: "reserveTask \<Rightarrow> TokenBucket \<Rightarrow> TokenBucket outcome" where
  "wake_notify g tb =
     (case waiters tb (gWaiterKey g) of
        Some ch \<Rightarrow>
          bind_outcome (close_chan ch tb) (\<lambda>tb.
            Returns (tb\<lparr>waiters := (waiters tb)(gWaiterKey g := None),
                        waitersByID := (waitersByID tb)(gReservationID g := None)\<rparr>))
      | None \<Rightarrow> Returns tb)"

definition GetTokensAvailableN :: "string \<Rightarrow> gotime \<Rightarrow> TokenBucket \<Rightarrow> int \<times> TokenBucket" where
  "GetTokensAvailableN key now tb =
     (let tb = refill now tb in (f64_to_int (availableTokens tb), tb))"

definition GetTokensAvailable :: "gotime \<Rightarrow> TokenBucket \<Rightarrow> int \<times> TokenBucket" where
  "GetTokensAvailable now tb = GetTokensAvailableN ''default'' now tb"

section \<open>Reservations\<close>

definition DelayFrom :: "gotime \<Rightarrow> tokenBucketReservation \<Rightarrow> duration" where
  "DelayFrom now r =
     (if \<not> rOk r then 0
      else let delay = time_Sub (rTimeToProcess r) now in if delay < 0 then 0 else delay)"

definition CancelAt ::
  "gotime \<Rightarrow> tokenBucketReservation \<Rightarrow> TokenBucket \<Rightarrow> tokenBucketReservation \<times> TokenBucket" where
  "CancelAt now r tb =
     (if \<not> rOk r then (r, tb)
      else if now < rTimeToProcess r then
        (case waitersByID tb (rReservationID r) of
           None \<Rightarrow> (r, tb)
         | Some waiterKey \<Rightarrow>
             (r\<lparr>rOk := False\<rparr>,
              tb\<lparr>waiters := (waiters tb)(waiterKey := None),
                 waitersByID := (waitersByID tb)(rReservationID r := None)\<rparr>))
      else (r, tb))"

text \<open>
  \<^verbatim>\<open>Wait\<close> up to its \<^verbatim>\<open>select\<close>: it returns at once, or it selects on the context and the
  reservation's channel.
\<close>

datatype wait_status = WaitReturns "go_error option" | WaitSelects nat

definition Reservation_Wait :: "gotime \<Rightarrow> tokenBucketReservation \<Rightarrow> TokenBucket \<Rightarrow> wait_status" where
  "Reservation_Wait now r tb =
     (if \<not> rOk r then WaitReturns (Some ErrRateLimited)
      else if rTimeToProcess r < now then WaitReturns None
      else
        case waitersByID tb (rReservationID r) of
          None \<Rightarrow> WaitReturns (Some ErrRateLimited)
        | Some waiterKey \<Rightarrow>
            (case waiters tb waiterKey of
               None \<Rightarrow> WaitReturns (Some ErrRateLimited)
             | Some waitCh \<Rightarrow> WaitSelects waitCh))"

datatype wait_case = CtxDone go_error gotime | WaitChClosed

definition Reservation_select ::
  "wait_case \<Rightarrow> nat \<Rightarrow> tokenBucketReservation \<Rightarrow> TokenBucket \<Rightarrow>
   (go_error option \<times> tokenBucketReservation \<times> TokenBucket) outcome" where
  "Reservation_select c waitCh r tb =
     (case c of
        CtxDone err now \<Rightarrow> (let (r', tb') = CancelAt now r tb in Returns (Some err, r', tb'))
      | WaitChClosed \<Rightarrow> (if waitCh \<in> set (chanClosed tb) then Returns (None, r, tb) else Blocks))"

text \<open>
  \<^verbatim>\<open>WaitN\<close> up to the \<^verbatim>\<open>select\<close> of the reservation it makes: the four arguments of type
  \<^verbatim>\<open>gotime\<close> are its readings of the clock, in order.
\<close>

definition WaitN ::
  "string \<Rightarrow> int \<Rightarrow> gotime \<Rightarrow> gotime \<Rightarrow> gotime \<Rightarrow> gotime \<Rightarrow> string \<Rightarrow> TokenBucket \<Rightarrow>
   wait_status \<times> (tokenBucketReservation \<times> reserveTask option) option \<times> TokenBucket" where
  "WaitN key tokenCost t1 t2 t3 t4 newID tb =
     (if tokenCost \<le> 0 then (WaitReturns (Some ErrInvalidTokenCost), None, tb)
      else
        case AllowN key tokenCost t1 tb of
          (Inr True, tb1) \<Rightarrow> (WaitReturns None, None, tb1)
        | (_, tb1) \<Rightarrow>
            (case ReserveN key tokenCost t2 t3 newID tb1 of
               (Inl err, tb2) \<Rightarrow> (WaitReturns (Some err), None, tb2)
             | (Inr (reservation, task), tb2) \<Rightarrow>
                 (Reservation_Wait t4 reservation tb2, Some (reservation, task), tb2)))"

definition TokenBucket_Wait ::
  "int \<Rightarrow> gotime \<Rightarrow> gotime \<Rightarrow> gotime \<Rightarrow> gotime \<Rightarrow> string \<Rightarrow> TokenBucket \<Rightarrow>
   wait_status \<times> (tokenBucketReservation \<times> reserveTask option) option \<times> TokenBucket" where
  "TokenBucket_Wait tokenCost = WaitN ''default'' tokenCost"

section \<open>The bucket stays within its size\<close>

definition tb_ok :: "TokenBucket \<Rightarrow> bool" where
  "tb_ok tb \<longleftrightarrow>
     0 < tokensPerSecond tb \<and> 0 \<le> bucketSize tb \<and> bucketSize tb < 2 ^ 53 \<and>
     0 \<le> availableTokens tb \<and> availableTokens tb \<le> of_int (bucketSize tb) \<and>
     is_f64 (availableTokens tb)"

lemma refill_frame [simp]:
  "tokensPerSecond (refill now tb) = tokensPerSecond tb" "bucketSize (refill now tb) = bucketSize tb"
  "lastRefillTime (refill now tb) = now"
  "waiters (refill now tb) = waiters tb" "waitersByID (refill now tb) = waitersByID tb"
  "chanNext (refill now tb) = chanNext tb" "chanClosed (refill now tb) = chanClosed tb"
  by (simp_all add: refill_def Let_def)

lemma size_f64: "tb_ok tb \<Longrightarrow> f64_of_int (bucketSize tb) = of_int (bucketSize tb)"
  by (simp add: tb_ok_def)

lemma tokensToAdd_nonneg:
  "tb_ok tb \<Longrightarrow> lastRefillTime tb \<le> now \<Longrightarrow>
   0 \<le> f64_mul (Seconds (time_Sub now (lastRefillTime tb))) (tokensPerSecond tb)"
  by (simp add: tb_ok_def f64_mul_def f64_rnd_nonneg Seconds_nonneg time_Sub_mono_range)

lemma tb_ok_level:
  "tb_ok tb \<longleftrightarrow>
     0 < tokensPerSecond tb \<and> 0 \<le> bucketSize tb \<and> bucketSize tb < 2 ^ 53 \<and>
     level_ok (bucketSize tb) (availableTokens tb)"
  by (simp add: tb_ok_def level_ok_def)

lemma refill_ok [inv_intros]:
  assumes "tb_ok tb" "lastRefillTime tb \<le> now"
  shows "tb_ok (refill now tb)"
  using assms level_ok_refill [OF _ _ _ tokensToAdd_nonneg [OF assms]]
  by (simp add: tb_ok_level refill_def Let_def)

lemma refill_upper: "tb_ok tb \<Longrightarrow> availableTokens (refill now tb) \<le> of_int (bucketSize tb)"
  using size_f64 [of tb] by (simp add: refill_def Let_def min_def)

lemma consume_ok:
  assumes "tb_ok tb" "f64_of_int c \<le> availableTokens tb" "0 < c"
  shows "tb_ok (tb\<lparr>availableTokens := f64_sub (availableTokens tb) (f64_of_int c)\<rparr>)"
  using assms level_ok_consume [OF _ assms(2,3)] by (simp add: tb_ok_level)

lemma AllowN_ok [inv_intros]:
  "tb_ok tb \<Longrightarrow> lastRefillTime tb \<le> now \<Longrightarrow> tb_ok (snd (AllowN key c now tb))"
  by (simp add: AllowN_def Let_def refill_ok consume_ok)

section \<open>Accounting of one operation\<close>

text \<open>
  A refill adds at most the rate times the elapsed time, up to rounding: three roundings of
  the amount added, and one of the sum, whose error is below the size over \<^verbatim>\<open>2^53\<close>.
\<close>

lemma tokensToAdd_upper:
  assumes "tb_ok tb" "lastRefillTime tb \<le> now"
  shows "f64_mul (Seconds (time_Sub now (lastRefillTime tb))) (tokensPerSecond tb)
    \<le> refill_bound (tokensPerSecond tb) (now - lastRefillTime tb)"
proof -
  let ?d = "time_Sub now (lastRefillTime tb)" and ?r = "tokensPerSecond tb"
  have d: "0 \<le> ?d" "?d \<le> now - lastRefillTime tb" "?d \<le> int64_max"
    using time_Sub_mono_range(1,2) [OF assms(2)] time_Sub_mono_range(3) by auto
  have r: "0 < ?r" using assms(1) by (simp add: tb_ok_def)
  have u: "0 \<le> ulp_factor" using ulp_factor_ge_1 by linarith
  have "(of_int ?d :: rat) \<le> of_int (now - lastRefillTime tb)"
    using d(2) by (simp only: of_int_le_iff)
  then have "of_int ?d / 10 ^ 9 * ulp_factor ^ 2
      \<le> of_int (now - lastRefillTime tb) / 10 ^ 9 * ulp_factor ^ 2"
    using u by (intro mult_right_mono divide_right_mono) simp_all
  then have s: "Seconds ?d \<le> of_int (now - lastRefillTime tb) / 10 ^ 9 * ulp_factor ^ 2"
    using Seconds_upper [OF d(1,3)] by linarith
  have "f64_mul (Seconds ?d) ?r \<le> Seconds ?d * ?r * ulp_factor"
    unfolding f64_mul_def ulp_factor_def using r Seconds_nonneg [OF d(1)] by (intro f64_rnd_upper) simp
  also have "\<dots> \<le> (of_int (now - lastRefillTime tb) / 10 ^ 9 * ulp_factor ^ 2) * ?r * ulp_factor"
    using s r u by (intro mult_right_mono) simp_all
  also have "\<dots> = refill_bound ?r (now - lastRefillTime tb)"
    by (simp add: refill_bound_def power_numeral_reduce)
  finally show ?thesis .
qed

lemma refill_accounting:
  assumes "tb_ok tb" "lastRefillTime tb \<le> now"
  shows "availableTokens (refill now tb)
    \<le> availableTokens tb + refill_bound (tokensPerSecond tb) (now - lastRefillTime tb)
      + of_int (bucketSize tb) / 2 ^ 53"
  using assms level_refill_bound [OF _ tokensToAdd_nonneg [OF assms] tokensToAdd_upper [OF assms]]
  by (simp add: tb_ok_def refill_def Let_def)

lemma consume_accounting:
  assumes "tb_ok tb" "f64_of_int c \<le> availableTokens tb" "0 < c"
  shows "f64_sub (availableTokens tb) (f64_of_int c) + of_int c
    \<le> availableTokens tb + of_int (bucketSize tb) / 2 ^ 53"
  using assms level_consume_bound [OF _ assms(2,3)] by (simp add: tb_ok_level)

lemma AllowN_accounting:
  assumes "tb_ok tb" "lastRefillTime tb \<le> t" "0 < c"
  shows "availableTokens (snd (AllowN k c t tb)) + (if fst (AllowN k c t tb) = Inr True then of_int c else 0)
    \<le> availableTokens tb + refill_bound (tokensPerSecond tb) (t - lastRefillTime tb)
      + 2 * of_int (bucketSize tb) / 2 ^ 53"
proof -
  let ?e = "of_int (bucketSize tb) / 2 ^ 53 :: rat"
  note r = refill_accounting [OF assms(1,2)] and ok = refill_ok [OF assms(1,2)]
  have e0: "0 \<le> ?e" using assms(1) by (simp add: tb_ok_def)
  have split: "2 * of_int (bucketSize tb) / 2 ^ 53 = ?e + ?e" by simp
  show ?thesis
  proof (cases "f64_of_int c \<le> availableTokens (refill t tb)")
    case True
    then show ?thesis
      using consume_accounting [OF ok True assms(3)] r assms(3)
      unfolding split by (simp add: AllowN_def Let_def del: times_divide_eq_left)
  next
    case False
    then show ?thesis
      using r e0 assms(3) unfolding split by (simp add: AllowN_def Let_def)
  qed
qed

interpretation tb: token_limiter AllowN "\<lambda>k. availableTokens" "\<lambda>k. lastRefillTime"
    "\<lambda>tb. of_int (bucketSize tb)" tokensPerSecond tb_ok "\<lambda>t. True"
proof unfold_locales
  fix k c t s
  show "c \<le> 0 \<Longrightarrow> AllowN k c t s = (Inl ErrInvalidTokenCost, s)"
    by (simp add: AllowN_def)
  show "tb_ok s \<Longrightarrow> lastRefillTime s \<le> t \<Longrightarrow> tb_ok (snd (AllowN k c t s))"
    by (rule AllowN_ok)
  show "of_int (bucketSize (snd (AllowN k c t s))) = of_int (bucketSize s)"
    "tokensPerSecond (snd (AllowN k c t s)) = tokensPerSecond s"
    by (simp_all add: AllowN_def Let_def)
  show "lastRefillTime s \<le> t \<Longrightarrow>
      lastRefillTime s \<le> lastRefillTime (snd (AllowN k c t s)) \<and> lastRefillTime (snd (AllowN k c t s)) \<le> t"
    by (simp add: AllowN_def Let_def)
  show "tb_ok s \<Longrightarrow> 0 \<le> tokensPerSecond s"
    by (simp add: tb_ok_def)
  show "of_int c \<le> (of_int (bucketSize s) :: rat)" if "tb_ok s" "fst (AllowN k c t s) = Inr True"
  proof -
    from that(2) have "0 < c" "f64_of_int c \<le> availableTokens (refill t s)"
      by (auto simp: AllowN_def Let_def split: if_splits)
    then have "c \<le> bucketSize s"
      using refill_upper [OF that(1)] that(1)
      by (intro cost_exact(1)) (auto simp: tb_ok_def intro: order_trans)
    then show ?thesis by simp
  qed
  show "0 \<le> availableTokens s \<and> availableTokens s \<le> of_int (bucketSize s)" if "tb_ok s"
    using that by (simp add: tb_ok_def)
  show "availableTokens (snd (AllowN k c t s)) + (if fst (AllowN k c t s) = Inr True then of_int c else 0)
      \<le> availableTokens s
        + refill_bound (tokensPerSecond s) (lastRefillTime (snd (AllowN k c t s)) - lastRefillTime s)
        + 2 * of_int (bucketSize s) / 2 ^ 53" if "tb_ok s" "lastRefillTime s \<le> t" "0 < c"
  proof -
    have "lastRefillTime (snd (AllowN k c t s)) = t"
      using that(3) by (simp add: AllowN_def Let_def)
    then show ?thesis using AllowN_accounting [OF that, of k] by simp
  qed
qed

lemma tb_admitted [simp]: "tb.admitted reqs"
  by (simp add: tb.admitted_def)

section \<open>The rate limit\<close>

text \<open>
  AllowN_rate_limit: for every sequence of calls of \<^verbatim>\<open>AllowN\<close> with positive costs at
  non-decreasing instants, the tokens granted are at most the bucket size, plus the rate
  times the elapsed time (with the three float64 roundings of a refill), plus one rounding
  unit of the size per float64 update of the level, two updates per call.
\<close>

theorem AllowN_rate_limit:
  assumes "tb_ok tb" "instants_from (lastRefillTime tb) reqs"
  shows "of_int (fst (grant_run AllowN k reqs tb))
    \<le> of_int (bucketSize tb)
      + refill_bound (tokensPerSecond tb) (last_instant (lastRefillTime tb) reqs - lastRefillTime tb)
      + of_nat (length reqs) * (2 * of_int (bucketSize tb) / 2 ^ 53)"
  by (rule tb.run_bound [OF assms tb_admitted])

definition example_bucket :: TokenBucket where
  "example_bucket =
     NewTokenBucket \<lparr>lcType = InMemoryLimiter, lcTokensPerSecond = 2, lcBucketSize = 5,
       lcRedisOptions = None\<rparr> 0"

lemma example_bucket_ok: "tb_ok example_bucket"
  by (simp add: example_bucket_def NewTokenBucket_def default_rate_def default_size_def tb_ok_def
      is_f64_numeral)

lemma example_bucket_simps [simp]:
  "tokensPerSecond example_bucket = 2" "bucketSize example_bucket = 5"
  "lastRefillTime example_bucket = 0" "availableTokens example_bucket = 5"
  "waitersByID example_bucket = Map.empty" "waiters example_bucket = Map.empty"
  "chanNext example_bucket = 0" "chanClosed example_bucket = []"
  by (simp_all add: example_bucket_def NewTokenBucket_def default_rate_def default_size_def)

theorem AllowN_rate_limit_witness:
  "tb_ok example_bucket \<and> instants_from (lastRefillTime example_bucket) [(4, 0), (3, second)] \<and>
   (of_int (fst (grant_run AllowN ''k'' [(4, 0), (3, second)] example_bucket)) :: rat)
     \<le> 5 + refill_bound 2 second + 2 * (2 * 5 / 2 ^ 53)"
  using AllowN_rate_limit [OF example_bucket_ok, of "[(4, 0), (3, second)]" "''k''"] example_bucket_ok
  by (simp add: second_def)

text \<open>
  AllowN_oversize_refused: a request that costs more than the bucket size is refused by
  every call, however long the caller waits between the calls.
\<close>

theorem AllowN_oversize_refused:
  assumes "tb_ok tb" "instants_from (lastRefillTime tb) reqs" "\<forall>(c, t) \<in> set reqs. bucketSize tb < c"
  shows "fst (grant_run AllowN k reqs tb) = 0"
proof (rule tb.oversize_refused [OF assms(1,2) tb_admitted])
  show "\<forall>(c, t) \<in> set reqs. (of_int (bucketSize tb) :: rat) < of_int c"
    using assms(3) by auto
qed

theorem AllowN_oversize_refused_witness:
  "tb_ok example_bucket \<and> fst (grant_run AllowN ''k'' [(6, hour), (7, 2 * hour)] example_bucket) = 0"
  using AllowN_oversize_refused [OF example_bucket_ok, of "[(6, hour), (7, 2 * hour)]" "''k''"]
    example_bucket_ok by (simp add: duration_defs)

section \<open>Reserve and the available tokens agree with Allow\<close>

lemma needed_iff: "f64_sub c a \<le> 0 \<longleftrightarrow> c \<le> a"
  by (simp add: f64_sub_def f64_rnd_nonpos_iff)

text \<open>
  ReserveN_agrees_with_AllowN: \<^verbatim>\<open>ReserveN\<close> rejects the costs that \<^verbatim>\<open>AllowN\<close> rejects;
  it needs no waiting exactly when \<^verbatim>\<open>AllowN\<close> would grant, and then leaves the bucket as
  \<^verbatim>\<open>AllowN\<close> does; otherwise it takes nothing from the bucket and starts a goroutine.
\<close>

theorem ReserveN_agrees_with_AllowN:
  "case fst (ReserveN key c t t' newID tb) of
     Inl e \<Rightarrow> AllowN key c t tb = (Inl e, tb) \<and> snd (ReserveN key c t t' newID tb) = tb
   | Inr (r, None) \<Rightarrow>
       AllowN key c t tb = (Inr True, snd (ReserveN key c t t' newID tb)) \<and> rTimeToProcess r = t'
   | Inr (r, Some g) \<Rightarrow>
       AllowN key c t tb = (Inr False, refill t tb) \<and>
       availableTokens (snd (ReserveN key c t t' newID tb)) = availableTokens (refill t tb) \<and>
       rTimeToProcess r = t' + gWaitTime g \<and> gTokenCost g = c"
  by (simp add: ReserveN_def AllowN_def Let_def needed_iff)

lemma refill_idem:
  assumes "tb_ok tb"
  shows "refill t (refill t tb) = refill t tb"
proof -
  have 0: "f64_mul (Seconds (time_Sub t t)) r = 0" for r
    by (simp add: time_Sub_def int64_min_def int64_max_def Seconds_def go_quot_def go_rem_def
        f64_of_int_def f64_div_def f64_add_def f64_mul_def)
  have "is_f64 (availableTokens (refill t tb))"
    using assms by (simp add: refill_def Let_def min_def tb_ok_def is_f64_of_int)
  then have "f64_add (availableTokens (refill t tb)) 0 = availableTokens (refill t tb)"
    by (simp add: f64_add_def is_f64_def)
  moreover have "availableTokens (refill t tb) \<le> f64_of_int (bucketSize tb)"
    by (simp add: refill_def Let_def)
  ultimately show ?thesis
    by (subst (1) refill_def) (simp add: Let_def 0 min_absorb2)
qed

text \<open>
  GetTokensAvailableN_exact: at one instant, \<^verbatim>\<open>GetTokensAvailableN\<close> reports the largest
  cost that \<^verbatim>\<open>AllowN\<close> grants, for any key, and it lies between 0 and the bucket size.
\<close>

theorem GetTokensAvailableN_exact:
  assumes "tb_ok tb" "lastRefillTime tb \<le> t" "GetTokensAvailableN k t tb = (n, tb')"
  shows "0 \<le> n \<and> n \<le> bucketSize tb \<and>
    (\<forall>k' c. 0 < c \<longrightarrow> fst (AllowN k' c t tb') = Inr (c \<le> n))"
proof -
  have tb': "tb' = refill t tb" and n: "n = f64_to_int (availableTokens (refill t tb))"
    using assms(3) by (auto simp: GetTokensAvailableN_def Let_def)
  let ?a = "availableTokens (refill t tb)"
  have ok: "tb_ok (refill t tb)" using assms by (intro refill_ok)
  then have a: "0 \<le> ?a" "?a \<le> of_int (bucketSize tb)" "bucketSize tb < 2 ^ 53"
    by (simp_all add: tb_ok_def)
  have nf: "n = \<lfloor>?a\<rfloor>" using a by (simp add: n f64_to_int_def)
  have "n \<le> bucketSize tb"
    using a(2) by (simp add: nf floor_le_iff)
  moreover have "0 \<le> n" using a(1) by (simp add: nf)
  moreover have "f64_of_int c \<le> ?a \<longleftrightarrow> c \<le> n" if "0 < c" for c
  proof
    assume "f64_of_int c \<le> ?a"
    then have "f64_of_int c = of_int c"
      using a that by (intro cost_exact(2)) auto
    with \<open>f64_of_int c \<le> ?a\<close> show "c \<le> n" by (simp add: nf le_floor_iff)
  next
    assume "c \<le> n"
    then have "of_int c \<le> ?a" by (simp add: nf le_floor_iff)
    moreover have "\<bar>c\<bar> \<le> 2 ^ 53"
      using a(3) \<open>c \<le> n\<close> \<open>n \<le> bucketSize tb\<close> that by linarith
    ultimately show "f64_of_int c \<le> ?a" by simp
  qed
  ultimately show ?thesis
    by (simp add: tb' AllowN_def Let_def refill_idem [OF assms(1)])
qed

theorem GetTokensAvailableN_exact_witness:
  "fst (AllowN ''other'' 6 0 (snd (GetTokensAvailableN ''k'' 0 example_bucket)))
     = Inr (6 \<le> fst (GetTokensAvailableN ''k'' 0 example_bucket))"
  using GetTokensAvailableN_exact [OF example_bucket_ok, of 0 "''k''"]
  by (metis example_bucket_simps(3) order_refl prod.collapse zero_less_numeral)

text \<open>
  The in-memory limiter keeps one bucket: the key of \<^verbatim>\<open>AllowN\<close>, documented as selecting a
  rate limit per resource, has no effect.
\<close>

lemma AllowN_ignores_key: "AllowN k c t tb = AllowN k' c t tb"
  by (simp add: AllowN_def)

section \<open>What a reservation does not do\<close>

lemma ReserveN_waits:
  assumes "ReserveN key c t t' newID tb = (Inr (r, Some g), tb')"
  shows "0 < c" "availableTokens tb' < f64_of_int c"
    "gTokenCost g = c" "gWaiterKey g = key @ '':'' @ newID" "gReservationID g = newID"
    "r = \<lparr>rTokens = c, rTimeToProcess = t' + gWaitTime g, rReservationID = newID, rOk = True\<rparr>"
    "tb' = (refill t tb)\<lparr>waiters := (waiters tb)(key @ '':'' @ newID \<mapsto> chanNext tb),
       waitersByID := (waitersByID tb)(newID \<mapsto> key @ '':'' @ newID), chanNext := Suc (chanNext tb)\<rparr>"
  using assms by (auto simp: ReserveN_def Let_def needed_iff split: if_splits)

text \<open>
  C30: the goroutine of a reservation that has to wait
  does not refill the bucket when it wakes up.  If no other operation ran in between, it
  finds too few tokens whatever time has passed, gives up, and leaves the waiter registered
  with its channel open: \<^verbatim>\<open>Wait\<close> on it selects on a channel that nobody will close.
\<close>

theorem reservation_without_traffic_starves:
  assumes "ReserveN key c t t' newID tb = (Inr (r, Some g), tb')"
    and "\<forall>ch \<in> set (chanClosed tb). ch < chanNext tb"
  shows "wake_consume g tb' = (False, tb') \<and>
    Reservation_Wait (rTimeToProcess r) r tb' = WaitSelects (chanNext tb) \<and>
    Reservation_select WaitChClosed (chanNext tb) r tb' = Blocks"
  using ReserveN_waits [OF assms(1)] assms(2)
  by (auto simp: wake_consume_def Reservation_Wait_def Reservation_select_def)

definition example_reserve :: "(tokenBucketReservation \<times> reserveTask option) \<times> TokenBucket" where
  "example_reserve =
     ((\<lparr>rTokens = 9, rTimeToProcess = 2 * second, rReservationID = ''a-1'', rOk = True\<rparr>,
       Some \<lparr>gWaitTime = 2 * second, gTokenCost = 9, gWaiterKey = ''k:a-1'', gReservationID = ''a-1''\<rparr>),
      example_bucket\<lparr>waiters := [''k:a-1'' \<mapsto> 0], waitersByID := [''a-1'' \<mapsto> ''k:a-1''], chanNext := 1\<rparr>)"

lemma example_refill: "refill 0 example_bucket = example_bucket"
  by (simp add: refill_def Let_def time_Sub_def int64_min_def int64_max_def Seconds_def go_quot_def
      go_rem_def f64_of_int_def f64_div_def f64_add_def f64_mul_def f64_rnd_of_int [of 5, simplified])

lemma example_wait_time:
  "f64_to_int (f64_mul (f64_div (f64_sub 9 5) 2) (f64_of_int second)) = 2 * second"
  "\<not> f64_sub 9 5 \<le> 0" "f64_sub 5 4 = 1" "f64_sub 4 5 \<le> 0"
  by code_simp+

lemma example_reserve_eq:
  "ReserveN ''k'' 9 0 0 ''a-1'' example_bucket = (Inr (fst example_reserve), snd example_reserve)"
  by (simp add: ReserveN_def Let_def example_refill example_wait_time example_reserve_def)

theorem reservation_without_traffic_starves_witness:
  "wake_consume (the (snd (fst example_reserve))) (snd example_reserve) = (False, snd example_reserve)"
  using reservation_without_traffic_starves
    [of "''k''" 9 0 0 "''a-1''" example_bucket "fst (fst example_reserve)"
      "the (snd (fst example_reserve))" "snd example_reserve"] example_reserve_eq
  by (simp add: example_reserve_def)

text \<open>
  late_wait_needs_no_tokens: \<^verbatim>\<open>Wait\<close> called after the time to process returns nil from
  the clock alone: here the bucket holds fewer tokens than the reservation, and nothing was
  taken for it.
\<close>

theorem late_wait_needs_no_tokens:
  assumes "ReserveN key c t t' newID tb = (Inr (r, Some g), tb')" "rTimeToProcess r < t4"
  shows "Reservation_Wait t4 r tb' = WaitReturns None \<and> availableTokens tb' < f64_of_int c \<and>
    availableTokens tb' = availableTokens (refill t tb)"
  using ReserveN_waits [OF assms(1)] assms(2) by (simp add: Reservation_Wait_def)

theorem late_wait_needs_no_tokens_witness:
  "Reservation_Wait (3 * second) (fst (fst example_reserve)) (snd example_reserve) = WaitReturns None"
  using late_wait_needs_no_tokens
    [of "''k''" 9 0 0 "''a-1''" example_bucket "fst (fst example_reserve)"
      "the (snd (fst example_reserve))" "snd example_reserve" "3 * second"] example_reserve_eq
  by (simp add: example_reserve_def second_def)

text \<open>
  immediate_reservation_Wait: a reservation that was served at once registers no waiter,
  so \<^verbatim>\<open>Wait\<close> succeeds on it only when the clock has moved; at the same clock reading it
  reports \<^verbatim>\<open>ErrRateLimited\<close> although the tokens were taken.
\<close>

theorem immediate_reservation_Wait:
  assumes "ReserveN key c t t' newID tb = (Inr (r, None), tb')" "waitersByID tb newID = None"
  shows "Reservation_Wait t4 r tb' = WaitReturns (if t' < t4 then None else Some ErrRateLimited)"
  using assms by (auto simp: ReserveN_def Let_def Reservation_Wait_def split: if_splits)

lemma example_reserve_now:
  "ReserveN ''k'' 4 0 0 ''a-1'' example_bucket =
     (Inr (\<lparr>rTokens = 4, rTimeToProcess = 0, rReservationID = ''a-1'', rOk = True\<rparr>, None),
      example_bucket\<lparr>availableTokens := 1\<rparr>)"
  by (simp add: ReserveN_def Let_def example_refill example_wait_time)

theorem immediate_reservation_Wait_witness:
  "Reservation_Wait 0 \<lparr>rTokens = 4, rTimeToProcess = 0, rReservationID = ''a-1'', rOk = True\<rparr>
     (example_bucket\<lparr>availableTokens := 1\<rparr>) = WaitReturns (Some ErrRateLimited)"
  using immediate_reservation_Wait [OF example_reserve_now, of 0] by simp

text \<open>
  cancelled_reservation_still_consumes: cancelling a reservation in time removes its
  waiter but not its goroutine: on waking up with enough tokens in the bucket, the goroutine
  takes them for the cancelled reservation and notifies nobody, so they are lost.
\<close>

theorem cancelled_reservation_still_consumes:
  assumes "rOk r" "now < rTimeToProcess r" "waitersByID tb (rReservationID r) = Some (gWaiterKey g)"
    and "f64_of_int (gTokenCost g) \<le> availableTokens tb"
    and "CancelAt now r tb = (r', tb')" "wake_consume g tb' = (b, tb'')"
  shows "\<not> rOk r' \<and> b \<and>
    availableTokens tb'' = f64_sub (availableTokens tb) (f64_of_int (gTokenCost g)) \<and>
    wake_notify g tb'' = Returns tb''"
  using assms by (auto simp: CancelAt_def wake_consume_def wake_notify_def)

theorem cancelled_reservation_still_consumes_witness:
  "wake_notify \<lparr>gWaitTime = 0, gTokenCost = 4, gWaiterKey = ''k:a-1'', gReservationID = ''a-1''\<rparr>
     (example_bucket\<lparr>waiters := Map.empty, waitersByID := Map.empty, chanNext := 1, availableTokens := 1\<rparr>)
   = Returns (example_bucket\<lparr>waiters := Map.empty, waitersByID := Map.empty, chanNext := 1, availableTokens := 1\<rparr>)"
proof -
  let ?r = "fst (fst example_reserve)" and ?tb = "snd example_reserve"
  let ?tb' = "example_bucket\<lparr>waiters := Map.empty, waitersByID := Map.empty, chanNext := 1\<rparr>"
  let ?g = "\<lparr>gWaitTime = 0, gTokenCost = 4, gWaiterKey = ''k:a-1'', gReservationID = ''a-1''\<rparr>"
  have "CancelAt 0 ?r ?tb = (?r\<lparr>rOk := False\<rparr>, ?tb')"
    by (simp add: CancelAt_def example_reserve_def second_def)
  moreover have "wake_consume ?g ?tb' = (True, ?tb'\<lparr>availableTokens := 1\<rparr>)"
    by (simp add: wake_consume_def example_wait_time)
  ultimately show ?thesis
    using cancelled_reservation_still_consumes [of ?r 0 ?tb ?g]
    by (simp add: example_reserve_def second_def)
qed

end
