(* ===== verification/Worker.thy ===== *)
theory Worker
  imports Channel_Registry Fifo_Queue Token_Bucket
begin

text \<open>
  Package \<^verbatim>\<open>queue\<close>, file worker.go: the operations of the worker as state transformers.  The
  queue and the limiter are used through their interfaces, so their operations are fields
  of the worker's environment and their states are type variables; so is the encoding of
  queued requests (\<^verbatim>\<open>encoding/json\<close>).  Readings of the clock and the answer of the LLM
  service are arguments.
\<close>

section \<open>Data\<close>

record WorkerConfig =
  wcPollingInterval :: duration
  wcMaxConcurrent :: int
  wcRetryDelay :: duration

record QueuedRequest =
  qrRequest :: "Request option"
  qrTokenCost :: int
  qrRequestID :: string
  qrCreatedAt :: gotime

text \<open>\<^verbatim>\<open>NewWorker\<close> replaces settings that are not positive.\<close>

definition worker_config :: "WorkerConfig \<Rightarrow> WorkerConfig" where
  "worker_config config =
     \<lparr>wcPollingInterval =
        (if wcPollingInterval config \<le> 0 then 100 * millisecond else wcPollingInterval config),
      wcMaxConcurrent = (if wcMaxConcurrent config \<le> 0 then 10 else wcMaxConcurrent config),
      wcRetryDelay = (if wcRetryDelay config \<le> 0 then 500 * millisecond else wcRetryDelay config)\<rparr>"

record ('q, 'l, 'b) worker_env =
  weEnqueue :: "('q, 'b) enqueue_op"
  weAllow :: "int \<Rightarrow> gotime \<Rightarrow> 'l \<Rightarrow> (go_error + bool) \<times> 'l"
  weEncode :: "QueuedRequest \<Rightarrow> go_error + 'b"
  weDecode :: "'b \<Rightarrow> go_error + QueuedRequest"
  weConfig :: WorkerConfig

record ('q, 'l) world =
  woQueue :: 'q
  woLimiter :: 'l
  woRegistry :: ChannelRegistry
  woChans :: chan_store

section \<open>EnqueueRequest\<close>

definition new_request :: "string \<Rightarrow> Request \<Rightarrow> int \<Rightarrow> gotime \<Rightarrow> QueuedRequest" where
  "new_request requestID request tokenCost createdAt =
     \<lparr>qrRequest = Some request, qrTokenCost = tokenCost, qrRequestID = requestID,
      qrCreatedAt = createdAt\<rparr>"

definition new_item :: "QueuedRequest \<Rightarrow> Request \<Rightarrow> 'b \<Rightarrow> gotime \<Rightarrow> 'b QueueItem" where
  "new_item q request data enqueueTime =
     \<lparr>qID = qrRequestID q, qData = data,
      qMetadata = Some [(''provider'', VString (rqProviderName request)),
                        (''model'', VString (rqModelName request)),
                        (''tokens'', VInt (qrTokenCost q)),
                        (''request_id'', VString (qrRequestID q))],
      qPriority = 0, qEnqueueTime = enqueueTime, qProcessAfter = 0\<rparr>"

text \<open>
  The part after the registration: serialize and enqueue.  The clean-up after an error is the
  caller's last action.
\<close>

definition submit ::
  "('q, 'l, 'b) worker_env \<Rightarrow> QueuedRequest \<Rightarrow> Request \<Rightarrow> gotime \<Rightarrow> gotime \<Rightarrow> 'q \<Rightarrow>
   go_error option \<times> 'q" where
  "submit we q request tEnqueue tQueue queue =
     (case weEncode we q of
        Inl err \<Rightarrow> (Some (Wrapf ''failed to serialize request: '' err ''''), queue)
      | Inr data \<Rightarrow>
          (case weEnqueue we tQueue (Some (new_item q request data tEnqueue)) queue of
             (Some err, queue') \<Rightarrow> (Some (Wrapf ''failed to enqueue request: '' err ''''), queue')
           | (None, queue') \<Rightarrow> (None, queue')))"

definition EnqueueRequest ::
  "('q, 'l, 'b) worker_env \<Rightarrow> string \<Rightarrow> Request \<Rightarrow> int \<Rightarrow> chan \<Rightarrow> gotime \<Rightarrow> gotime \<Rightarrow> gotime \<Rightarrow>
   ('q, 'l) world \<Rightarrow> go_error option \<times> ('q, 'l) world" where
  "EnqueueRequest we requestID request tokenCost responseCh tCreated tEnqueue tQueue w =
     (let q = new_request requestID request tokenCost tCreated;
          w1 = w\<lparr>woRegistry := Register requestID responseCh (woRegistry w)\<rparr>;
          (err, queue') = submit we q request tEnqueue tQueue (woQueue w1);
          w2 = w1\<lparr>woQueue := queue'\<rparr>
      in (err, if err = None then w2
               else w2\<lparr>woRegistry := Remove requestID (woRegistry w2)\<rparr>))"

section \<open>The steps of processItem\<close>

text \<open>
  Where a goroutine of \<^verbatim>\<open>processItem\<close> stands: each constructor is an action on shared state that
  comes next, with the local variables that it needs.  \<^verbatim>\<open>TRelease\<close> and \<^verbatim>\<open>TDone\<close> are the two
  deferred actions, on the semaphore and on the wait group.
\<close>

datatype 'b task =
    TDecode "'b QueueItem"
  | TGet "'b QueueItem" QueuedRequest Request
  | TAllow "'b QueueItem" QueuedRequest Request "chan option"
  | TReenqueue "'b QueueItem" QueuedRequest Request "chan option"
  | TProcess QueuedRequest Request "chan option"
  | TSend chan string Response
  | TRemove string
  | TRelease
  | TDone

text \<open>
  The clock readings of one item: in \<^verbatim>\<open>Allow\<close>, for the new \<^verbatim>\<open>EnqueueTime\<close>, for
  \<^verbatim>\<open>ProcessAfter\<close>, and in the queue.
\<close>

record task_times =
  ttAllow :: gotime
  ttEnqueue :: gotime
  ttAfter :: gotime
  ttQueue :: gotime

text \<open>
  The answer of \<^verbatim>\<open>llmService.Process\<close>: an error or a response, possibly nil, and the request
  as \<^verbatim>\<open>Process\<close> left it.
\<close>

type_synonym llm_reply = "(go_error + Response option) \<times> Request"

definition error_response :: "Request \<Rightarrow> go_error \<Rightarrow> Response" where
  "error_response req err =
     \<lparr>rsProviderName = rqProviderName req, rsModelName = rqModelName req, rsResult = None,
      rsTokensUsed = 0, rsError = Some err\<rparr>"

text \<open>Send to the response channel if there is one.\<close>

definition reply_or_release :: "chan option \<Rightarrow> string \<Rightarrow> Response \<Rightarrow> 'b task" where
  "reply_or_release ch requestID resp =
     (case ch of None \<Rightarrow> TRelease | Some c \<Rightarrow> TSend c requestID resp)"

definition delayed_item :: "duration \<Rightarrow> task_times \<Rightarrow> 'b QueueItem \<Rightarrow> 'b QueueItem" where
  "delayed_item retryDelay tt item =
     \<lparr>qID = qID item, qData = qData item, qMetadata = qMetadata item, qPriority = qPriority item,
      qEnqueueTime = ttEnqueue tt, qProcessAfter = ttAfter tt + retryDelay\<rparr>"

text \<open>
  After a successful call with a response channel, \<^verbatim>\<open>response.TokensUsed\<close> is read before
  \<^verbatim>\<open>response\<close> is compared with nil.
\<close>

fun task_step ::
  "('q, 'l, 'b) worker_env \<Rightarrow> task_times \<Rightarrow> llm_reply \<Rightarrow> 'b task \<Rightarrow> ('q, 'l) world \<Rightarrow>
   ('b task \<times> ('q, 'l) world) outcome" where
  "task_step we tt reply (TDecode item) w =
     (case weDecode we (qData item) of
        Inl err \<Rightarrow> Returns (TRelease, w)
      | Inr q \<Rightarrow> (case qrRequest q of None \<Rightarrow> Panics | Some req \<Rightarrow> Returns (TGet item q req, w)))"
| "task_step we tt reply (TGet item q req) w =
     Returns (TAllow item q req (Get (qrRequestID q) (woRegistry w)), w)"
| "task_step we tt reply (TAllow item q req ch) w =
     (let (r, l) = weAllow we (qrTokenCost q) (ttAllow tt) (woLimiter w); w' = w\<lparr>woLimiter := l\<rparr>
      in Returns (case r of
           Inl err \<Rightarrow> reply_or_release ch (qrRequestID q) (error_response req err)
         | Inr allowed \<Rightarrow> if allowed then TProcess q req ch else TReenqueue item q req ch, w'))"
| "task_step we tt reply (TReenqueue item q req ch) w =
     (let (e, queue') = weEnqueue we (ttQueue tt)
            (Some (delayed_item (wcRetryDelay (weConfig we)) tt item)) (woQueue w);
          w' = w\<lparr>woQueue := queue'\<rparr>
      in Returns (case e of
           None \<Rightarrow> TRelease
         | Some err \<Rightarrow> reply_or_release ch (qrRequestID q) (error_response req err), w'))"
| "task_step we tt reply (TProcess q req ch) w =
     (case reply of (r, req') \<Rightarrow>
        (case r of
           Inl err \<Rightarrow> Returns (reply_or_release ch (qrRequestID q) (error_response req' err), w)
         | Inr response \<Rightarrow>
             (case ch of
                None \<Rightarrow> Returns (TRelease, w)
              | Some c \<Rightarrow>
                  (case response of
                     None \<Rightarrow> Panics
                   | Some resp \<Rightarrow> Returns (TSend c (qrRequestID q) resp, w)))))"
| "task_step we tt reply (TSend c requestID resp) w =
     bind_outcome (chan_send c resp (woChans w))
       (\<lambda>cs. Returns (TRemove requestID, w\<lparr>woChans := cs\<rparr>))"
| "task_step we tt reply (TRemove requestID) w =
     Returns (TRelease, w\<lparr>woRegistry := Remove requestID (woRegistry w)\<rparr>)"
| "task_step we tt reply TRelease w = Returns (TDone, w)"
| "task_step we tt reply TDone w = Returns (TDone, w)"

section \<open>processItem in one piece\<close>

definition send_and_remove ::
  "chan option \<Rightarrow> string \<Rightarrow> Response \<Rightarrow> ('q, 'l) world \<Rightarrow> ('q, 'l) world outcome" where
  "send_and_remove responseCh requestID resp w =
     (case responseCh of
        None \<Rightarrow> Returns w
      | Some c \<Rightarrow>
          bind_outcome (chan_send c resp (woChans w))
            (\<lambda>cs. Returns (w\<lparr>woChans := cs, woRegistry := Remove requestID (woRegistry w)\<rparr>)))"

definition processItem ::
  "('q, 'l, 'b) worker_env \<Rightarrow> task_times \<Rightarrow> llm_reply \<Rightarrow> 'b QueueItem \<Rightarrow> ('q, 'l) world \<Rightarrow>
   ('q, 'l) world outcome" where
  "processItem we tt reply item w =
     (case weDecode we (qData item) of
        Inl err \<Rightarrow> Returns w
      | Inr queuedRequest \<Rightarrow>
          (case qrRequest queuedRequest of
             None \<Rightarrow> Panics
           | Some req \<Rightarrow>
               let requestID = qrRequestID queuedRequest;
                   responseCh = Get requestID (woRegistry w);
                   (r, l) = weAllow we (qrTokenCost queuedRequest) (ttAllow tt) (woLimiter w);
                   w1 = w\<lparr>woLimiter := l\<rparr>
               in (case r of
                     Inl err \<Rightarrow> send_and_remove responseCh requestID (error_response req err) w1
                   | Inr allowed \<Rightarrow>
                       if \<not> allowed then
                         (let (e, queue') = weEnqueue we (ttQueue tt)
                                (Some (delayed_item (wcRetryDelay (weConfig we)) tt item)) (woQueue w1);
                              w2 = w1\<lparr>woQueue := queue'\<rparr>
                          in case e of
                               None \<Rightarrow> Returns w2
                             | Some err \<Rightarrow>
                                 send_and_remove responseCh requestID (error_response req err) w2)
                       else
                         (case reply of
                            (Inl err, req') \<Rightarrow>
                              send_and_remove responseCh requestID (error_response req' err) w1
                          | (Inr response, req') \<Rightarrow>
                              (case responseCh of
                                 None \<Rightarrow> Returns w1
                               | Some c \<Rightarrow>
                                   (case response of
                                      None \<Rightarrow> Panics
                                    | Some resp \<Rightarrow> send_and_remove responseCh requestID resp w1))))))"

text \<open>
  Without a registered channel, as on an instance that did not queue the request, a granted
  request is sent to the service and its response is dropped.
\<close>

lemma processItem_without_channel:
  assumes "weDecode we (qData item) = Inr q" "qrRequest q = Some req" "Get (qrRequestID q) (woRegistry w) = None"
    and "weAllow we (qrTokenCost q) (ttAllow tt) (woLimiter w) = (Inr True, l)"
  shows "processItem we tt reply item w = Returns (w\<lparr>woLimiter := l\<rparr>)"
  using assms by (simp add: processItem_def send_and_remove_def Let_def split: prod.split sum.split)

text \<open>A goroutine that runs without interference, for at most a given number of steps.\<close>

fun run_task ::
  "nat \<Rightarrow> ('q, 'l, 'b) worker_env \<Rightarrow> task_times \<Rightarrow> llm_reply \<Rightarrow> 'b task \<Rightarrow> ('q, 'l) world \<Rightarrow>
   ('b task \<times> ('q, 'l) world) outcome" where
  "run_task 0 we tt reply t w = Returns (t, w)"
| "run_task (Suc n) we tt reply t w =
     bind_outcome (task_step we tt reply t w) (\<lambda>(t', w'). run_task n we tt reply t' w')"

lemma run_task_TDone [simp]: "run_task n we tt reply TDone w = Returns (TDone, w)"
  by (induction n) simp_all

lemma run_task_TRelease [simp]: "run_task (Suc n) we tt reply TRelease w = Returns (TDone, w)"
  by simp

lemma run_task_reply:
  "run_task (Suc (Suc (Suc n))) we tt reply (reply_or_release ch i resp) w =
     bind_outcome (send_and_remove ch i resp w) (\<lambda>w'. Returns (TDone, w'))"
proof (cases ch)
  case (Some c)
  then show ?thesis
    by (cases "chan_send c resp (woChans w)") (simp_all add: reply_or_release_def send_and_remove_def)
qed (simp add: reply_or_release_def send_and_remove_def)

lemma run_task_TSend:
  "run_task (Suc (Suc (Suc n))) we tt reply (TSend c i resp) w =
     bind_outcome (send_and_remove (Some c) i resp w) (\<lambda>w'. Returns (TDone, w'))"
  using run_task_reply [of n we tt reply "Some c" i resp w] by (simp add: reply_or_release_def)

lemma run_task_TProcess:
  "run_task (Suc (Suc (Suc (Suc n)))) we tt reply (TProcess q req ch) w =
     bind_outcome
       (case reply of
          (Inl err, req') \<Rightarrow> send_and_remove ch (qrRequestID q) (error_response req' err) w
        | (Inr response, req') \<Rightarrow>
            (case ch of
               None \<Rightarrow> Returns w
             | Some c \<Rightarrow>
                 (case response of
                    None \<Rightarrow> Panics
                  | Some resp \<Rightarrow> send_and_remove ch (qrRequestID q) resp w)))
       (\<lambda>w'. Returns (TDone, w'))"
  by (subst run_task.simps(2))
    (auto simp del: run_task.simps(2) simp: run_task_reply run_task_TSend split: prod.split sum.split option.split)

lemma run_task_TReenqueue:
  "run_task (Suc (Suc (Suc (Suc n)))) we tt reply (TReenqueue item q req ch) w =
     (let (e, queue') = weEnqueue we (ttQueue tt)
            (Some (delayed_item (wcRetryDelay (weConfig we)) tt item)) (woQueue w);
          w2 = w\<lparr>woQueue := queue'\<rparr>
      in bind_outcome
           (case e of
              None \<Rightarrow> Returns w2
            | Some err \<Rightarrow> send_and_remove ch (qrRequestID q) (error_response req err) w2)
           (\<lambda>w'. Returns (TDone, w')))"
  by (subst run_task.simps(2))
    (auto simp del: run_task.simps(2) simp: Let_def run_task_reply run_task_TRelease split: prod.split option.split)


end
