(* ===== verification/Token_Bucket_System.thy ===== *)
theory Token_Bucket_System
  imports Token_Bucket
begin

text \<open>
  The in-memory limiter under concurrency: the callers of its operations, the goroutines
  that reservations start, and cancellation, as a step relation.  Each step is one section
  under a mutex; the goroutine's sections under \<^verbatim>\<open>mu\<close> and under \<^verbatim>\<open>waitersMu\<close> are separate
  steps, with other steps possible in between.
\<close>

section \<open>The system\<close>

record tb_system =
  sysBucket :: TokenBucket
  sysNow :: gotime
  sleeping :: "reserveTask list"
  notifying :: "reserveTask list"

text \<open>Reservation ids contain no colon, so a waiter key determines its id.\<close>

definition id_ok :: "string \<Rightarrow> bool" where
  "id_ok newID \<longleftrightarrow> CHR '':'' \<notin> set newID"

text \<open>The label of a step is the number of tokens that it takes from the bucket for a caller.\<close>

inductive tb_step :: "tb_system \<Rightarrow> int \<Rightarrow> tb_system \<Rightarrow> bool" where
  step_allow:
    "sysNow s \<le> t \<Longrightarrow> AllowN key c t (sysBucket s) = (r, b) \<Longrightarrow>
     tb_step s (if r = Inr True then c else 0) (s\<lparr>sysBucket := b, sysNow := t\<rparr>)"
| step_get:
    "sysNow s \<le> t \<Longrightarrow> GetTokensAvailableN key t (sysBucket s) = (n, b) \<Longrightarrow>
     tb_step s 0 (s\<lparr>sysBucket := b, sysNow := t\<rparr>)"
| step_reserve_now:
    "sysNow s \<le> t \<Longrightarrow> t \<le> t' \<Longrightarrow> id_ok newID \<Longrightarrow>
     ReserveN key c t t' newID (sysBucket s) = (Inr (r, None), b) \<Longrightarrow>
     tb_step s c (s\<lparr>sysBucket := b, sysNow := t'\<rparr>)"
| step_reserve_wait:
    "sysNow s \<le> t \<Longrightarrow> t \<le> t' \<Longrightarrow> id_ok newID \<Longrightarrow>
     ReserveN key c t t' newID (sysBucket s) = (Inr (r, Some g), b) \<Longrightarrow>
     tb_step s 0 (s\<lparr>sysBucket := b, sysNow := t', sleeping := g # sleeping s\<rparr>)"
| step_wake_consume:
    "g \<in> set (sleeping s) \<Longrightarrow> wake_consume g (sysBucket s) = (True, b) \<Longrightarrow>
     tb_step s (gTokenCost g)
       (s\<lparr>sysBucket := b, sleeping := remove1 g (sleeping s), notifying := g # notifying s\<rparr>)"
| step_wake_give_up:
    "g \<in> set (sleeping s) \<Longrightarrow> wake_consume g (sysBucket s) = (False, b) \<Longrightarrow>
     tb_step s 0 (s\<lparr>sysBucket := b, sleeping := remove1 g (sleeping s)\<rparr>)"
| step_notify:
    "g \<in> set (notifying s) \<Longrightarrow> wake_notify g (sysBucket s) = Returns b \<Longrightarrow>
     tb_step s 0 (s\<lparr>sysBucket := b, notifying := remove1 g (notifying s)\<rparr>)"
| step_cancel:
    "sysNow s \<le> t \<Longrightarrow> CancelAt t r (sysBucket s) = (r', b) \<Longrightarrow>
     tb_step s 0 (s\<lparr>sysBucket := b, sysNow := t\<rparr>)"

text \<open>A run from a system: the tokens it took, and the number of its steps.\<close>

inductive tb_run :: "tb_system \<Rightarrow> int \<Rightarrow> nat \<Rightarrow> tb_system \<Rightarrow> bool" where
  run_start: "tb_run s 0 0 s"
| run_step: "tb_run s spent n s' \<Longrightarrow> tb_step s' c s'' \<Longrightarrow> tb_run s (spent + c) (Suc n) s''"

definition initial_system :: "LimiterConfig \<Rightarrow> gotime \<Rightarrow> tb_system" where
  "initial_system config t =
     \<lparr>sysBucket = NewTokenBucket config t, sysNow = t, sleeping = [], notifying = []\<rparr>"

inductive_cases tb_stepE: "tb_step s c s'"

section \<open>The invariant\<close>

text \<open>
  The registered channels are open and allocated, no channel is registered under two keys,
  and a reservation id leads to a key that ends in that id.
\<close>

definition waiters_ok :: "TokenBucket \<Rightarrow> bool" where
  "waiters_ok tb \<longleftrightarrow>
     (\<forall>ch \<in> set (chanClosed tb). ch < chanNext tb) \<and>
     (\<forall>k ch. waiters tb k = Some ch \<longrightarrow> ch < chanNext tb \<and> ch \<notin> set (chanClosed tb)) \<and>
     (\<forall>k k' ch. waiters tb k = Some ch \<longrightarrow> waiters tb k' = Some ch \<longrightarrow> k = k') \<and>
     (\<forall>i k. waitersByID tb i = Some k \<longrightarrow> (\<exists>key. k = key @ '':'' @ i))"

definition task_ok :: "reserveTask \<Rightarrow> bool" where
  "task_ok g \<longleftrightarrow> 0 < gTokenCost g \<and> id_ok (gReservationID g) \<and>
     (\<exists>key. gWaiterKey g = key @ '':'' @ gReservationID g)"

definition system_ok :: "tb_system \<Rightarrow> bool" where
  "system_ok s \<longleftrightarrow>
     tb_ok (sysBucket s) \<and> waiters_ok (sysBucket s) \<and> lastRefillTime (sysBucket s) \<le> sysNow s \<and>
     (\<forall>g \<in> set (sleeping s) \<union> set (notifying s). task_ok g)"

lemma waiters_ok_frame [simp]:
  "waiters_ok (refill t tb) = waiters_ok tb"
  "waiters_ok (tb\<lparr>availableTokens := x\<rparr>) = waiters_ok tb"
  by (simp_all add: waiters_ok_def)

lemma tb_ok_frame [simp]:
  "tb_ok (tb\<lparr>waiters := w\<rparr>) = tb_ok tb" "tb_ok (tb\<lparr>waitersByID := i\<rparr>) = tb_ok tb"
  "tb_ok (tb\<lparr>chanNext := n\<rparr>) = tb_ok tb" "tb_ok (tb\<lparr>chanClosed := cs\<rparr>) = tb_ok tb"
  by (simp_all add: tb_ok_def)

lemma waiters_ok_register:
  "waiters_ok tb \<Longrightarrow>
   waiters_ok (tb\<lparr>waiters := (waiters tb)(key @ '':'' @ i \<mapsto> chanNext tb),
     waitersByID := (waitersByID tb)(i \<mapsto> key @ '':'' @ i), chanNext := Suc (chanNext tb)\<rparr>)"
  unfolding waiters_ok_def by (auto simp: less_Suc_eq split: if_splits)

lemma waiters_ok_remove:
  "waiters_ok tb \<Longrightarrow>
   waiters_ok (tb\<lparr>waiters := (waiters tb)(k := None), waitersByID := (waitersByID tb)(i := None)\<rparr>)"
  by (auto simp: waiters_ok_def)

lemma waiters_ok_close:
  assumes "waiters_ok tb" "waiters tb k = Some ch"
  shows "waiters_ok (tb\<lparr>chanClosed := ch # chanClosed tb, waiters := (waiters tb)(k := None),
    waitersByID := (waitersByID tb)(i := None)\<rparr>)"
  using assms unfolding waiters_ok_def by (simp split: if_split_asm) metis

lemma wake_notify_returns:
  assumes "waiters_ok tb"
  obtains tb' where "wake_notify g tb = Returns tb'" "waiters_ok tb'" "tb_ok tb' = tb_ok tb"
    "availableTokens tb' = availableTokens tb" "lastRefillTime tb' = lastRefillTime tb"
    "bucketSize tb' = bucketSize tb" "tokensPerSecond tb' = tokensPerSecond tb"
proof (cases "waiters tb (gWaiterKey g)")
  case None
  with assms that show ?thesis by (simp add: wake_notify_def)
next
  case (Some ch)
  then have "ch \<notin> set (chanClosed tb)" using assms by (simp add: waiters_ok_def)
  moreover note waiters_ok_close [OF assms Some, of "gReservationID g"]
  ultimately show ?thesis
    using Some that by (simp add: wake_notify_def close_chan_def)
qed

lemma CancelAt_cases:
  assumes "CancelAt t r tb = (r', tb')"
  obtains "tb' = tb"
  | k where "tb' = tb\<lparr>waiters := (waiters tb)(k := None),
      waitersByID := (waitersByID tb)(rReservationID r := None)\<rparr>"
  using assms by (auto simp: CancelAt_def split: if_splits option.splits)

lemma wake_consume_cases:
  assumes "wake_consume g tb = (b, tb')" "tb_ok tb" "0 < gTokenCost g"
  shows "tb_ok tb'" "lastRefillTime tb' = lastRefillTime tb" "waiters_ok tb' = waiters_ok tb"
    "bucketSize tb' = bucketSize tb" "tokensPerSecond tb' = tokensPerSecond tb"
    "availableTokens tb' + (if b then of_int (gTokenCost g) else 0)
       \<le> availableTokens tb + of_int (bucketSize tb) / 2 ^ 53"
  using assms consume_ok [OF assms(2) _ assms(3)] consume_accounting [OF assms(2) _ assms(3)]
  by (auto simp: wake_consume_def tb_ok_def split: if_splits)

lemma ReserveN_now:
  assumes "ReserveN key c t t' newID tb = (Inr (r, None), tb')"
  shows "AllowN key c t tb = (Inr True, tb')" "0 < c"
  using assms by (auto simp: ReserveN_def AllowN_def Let_def needed_iff split: if_splits)

lemma AllowN_frame:
  "waiters_ok (snd (AllowN k c t tb)) = waiters_ok tb"
  "lastRefillTime (snd (AllowN k c t tb)) = (if c \<le> 0 then lastRefillTime tb else t)"
  by (simp_all add: AllowN_def Let_def)

section \<open>One step\<close>

definition same_config :: "TokenBucket \<Rightarrow> TokenBucket \<Rightarrow> bool" where
  "same_config tb tb' \<longleftrightarrow>
     bucketSize tb' = bucketSize tb \<and> tokensPerSecond tb' = tokensPerSecond tb"

text \<open>What a step that takes \<^verbatim>\<open>c\<close> tokens does to the level.\<close>

definition accounts :: "TokenBucket \<Rightarrow> int \<Rightarrow> TokenBucket \<Rightarrow> bool" where
  "accounts tb c tb' \<longleftrightarrow>
     same_config tb tb' \<and> lastRefillTime tb \<le> lastRefillTime tb' \<and>
     availableTokens tb' + of_int c
       \<le> availableTokens tb + refill_bound (tokensPerSecond tb) (lastRefillTime tb' - lastRefillTime tb)
         + 2 * of_int (bucketSize tb) / 2 ^ 53"

lemma rounding_nonneg: "tb_ok tb \<Longrightarrow> (0::rat) \<le> 2 * of_int (bucketSize tb) / 2 ^ 53"
  by (simp add: tb_ok_def)

lemma accounts_same:
  "tb_ok tb \<Longrightarrow> same_config tb tb' \<Longrightarrow> lastRefillTime tb' = lastRefillTime tb \<Longrightarrow>
   availableTokens tb' = availableTokens tb \<Longrightarrow> accounts tb 0 tb'"
  using rounding_nonneg [of tb] by (simp add: accounts_def)

lemma AllowN_accounts:
  assumes "tb_ok tb" "lastRefillTime tb \<le> t" "AllowN k c t tb = (r, tb')"
  shows "accounts tb (if r = Inr True then c else 0) tb'"
proof (cases "c \<le> 0")
  case True
  then show ?thesis
    using assms by (auto simp: AllowN_def intro!: accounts_same simp: same_config_def)
next
  case False
  then have c: "0 < c" by simp
  have "same_config tb tb'" "lastRefillTime tb' = t"
    using assms(3) c by (auto simp: same_config_def AllowN_def Let_def split: if_splits)
  then show ?thesis
    using AllowN_accounting [OF assms(1,2) c, of k] assms(2,3)
    by (simp add: accounts_def split: if_splits)
qed

lemma refill_accounts:
  assumes "tb_ok tb" "lastRefillTime tb \<le> t" "availableTokens tb' = availableTokens (refill t tb)"
    "lastRefillTime tb' = t" "same_config tb tb'"
  shows "accounts tb 0 tb'"
proof -
  have "(2 * of_int (bucketSize tb) / 2 ^ 53 :: rat)
      = of_int (bucketSize tb) / 2 ^ 53 + of_int (bucketSize tb) / 2 ^ 53"
    by simp
  moreover have "(0::rat) \<le> of_int (bucketSize tb) / 2 ^ 53"
    using assms(1) by (simp add: tb_ok_def)
  ultimately show ?thesis
    using refill_accounting [OF assms(1,2)] assms(2-) unfolding accounts_def
    by (simp only: of_int_0 add_0_right simp_thms)
qed

lemma wake_consume_accounts:
  assumes "wake_consume g tb = (b, tb')" "tb_ok tb" "0 < gTokenCost g"
  shows "accounts tb (if b then gTokenCost g else 0) tb'"
proof -
  have "(2 * of_int (bucketSize tb) / 2 ^ 53 :: rat)
      = of_int (bucketSize tb) / 2 ^ 53 + of_int (bucketSize tb) / 2 ^ 53"
    by simp
  moreover have "(0::rat) \<le> of_int (bucketSize tb) / 2 ^ 53"
    using assms(2) by (simp add: tb_ok_def)
  ultimately show ?thesis
    using wake_consume_cases [OF assms] unfolding accounts_def same_config_def by auto
qed

text \<open>Every step keeps the invariant and accounts for the tokens it takes.\<close>

lemma tb_step_ok:
  assumes "tb_step s c s'" "system_ok s"
  shows "system_ok s' \<and> accounts (sysBucket s) c (sysBucket s')"
  using assms(1)
proof cases
  case (step_allow t key c' r b)
  have "lastRefillTime (sysBucket s) \<le> t" using assms(2) step_allow by (simp add: system_ok_def)
  then show ?thesis
    using assms(2) step_allow AllowN_accounts [of "sysBucket s" t key c' r b]
      AllowN_ok [of "sysBucket s" t key c'] AllowN_frame [of key c' t "sysBucket s"]
    by (auto simp: system_ok_def)
next
  case (step_get t key n b)
  then have b: "b = refill t (sysBucket s)" by (simp add: GetTokensAvailableN_def Let_def)
  have "lastRefillTime (sysBucket s) \<le> t" using assms(2) step_get by (simp add: system_ok_def)
  then show ?thesis
    using assms(2) step_get refill_ok [of "sysBucket s" t]
    by (auto simp: system_ok_def b same_config_def intro!: refill_accounts [where t = t])
next
  case (step_reserve_now t t' newID key r b)
  note r = ReserveN_now [OF step_reserve_now(5)]
  have "lastRefillTime (sysBucket s) \<le> t" using assms(2) step_reserve_now by (simp add: system_ok_def)
  then show ?thesis
    using assms(2) step_reserve_now r AllowN_accounts [of "sysBucket s" t key c "Inr True" b]
      AllowN_ok [of "sysBucket s" t key c] AllowN_frame [of key c t "sysBucket s"]
    by (auto simp: system_ok_def)
next
  case (step_reserve_wait t t' newID key c' r g b)
  note r = ReserveN_waits [OF step_reserve_wait(6)]
  have "lastRefillTime (sysBucket s) \<le> t" using assms(2) step_reserve_wait by (simp add: system_ok_def)
  moreover have "task_ok g"
    using r step_reserve_wait by (simp add: task_ok_def)
  moreover have "waiters_ok b"
    using assms(2) waiters_ok_register [of "refill t (sysBucket s)" newID key]
    by (simp add: r(7) system_ok_def)
  ultimately show ?thesis
    using assms(2) step_reserve_wait refill_ok [of "sysBucket s" t]
    by (auto simp: system_ok_def r(7) same_config_def intro!: refill_accounts [where t = t])
next
  case (step_wake_consume g b)
  then have "0 < gTokenCost g" using assms(2) by (simp add: system_ok_def task_ok_def)
  then show ?thesis
    using assms(2) step_wake_consume wake_consume_cases [OF step_wake_consume(4)]
      wake_consume_accounts [OF step_wake_consume(4)]
    by (auto simp: system_ok_def dest: set_remove1_subset [THEN subsetD])
next
  case (step_wake_give_up g b)
  then have "0 < gTokenCost g" using assms(2) by (simp add: system_ok_def task_ok_def)
  then show ?thesis
    using assms(2) step_wake_give_up wake_consume_cases [OF step_wake_give_up(4)]
      wake_consume_accounts [OF step_wake_give_up(4)]
    by (auto simp: system_ok_def dest: set_remove1_subset [THEN subsetD])
next
  case (step_notify g b)
  have "waiters_ok (sysBucket s)" using assms(2) by (simp add: system_ok_def)
  then obtain tb' where "wake_notify g (sysBucket s) = Returns tb'" "waiters_ok tb'"
      "tb_ok tb' = tb_ok (sysBucket s)" "availableTokens tb' = availableTokens (sysBucket s)"
      "lastRefillTime tb' = lastRefillTime (sysBucket s)" "bucketSize tb' = bucketSize (sysBucket s)"
      "tokensPerSecond tb' = tokensPerSecond (sysBucket s)"
    by (rule wake_notify_returns)
  then show ?thesis
    using assms(2) step_notify
    by (auto simp: system_ok_def same_config_def intro!: accounts_same dest: set_remove1_subset [THEN subsetD])
next
  case (step_cancel t r r' b)
  show ?thesis
    using step_cancel(4)
  proof (cases rule: CancelAt_cases)
    case 1
    then show ?thesis
      using assms(2) step_cancel by (auto simp: system_ok_def same_config_def intro!: accounts_same)
  next
    case (2 k)
    then show ?thesis
      using assms(2) step_cancel waiters_ok_remove [of "sysBucket s" "rReservationID r" k]
      by (auto simp: system_ok_def same_config_def intro!: accounts_same)
  qed
qed

section \<open>Runs\<close>

lemma accounts_arith:
  "(l2::rat) + b \<le> l1 + r2 + e \<Longrightarrow> l1 + a \<le> l0 + r1 + m \<Longrightarrow> r1 + r2 = r3 \<Longrightarrow> m' = m + e \<Longrightarrow>
   l2 + (a + b) \<le> l0 + r3 + m'"
  by linarith

lemma accounts_trans:
  assumes "availableTokens tb' + of_int a \<le> availableTokens tb
      + refill_bound (tokensPerSecond tb) (lastRefillTime tb' - lastRefillTime tb)
      + of_nat n * (2 * of_int (bucketSize tb) / 2 ^ 53)"
    and "same_config tb tb'" "accounts tb' b tb''"
  shows "availableTokens tb'' + of_int (a + b) \<le> availableTokens tb
      + refill_bound (tokensPerSecond tb) (lastRefillTime tb'' - lastRefillTime tb)
      + of_nat (Suc n) * (2 * of_int (bucketSize tb) / 2 ^ 53)"
proof -
  have "refill_bound (tokensPerSecond tb) (lastRefillTime tb' - lastRefillTime tb)
      + refill_bound (tokensPerSecond tb) (lastRefillTime tb'' - lastRefillTime tb')
      = refill_bound (tokensPerSecond tb) (lastRefillTime tb'' - lastRefillTime tb)"
    by (simp add: refill_bound_add)
  moreover have "of_nat (Suc n) * (2 * of_int (bucketSize tb) / 2 ^ 53)
      = of_nat n * (2 * of_int (bucketSize tb) / 2 ^ 53) + (2 * of_int (bucketSize tb) / 2 ^ 53 :: rat)"
    by (simp add: distrib_right del: times_divide_eq_right times_divide_eq_left)
  ultimately show ?thesis
    using assms unfolding accounts_def same_config_def of_int_add
    by (elim conjE) (rule accounts_arith, simp_all only:)
qed

lemma tb_run_ok:
  assumes "tb_run s spent n s'" "system_ok s"
  shows "system_ok s' \<and> same_config (sysBucket s) (sysBucket s') \<and>
    lastRefillTime (sysBucket s) \<le> lastRefillTime (sysBucket s') \<and>
    availableTokens (sysBucket s') + of_int spent \<le> availableTokens (sysBucket s)
      + refill_bound (tokensPerSecond (sysBucket s)) (lastRefillTime (sysBucket s') - lastRefillTime (sysBucket s))
      + of_nat n * (2 * of_int (bucketSize (sysBucket s)) / 2 ^ 53)"
  using assms
proof (induction rule: tb_run.induct)
  case (run_start s)
  then show ?case by (simp add: same_config_def)
next
  case (run_step s spent n s' c s'')
  then have IH: "system_ok s'" "same_config (sysBucket s) (sysBucket s')"
    "lastRefillTime (sysBucket s) \<le> lastRefillTime (sysBucket s')"
    "availableTokens (sysBucket s') + of_int spent \<le> availableTokens (sysBucket s)
      + refill_bound (tokensPerSecond (sysBucket s)) (lastRefillTime (sysBucket s') - lastRefillTime (sysBucket s))
      + of_nat n * (2 * of_int (bucketSize (sysBucket s)) / 2 ^ 53)"
    by blast+
  have st: "system_ok s''" "accounts (sysBucket s') c (sysBucket s'')"
    using tb_step_ok [OF run_step.hyps(2) IH(1)] by blast+
  moreover have "same_config (sysBucket s) (sysBucket s'')"
    "lastRefillTime (sysBucket s) \<le> lastRefillTime (sysBucket s'')"
    using IH st(2) by (auto simp: accounts_def same_config_def)
  moreover note accounts_trans [OF IH(4,2) st(2)]
  ultimately show ?case by blast
qed

lemma initial_system_ok:
  assumes "default_size config < 2 ^ 53"
  shows "system_ok (initial_system config t)"
  using assms default_rate_pos [of config] default_size_nonneg [of config]
  by (simp add: system_ok_def initial_system_def NewTokenBucket_def tb_ok_def waiters_ok_def is_f64_of_int)

section \<open>Properties\<close>

text \<open>
  C13: from a fresh limiter, under every interleaving of calls, waking
  goroutines, notifications and cancellations, the tokens taken for callers, immediate
  grants and grants to reservations together, are bounded by the bucket size, the rate
  times the time between the first and the last refill, and the rounding of the steps.
\<close>

theorem system_rate_limit:
  assumes "default_size config < 2 ^ 53" "tb_run (initial_system config t0) spent n s"
  shows "of_int spent \<le> of_int (default_size config)
    + refill_bound (default_rate config) (lastRefillTime (sysBucket s) - t0)
    + of_nat n * (2 * of_int (default_size config) / 2 ^ 53)"
proof -
  note run = tb_run_ok [OF assms(2) initial_system_ok [OF assms(1)]]
  have "0 \<le> availableTokens (sysBucket s)" using run by (simp add: system_ok_def tb_ok_def)
  moreover have "availableTokens (NewTokenBucket config t0) = of_int (default_size config)"
    using assms(1) default_size_nonneg [of config] by (simp add: NewTokenBucket_def)
  ultimately show ?thesis
    using run by (simp add: initial_system_def) (simp add: NewTokenBucket_def)
qed


definition example_config :: LimiterConfig where
  "example_config = \<lparr>lcType = InMemoryLimiter, lcTokensPerSecond = 2, lcBucketSize = 5,
     lcRedisOptions = None\<rparr>"

lemma example_config_simps [simp]:
  "default_size example_config = 5" "default_rate example_config = 2"
  by (simp_all add: default_size_def default_rate_def example_config_def)

lemma example_config_bucket: "NewTokenBucket example_config 0 = example_bucket"
  by (simp add: example_bucket_def example_config_def)

definition example_run_end :: tb_system where
  "example_run_end =
     \<lparr>sysBucket = snd example_reserve, sysNow = 0,
      sleeping = [the (snd (fst example_reserve))], notifying = []\<rparr>"

lemma example_run: "tb_run (initial_system example_config 0) 0 1 example_run_end"
proof -
  have "tb_step (initial_system example_config 0) 0 example_run_end"
  proof -
    have "tb_step (initial_system example_config 0) 0
      ((initial_system example_config 0)\<lparr>sysBucket := snd example_reserve, sysNow := 0,
         sleeping := the (snd (fst example_reserve)) # sleeping (initial_system example_config 0)\<rparr>)"
      by (rule step_reserve_wait [where t = 0 and newID = "''a-1''" and key = "''k''" and c = 9
            and r = "fst (fst example_reserve)"])
        (simp_all add: initial_system_def example_config_bucket example_reserve_eq id_ok_def,
          simp add: example_reserve_def)
    then show ?thesis by (simp add: example_run_end_def initial_system_def)
  qed
  from run_step [OF run_start this] show ?thesis by simp
qed

theorem system_rate_limit_witness:
  "tb_run (initial_system example_config 0) 0 1 example_run_end \<and>
   (of_int 0 :: rat) \<le> 5 + refill_bound 2 (lastRefillTime (sysBucket example_run_end) - 0) + 1 * (2 * 5 / 2 ^ 53)"
  using system_rate_limit [OF _ example_run] example_run by simp


text \<open>
  NewTokenBucket_can_be_empty: a bucket whose size is left to the default is empty for
  ever, and refuses every request, exactly when its rate is below one token per minute;
  a configured size is always at least one.
\<close>

theorem NewTokenBucket_can_be_empty:
  "(\<forall>t0 k c t. fst (AllowN k c t (NewTokenBucket config t0)) \<noteq> Inr True) \<longleftrightarrow>
     lcBucketSize config \<le> 0 \<and> f64_mul (default_rate config) 60 < 1"
proof -
  have "(\<forall>t0 k c t. fst (AllowN k c t (NewTokenBucket config t0)) \<noteq> Inr True) \<longleftrightarrow>
      default_size config = 0"
  proof
    assume r: "\<forall>t0 k c t. fst (AllowN k c t (NewTokenBucket config t0)) \<noteq> Inr True"
    show "default_size config = 0"
    proof (rule ccontr)
      assume "default_size config \<noteq> 0"
      then have pos: "1 \<le> default_size config"
        using default_size_nonneg [of config] by linarith
      have "f64_of_int 1 \<le> f64_of_int (default_size config)"
        by (rule f64_of_int_mono [OF pos])
      moreover have "f64_add (f64_of_int (default_size config)) 0 = f64_of_int (default_size config)"
        by (simp add: f64_add_def f64_of_int_def)
      ultimately have "fst (AllowN ''k'' 1 0 (NewTokenBucket config 0)) = Inr True"
        by (simp add: AllowN_def Let_def NewTokenBucket_def refill_def time_Sub_def int64_min_def
            int64_max_def Seconds_def go_quot_def go_rem_def f64_of_int_def f64_div_def f64_mul_def
            f64_add_def)
      with r show False by blast
    qed
  next
    assume z: "default_size config = 0"
    show "\<forall>t0 k c t. fst (AllowN k c t (NewTokenBucket config t0)) \<noteq> Inr True"
    proof (intro allI notI)
      fix t0 k c t
      assume g: "fst (AllowN k c t (NewTokenBucket config t0)) = Inr True"
      have "tb_ok (NewTokenBucket config t0)"
        using z default_rate_pos [of config]
        by (simp add: tb_ok_def NewTokenBucket_def is_f64_def)
      from tb.grant_fits [OF this g] have "c \<le> 0"
        by (simp add: NewTokenBucket_def z)
      with g show False by (simp add: AllowN_def)
    qed
  qed
  then show ?thesis by (simp add: default_size_zero_iff)
qed

end
