(* ===== verification/Worker_System.thy ===== *)
theory Worker_System
  imports Worker Token_Bucket_System
begin

text \<open>
  The worker at work (package \<^verbatim>\<open>queue\<close>, files worker.go and fifo_queue.go): the processing loop,
  the goroutines of \<^verbatim>\<open>processItem\<close>, the callers of \<^verbatim>\<open>EnqueueRequest\<close>, the clients that
  receive responses and the queue's clean-up, interleaved at every action on shared state.
  The queue is the in-memory queue, the limiter the in-memory token bucket, and the answers
  come from \<^verbatim>\<open>Service.Process\<close> in an arbitrary environment.
\<close>

section \<open>State\<close>

text \<open>
  The loop: at its head, with a semaphore slot on the way to \<^verbatim>\<open>Dequeue\<close>, waiting for the
  goroutines after a stop, and returned with \<^verbatim>\<open>done\<close> closed.
\<close>

datatype loop_pc = LoopTop | LoopHasSlot | LoopWaiting | LoopDone

text \<open>A call of \<^verbatim>\<open>EnqueueRequest\<close>: after the registration, and after a failed submission.\<close>

datatype submission = SubRegistered QueuedRequest Request | SubFailed string

type_synonym 'b mem_env = "('b InMemoryFIFO, TokenBucket, 'b) worker_env"
type_synonym 'b mem_world = "('b InMemoryFIFO, TokenBucket) world"

definition mem_env :: "(QueuedRequest \<Rightarrow> go_error + 'b) \<Rightarrow> ('b \<Rightarrow> go_error + QueuedRequest) \<Rightarrow> WorkerConfig \<Rightarrow> 'b mem_env" where
  "mem_env enc dec config =
     \<lparr>weEnqueue = Enqueue, weAllow = Allow, weEncode = enc, weDecode = dec,
      weConfig = worker_config config\<rparr>"

text \<open>
  The last seven fields record the history: the ids handed out, the responses sent, the
  items dropped by the clean-up, the submissions refused, the tokens granted, those of the
  requests passed on to the service, and the number of calls of the limiter.
\<close>

record 'b sys =
  syWorld :: "'b mem_world"
  syTasks :: "'b task list"
  syLoop :: loop_pc
  sySem :: nat
  sySubs :: "submission list"
  syCtxDone :: bool
  syStopped :: bool
  syIssued :: "string list"
  sySent :: "(string \<times> Response) list"
  syExpired :: "string list"
  syRejected :: "string list"
  sySpent :: int
  syDispatched :: int
  syCalls :: nat

definition initial_sys :: "LimiterConfig \<Rightarrow> QueueConfig \<Rightarrow> gotime \<Rightarrow> 'b sys" where
  "initial_sys lc qc now =
     \<lparr>syWorld = \<lparr>woQueue = NewInMemoryQueue qc, woLimiter = NewTokenBucket lc now,
                 woRegistry = NewChannelRegistry, woChans = no_chans\<rparr>,
      syTasks = [], syLoop = LoopTop, sySem = 0, sySubs = [], syCtxDone = False, syStopped = False,
      syIssued = [], sySent = [], syExpired = [], syRejected = [],
      sySpent = 0, syDispatched = 0, syCalls = 0\<rparr>"

section \<open>Steps\<close>

text \<open>What \<^verbatim>\<open>llmService.Process\<close> answers in an environment.\<close>

definition service_reply :: "llm_env \<Rightarrow> Service \<Rightarrow> Request \<Rightarrow> llm_reply" where
  "service_reply env svc req =
     (case Process env svc req of
        ((Inl err, lg), req') \<Rightarrow> (Inl err, req')
      | ((Inr resp, lg), req') \<Rightarrow> (Inr (Some resp), req'))"

fun reply_for :: "llm_env \<Rightarrow> Service \<Rightarrow> 'b task \<Rightarrow> llm_reply" where
  "reply_for env svc (TProcess q req ch) = service_reply env svc req"
| "reply_for env svc t = (Inr None, \<lparr>rqProviderName = '''', rqModelName = '''', rqPayload = None\<rparr>)"

text \<open>
  The clock that \<^verbatim>\<open>Allow\<close> reads under the limiter's mutex does not go back; the other
  readings are arbitrary.
\<close>

definition times_ok :: "'b sys \<Rightarrow> task_times \<Rightarrow> bool" where
  "times_ok s tt \<longleftrightarrow> lastRefillTime (woLimiter (syWorld s)) \<le> ttAllow tt"

text \<open>The history that one step of a goroutine adds.\<close>

fun record_step :: "'b task \<Rightarrow> 'b task \<Rightarrow> 'b sys \<Rightarrow> 'b sys" where
  "record_step (TAllow item q req ch) t' s =
     s\<lparr>syCalls := Suc (syCalls s),
       sySpent := (if t' = TProcess q req ch then sySpent s + qrTokenCost q else sySpent s)\<rparr>"
| "record_step (TProcess q req ch) t' s = s\<lparr>syDispatched := syDispatched s + qrTokenCost q\<rparr>"
| "record_step (TSend c i resp) t' s = s\<lparr>sySent := (i, resp) # sySent s\<rparr>"
| "record_step t t' s = s"

definition expired_ids :: "gotime \<Rightarrow> 'b InMemoryFIFO \<Rightarrow> string list" where
  "expired_ids now q =
     map qID (filter (\<lambda>item. \<not> time_Sub now (qEnqueueTime item) < itemTTL q) (items q))"

text \<open>An id is made of ASCII characters, as \<^verbatim>\<open>GenerateShortID\<close> makes it, and new.\<close>

definition plain_id :: "string \<Rightarrow> bool" where
  "plain_id i \<longleftrightarrow> (\<forall>c \<in> set i. (of_char c :: nat) < 128)"

inductive sys_step :: "'b mem_env \<Rightarrow> Service \<Rightarrow> 'b sys \<Rightarrow> 'b sys \<Rightarrow> bool" for we svc where
  sub_register:
    "i \<notin> set (syIssued s) \<Longrightarrow> plain_id i \<Longrightarrow> make_chan 1 (woChans (syWorld s)) = (c, cs) \<Longrightarrow>
     sys_step we svc s
       (s\<lparr>syWorld := (syWorld s)\<lparr>woRegistry := Register i c (woRegistry (syWorld s)), woChans := cs\<rparr>,
          sySubs := SubRegistered (new_request i req cost t) req # sySubs s,
          syIssued := i # syIssued s\<rparr>)"
| sub_accept:
    "sySubs s = pre @ SubRegistered q req # post \<Longrightarrow>
     submit we q req t1 t2 (woQueue (syWorld s)) = (None, queue') \<Longrightarrow>
     sys_step we svc s (s\<lparr>syWorld := (syWorld s)\<lparr>woQueue := queue'\<rparr>, sySubs := pre @ post\<rparr>)"
| sub_reject:
    "sySubs s = pre @ SubRegistered q req # post \<Longrightarrow>
     submit we q req t1 t2 (woQueue (syWorld s)) = (Some err, queue') \<Longrightarrow>
     sys_step we svc s
       (s\<lparr>syWorld := (syWorld s)\<lparr>woQueue := queue'\<rparr>,
          sySubs := pre @ SubFailed (qrRequestID q) # post,
          syRejected := qrRequestID q # syRejected s\<rparr>)"
| sub_cleanup:
    "sySubs s = pre @ SubFailed i # post \<Longrightarrow>
     sys_step we svc s
       (s\<lparr>syWorld := (syWorld s)\<lparr>woRegistry := Remove i (woRegistry (syWorld s))\<rparr>,
          sySubs := pre @ post\<rparr>)"
| client_receive:
    "chan_receive c (woChans (syWorld s)) = Some (resp, cs) \<Longrightarrow>
     sys_step we svc s (s\<lparr>syWorld := (syWorld s)\<lparr>woChans := cs\<rparr>\<rparr>)"
| queue_cleanup:
    "sys_step we svc s
       (s\<lparr>syWorld := (syWorld s)\<lparr>woQueue := cleanupExpired t (woQueue (syWorld s))\<rparr>,
          syExpired := expired_ids t (woQueue (syWorld s)) @ syExpired s\<rparr>)"
| cancel_ctx: "sys_step we svc s (s\<lparr>syCtxDone := True\<rparr>)"
| close_stopCh: "sys_step we svc s (s\<lparr>syStopped := True\<rparr>)"
| loop_stop:
    "syLoop s = LoopTop \<Longrightarrow> syCtxDone s \<or> syStopped s \<Longrightarrow>
     sys_step we svc s (s\<lparr>syLoop := LoopWaiting\<rparr>)"
| loop_acquire:
    "syLoop s = LoopTop \<Longrightarrow> \<not> syCtxDone s \<Longrightarrow> \<not> syStopped s \<Longrightarrow>
     int (sySem s) < wcMaxConcurrent (weConfig we) \<Longrightarrow>
     sys_step we svc s (s\<lparr>sySem := Suc (sySem s), syLoop := LoopHasSlot\<rparr>)"
| loop_dequeue:
    "syLoop s = LoopHasSlot \<Longrightarrow> Dequeue t (woQueue (syWorld s)) = Returns (Inr item, queue') \<Longrightarrow>
     sys_step we svc s
       (s\<lparr>syWorld := (syWorld s)\<lparr>woQueue := queue'\<rparr>, syTasks := TDecode item # syTasks s,
          syLoop := LoopTop\<rparr>)"
| loop_nothing_ready:
    "syLoop s = LoopHasSlot \<Longrightarrow> Dequeue t (woQueue (syWorld s)) = Returns (Inl err, queue') \<Longrightarrow>
     sys_step we svc s
       (s\<lparr>syWorld := (syWorld s)\<lparr>woQueue := queue'\<rparr>, sySem := sySem s - 1, syLoop := LoopTop\<rparr>)"
| loop_dequeue_canceled:
    "syLoop s = LoopHasSlot \<Longrightarrow> items (woQueue (syWorld s)) = [] \<Longrightarrow> syCtxDone s \<Longrightarrow>
     sys_step we svc s (s\<lparr>sySem := sySem s - 1, syLoop := LoopTop\<rparr>)"
| loop_finish:
    "syLoop s = LoopWaiting \<Longrightarrow> syTasks s = [] \<Longrightarrow> sys_step we svc s (s\<lparr>syLoop := LoopDone\<rparr>)"
| task_acts:
    "syTasks s = pre @ t # post \<Longrightarrow> t \<notin> {TRelease, TDone} \<Longrightarrow> times_ok s tt \<Longrightarrow>
     task_step we tt (reply_for env svc t) t (syWorld s) = Returns (t', w') \<Longrightarrow>
     sys_step we svc s (record_step t t' (s\<lparr>syWorld := w', syTasks := pre @ t' # post\<rparr>))"
| task_release:
    "syTasks s = pre @ TRelease # post \<Longrightarrow>
     sys_step we svc s (s\<lparr>sySem := sySem s - 1, syTasks := pre @ TDone # post\<rparr>)"
| task_done:
    "syTasks s = pre @ TDone # post \<Longrightarrow> sys_step we svc s (s\<lparr>syTasks := pre @ post\<rparr>)"

inductive_cases sys_stepE: "sys_step we svc s s'"

inductive sys_reach :: "'b mem_env \<Rightarrow> Service \<Rightarrow> 'b sys \<Rightarrow> 'b sys \<Rightarrow> bool" for we svc s0 where
  reach_start: "sys_reach we svc s0 s0"
| reach_step: "sys_reach we svc s0 s \<Longrightarrow> sys_step we svc s s' \<Longrightarrow> sys_reach we svc s0 s'"

section \<open>The semaphore\<close>

definition slots_held :: "'b sys \<Rightarrow> nat" where
  "slots_held s =
     length (filter (\<lambda>t. t \<noteq> TDone) (syTasks s)) + (if syLoop s = LoopHasSlot then 1 else 0)"

definition sem_ok :: "'b mem_env \<Rightarrow> 'b sys \<Rightarrow> bool" where
  "sem_ok we s \<longleftrightarrow>
     sySem s = slots_held s \<and> int (sySem s) \<le> wcMaxConcurrent (weConfig we) \<and>
     (syLoop s = LoopDone \<longrightarrow> syTasks s = []) \<and>
     (syLoop s \<in> {LoopWaiting, LoopDone} \<longrightarrow> syCtxDone s \<or> syStopped s)"

lemma record_step_frame [simp]:
  "syTasks (record_step t t' s) = syTasks s" "syLoop (record_step t t' s) = syLoop s"
  "sySem (record_step t t' s) = sySem s" "syWorld (record_step t t' s) = syWorld s"
  "sySubs (record_step t t' s) = sySubs s" "syIssued (record_step t t' s) = syIssued s"
  "syExpired (record_step t t' s) = syExpired s" "syRejected (record_step t t' s) = syRejected s"
  "syCtxDone (record_step t t' s) = syCtxDone s" "syStopped (record_step t t' s) = syStopped s"
  by (cases t; simp)+

lemma task_step_not_done:
  "task_step we tt reply t w = Returns (t', w') \<Longrightarrow> t \<notin> {TRelease, TDone} \<Longrightarrow> t' \<noteq> TDone"
  by (cases t) (auto simp: reply_or_release_def Let_def chan_send_def split: sum.splits option.splits prod.splits if_splits)

lemma sem_step: "sys_step we svc s s' \<Longrightarrow> sem_ok we s \<Longrightarrow> sem_ok we s'"
proof (induction rule: sys_step.induct)
  case (task_acts s pre t post tt env t' w')
  then show ?case
    using task_step_not_done [OF task_acts(4,2)] by (auto simp: sem_ok_def slots_held_def)
qed (auto simp: sem_ok_def slots_held_def)

lemma sem_initial: "0 \<le> wcMaxConcurrent (weConfig we) \<Longrightarrow> sem_ok we (initial_sys lc qc now)"
  by (simp add: sem_ok_def slots_held_def initial_sys_def)

lemma sys_reach_invariant:
  assumes "sys_reach we svc s0 s" "P s0" "\<And>s s'. sys_step we svc s s' \<Longrightarrow> P s \<Longrightarrow> P s'"
  shows "P s"
  using assms(1) by (induction rule: sys_reach.induct) (auto intro: assms(2,3))

section \<open>Where a request is\<close>

text \<open>
  An id is live while its item waits in the queue, is in the hands of a goroutine that has not
  answered it, or its submission has not finished.
\<close>

fun task_live :: "'b task \<Rightarrow> string list" where
  "task_live (TDecode item) = [qID item]"
| "task_live (TGet item q req) = [qID item]"
| "task_live (TAllow item q req ch) = [qID item]"
| "task_live (TReenqueue item q req ch) = [qID item]"
| "task_live (TProcess q req ch) = [qrRequestID q]"
| "task_live (TSend c i resp) = [i]"
| "task_live t = []"

fun sub_live :: "submission \<Rightarrow> string list" where
  "sub_live (SubRegistered q req) = [qrRequestID q]"
| "sub_live (SubFailed i) = []"

definition live :: "'b sys \<Rightarrow> string list" where
  "live s = map qID (items (woQueue (syWorld s))) @ concat (map task_live (syTasks s)) @
     concat (map sub_live (sySubs s))"

definition whereabouts :: "'b sys \<Rightarrow> string list" where
  "whereabouts s = live s @ map fst (sySent s) @ syExpired s @ syRejected s"

definition good_item :: "'b mem_env \<Rightarrow> 'b QueueItem \<Rightarrow> bool" where
  "good_item we item \<longleftrightarrow>
     (\<exists>q req. weDecode we (qData item) = Inr q \<and> qrRequest q = Some req \<and> qrRequestID q = qID item)"

text \<open>What a goroutine knows about the registry at each point.\<close>

fun task_inv :: "'b mem_env \<Rightarrow> ChannelRegistry \<Rightarrow> 'b task \<Rightarrow> bool" where
  "task_inv we R (TDecode item) = good_item we item"
| "task_inv we R (TGet item q req) = (good_item we item \<and> qrRequestID q = qID item)"
| "task_inv we R (TAllow item q req ch) =
     (good_item we item \<and> qrRequestID q = qID item \<and> ch = Get (qID item) R)"
| "task_inv we R (TReenqueue item q req ch) =
     (good_item we item \<and> qrRequestID q = qID item \<and> ch = Get (qID item) R)"
| "task_inv we R (TProcess q req ch) = (ch = Get (qrRequestID q) R)"
| "task_inv we R (TSend c i resp) = (Get i R = Some c)"
| "task_inv we R t = True"

text \<open>
  The code relies on the encoding of queued requests to bring back the id, the cost and
  the presence of the request.
\<close>

definition codec_ok :: "(QueuedRequest \<Rightarrow> go_error + 'b) \<Rightarrow> ('b \<Rightarrow> go_error + QueuedRequest) \<Rightarrow> bool" where
  "codec_ok enc dec \<longleftrightarrow>
     (\<forall>q d. plain_id (qrRequestID q) \<longrightarrow> enc q = Inr d \<longrightarrow>
        (\<exists>q'. dec d = Inr q' \<and> qrRequestID q' = qrRequestID q \<and> qrTokenCost q' = qrTokenCost q \<and>
           (qrRequest q' = None \<longleftrightarrow> qrRequest q = None)))"

text \<open>The ids that are about to be removed from the registry.\<close>

fun task_removing :: "'b task \<Rightarrow> string list" where
  "task_removing (TRemove i) = [i]"
| "task_removing t = []"

fun sub_removing :: "submission \<Rightarrow> string list" where
  "sub_removing (SubFailed i) = [i]"
| "sub_removing x = []"

definition removing :: "'b sys \<Rightarrow> string list" where
  "removing s = concat (map task_removing (syTasks s)) @ concat (map sub_removing (sySubs s))"

definition ids_ok :: "'b mem_env \<Rightarrow> 'b sys \<Rightarrow> bool" where
  "ids_ok we s \<longleftrightarrow>
     distinct (whereabouts s) \<and> set (whereabouts s) = set (syIssued s) \<and>
     list_all plain_id (syIssued s) \<and>
     list_all (good_item we) (items (woQueue (syWorld s))) \<and>
     list_all (task_inv we (woRegistry (syWorld s))) (syTasks s) \<and>
     (\<forall>q req. SubRegistered q req \<in> set (sySubs s) \<longrightarrow> qrRequest q \<noteq> None) \<and>
     distinct (removing s) \<and> set (removing s) \<subseteq> set (map fst (sySent s)) \<union> set (syRejected s) \<and>
     registered (woRegistry (syWorld s)) = set (live s) \<union> set (removing s) \<union> set (syExpired s)"

text \<open>Different ids hold different channels, of capacity one, empty while the id is live.\<close>

definition chans_ok :: "'b sys \<Rightarrow> bool" where
  "chans_ok s \<longleftrightarrow>
     (let R = woRegistry (syWorld s); C = woChans (syWorld s) in
      (\<forall>i j c. Get i R = Some c \<longrightarrow> Get j R = Some c \<longrightarrow> i = j) \<and>
      (\<forall>i c. Get i R = Some c \<longrightarrow> c < chNext C \<and> chCap C c = 1) \<and>
      (\<forall>i c. i \<in> set (live s) \<longrightarrow> Get i R = Some c \<longrightarrow> chBuf C c = []))"

lemma task_inv_cong:
  "(\<And>i. i \<in> set (task_live t) \<Longrightarrow> Get i R' = Get i R) \<Longrightarrow> task_inv we R t \<Longrightarrow> task_inv we R' t"
  by (cases t) auto

lemma good_item_data:
  "qData item' = qData item \<Longrightarrow> qID item' = qID item \<Longrightarrow> good_item we item \<Longrightarrow> good_item we item'"
  by (simp add: good_item_def)

lemma good_item_stamp [simp]: "good_item we (stamp t item) = good_item we item"
  by (simp add: good_item_def)

lemma good_item_delayed [simp]: "good_item we (delayed_item d tt item) = good_item we item"
  by (simp add: good_item_def delayed_item_def)

lemma delayed_item_id [simp]: "qID (delayed_item d tt item) = qID item"
  by (simp add: delayed_item_def)

text \<open>Moving ids around keeps them distinct.\<close>

lemma whereabouts_moved:
  assumes "mset (whereabouts s') = mset (whereabouts s)" "syIssued s' = syIssued s"
  shows "distinct (whereabouts s') = distinct (whereabouts s)"
    "(set (whereabouts s') = set (syIssued s')) = (set (whereabouts s) = set (syIssued s))"
  using mset_eq_imp_distinct_iff [OF assms(1)] mset_eq_setD [OF assms(1)] assms(2) by simp_all

lemma Enqueue_result:
  assumes "Enqueue t (Some item) Q = (e, Q')"
  shows "(e = None \<and> items Q' = items Q @ [stamp t item]) \<or> (e \<noteq> None \<and> items Q' = items Q)"
  using assms by (cases e) (auto dest: mem.enq_accepts mem.enq_rejects)

lemma submit_result:
  assumes "submit (mem_env enc dec config) q req t1 t2 Q = (e, Q')" "codec_ok enc dec"
    "plain_id (qrRequestID q)" "qrRequest q \<noteq> None"
  shows "(e = None \<and> (\<exists>item. items Q' = items Q @ [item] \<and> qID item = qrRequestID q \<and>
             good_item (mem_env enc dec config) item)) \<or>
         (e \<noteq> None \<and> items Q' = items Q)"
proof (cases "enc q")
  case (Inl err)
  then show ?thesis using assms(1) by (auto simp: submit_def mem_env_def)
next
  case (Inr d)
  let ?item = "new_item q req d t1"
  obtain q' where q': "dec d = Inr q'" "qrRequestID q' = qrRequestID q" "qrRequest q' \<noteq> None"
    using assms(2-4) Inr unfolding codec_ok_def by metis
  have good: "good_item (mem_env enc dec config) ?item"
    using q' by (auto simp: good_item_def new_item_def mem_env_def)
  obtain e0 where enq: "Enqueue t2 (Some ?item) Q = (e0, Q')" and e: "e = None \<longleftrightarrow> e0 = None"
    using assms(1) Inr by (auto simp: submit_def mem_env_def split: prod.splits option.splits)
  have "qID (stamp t2 ?item) = qrRequestID q"
    by (simp add: new_item_def)
  then show ?thesis
    using Enqueue_result [OF enq] good e by auto
qed

section \<open>One step of a goroutine\<close>

fun sent_by :: "'b task \<Rightarrow> string list" where
  "sent_by (TSend c i resp) = [i]"
| "sent_by t = []"

fun registry_after :: "'b task \<Rightarrow> ChannelRegistry \<Rightarrow> ChannelRegistry" where
  "registry_after (TRemove i) R = Remove i R"
| "registry_after t R = R"

lemma reply_task [simp]:
  "ch = Some c \<Longrightarrow> reply_or_release ch i resp = TSend c i resp"
  by (simp add: reply_or_release_def)

lemma task_step_effect:
  assumes "task_step (mem_env enc dec config) tt reply t w = Returns (t', w')" "t \<notin> {TRelease, TDone}"
    and "task_inv (mem_env enc dec config) (woRegistry w) t"
    and "list_all (good_item (mem_env enc dec config)) (items (woQueue w))"
    and "set (task_live t) \<subseteq> registered (woRegistry w)"
  shows "mset (map qID (items (woQueue w')) @ task_live t' @ sent_by t)
      = mset (map qID (items (woQueue w)) @ task_live t) \<and>
    list_all (good_item (mem_env enc dec config)) (items (woQueue w')) \<and>
    woRegistry w' = registry_after t (woRegistry w) \<and>
    task_inv (mem_env enc dec config) (woRegistry w) t' \<and>
    task_removing t' = sent_by t"
proof (cases t)
  case (TDecode item)
  then show ?thesis
    using assms by (auto simp: good_item_def)
next
  case (TGet item q req)
  then show ?thesis
    using assms by auto
next
  case (TAllow item q req ch)
  then obtain c where "ch = Some c" "Get (qID item) (woRegistry w) = Some c" "qrRequestID q = qID item"
    using assms(3,5) by (auto simp: registered_iff)
  then show ?thesis
    using assms TAllow by (auto simp: Let_def split: prod.splits sum.splits if_splits)
next
  case (TReenqueue item q req ch)
  then obtain c where c: "ch = Some c" "Get (qID item) (woRegistry w) = Some c" "qrRequestID q = qID item"
    using assms(3,5) by (auto simp: registered_iff)
  let ?item = "delayed_item (wcRetryDelay (worker_config config)) tt item"
  obtain e Q' where enq: "Enqueue (ttQueue tt) (Some ?item) (woQueue w) = (e, Q')"
    by fastforce
  have step: "w' = w\<lparr>woQueue := Q'\<rparr>"
    "t' = (case e of None \<Rightarrow> TRelease | Some err \<Rightarrow> TSend c (qID item) (error_response req err))"
    using assms(1) enq c by (auto simp: TReenqueue mem_env_def split: option.splits)
  show ?thesis
    using Enqueue_result [OF enq] assms(3,4) c TReenqueue by (cases e) (auto simp: step)
next
  case (TProcess q req ch)
  then obtain c where "ch = Some c" "Get (qrRequestID q) (woRegistry w) = Some c"
    using assms(3,5) by (auto simp: registered_iff)
  then show ?thesis
    using assms TProcess by (auto split: prod.splits sum.splits option.splits)
next
  case (TSend c i resp)
  then show ?thesis
    using assms by (auto simp: chan_send_def split: if_splits)
qed (use assms in auto)

text \<open>A goroutine touches the channels only to send.\<close>

lemma task_step_chans:
  assumes "task_step we tt reply t w = Returns (t', w')" "\<forall>c i resp. t \<noteq> TSend c i resp"
  shows "woChans w' = woChans w"
  using assms by (cases t) (auto simp: Let_def split: prod.splits sum.splits option.splits if_splits)

section \<open>No request is lost or answered twice\<close>

lemma live_registered: "ids_ok we s \<Longrightarrow> set (live s) \<subseteq> registered (woRegistry (syWorld s))"
  by (auto simp: ids_ok_def)

lemma ids_okI:
  assumes "ids_ok we s" "mset (whereabouts s') = mset (whereabouts s)" "syIssued s' = syIssued s"
    and "list_all (good_item we) (items (woQueue (syWorld s')))"
    and "list_all (task_inv we (woRegistry (syWorld s'))) (syTasks s')"
    and "\<forall>q req. SubRegistered q req \<in> set (sySubs s') \<longrightarrow> qrRequest q \<noteq> None"
    and "distinct (removing s')"
    and "set (removing s') \<subseteq> set (map fst (sySent s')) \<union> set (syRejected s')"
    and "registered (woRegistry (syWorld s')) = set (live s') \<union> set (removing s') \<union> set (syExpired s')"
  shows "ids_ok we s'"
  using assms whereabouts_moved [OF assms(2,3)] by (simp add: ids_ok_def)

text \<open>Removing an id that is no longer live does not disturb the goroutines.\<close>

lemma task_inv_remove:
  assumes "list_all (task_inv we R) ts" "i \<notin> set (concat (map task_live ts))"
  shows "list_all (task_inv we (Remove i R)) ts"
  unfolding list_all_iff
proof
  fix t assume t: "t \<in> set ts"
  show "task_inv we (Remove i R) t"
  proof (rule task_inv_cong)
    show "Get j (Remove i R) = Get j R" if "j \<in> set (task_live t)" for j
      using that t assms(2) by (auto simp: registry.get_remove)
    show "task_inv we R t" using assms(1) t by (simp add: list_all_iff)
  qed
qed

lemma task_inv_register:
  assumes "list_all (task_inv we R) ts" "i \<notin> set (concat (map task_live ts))"
  shows "list_all (task_inv we (Register i c R)) ts"
  unfolding list_all_iff
proof
  fix t assume t: "t \<in> set ts"
  show "task_inv we (Register i c R) t"
  proof (rule task_inv_cong)
    show "Get j (Register i c R) = Get j R" if "j \<in> set (task_live t)" for j
      using that t assms(2) by (auto simp: registry.get_register)
    show "task_inv we R t" using assms(1) t by (simp add: list_all_iff)
  qed
qed

lemma removing_not_live:
  assumes "ids_ok we s" "i \<in> set (removing s)"
  shows "i \<notin> set (live s)" "i \<notin> set (syExpired s)"
proof -
  have "distinct (whereabouts s)" "set (removing s) \<subseteq> set (map fst (sySent s)) \<union> set (syRejected s)"
    using assms(1) by (simp_all add: ids_ok_def)
  with assms(2) show "i \<notin> set (live s)" "i \<notin> set (syExpired s)"
    by (auto simp: whereabouts_def)
qed

lemma task_acts_effect:
  assumes "ids_ok (mem_env enc dec config) s" "syTasks s = pre @ t # post" "t \<notin> {TRelease, TDone}"
    "task_step (mem_env enc dec config) tt reply t (syWorld s) = Returns (t', w')"
    "s' = record_step t t' (s\<lparr>syWorld := w', syTasks := pre @ t' # post\<rparr>)"
  shows "mset (map qID (items (woQueue w')) @ task_live t' @ sent_by t)
      = mset (map qID (items (woQueue (syWorld s))) @ task_live t)"
    "list_all (good_item (mem_env enc dec config)) (items (woQueue w'))"
    "woRegistry w' = registry_after t (woRegistry (syWorld s))"
    "task_inv (mem_env enc dec config) (woRegistry (syWorld s)) t'" "task_removing t' = sent_by t"
    "set (live s') \<union> set (sent_by t) = set (live s)" "distinct (live s' @ sent_by t)"
proof -
  let ?we = "mem_env enc dec config" and ?R = "woRegistry (syWorld s)"
  have inv: "task_inv ?we ?R t" "list_all (good_item ?we) (items (woQueue (syWorld s)))"
    using assms(1,2) by (simp_all add: ids_ok_def)
  have reg: "set (task_live t) \<subseteq> registered ?R"
    using live_registered [OF assms(1)] assms(2) by (simp add: live_def)
  note eff = task_step_effect [OF assms(4,3) inv reg]
  have m: "mset (live s' @ sent_by t) = mset (live s)"
    using eff assms(2,5) by (simp add: live_def)
  show "mset (map qID (items (woQueue w')) @ task_live t' @ sent_by t)
      = mset (map qID (items (woQueue (syWorld s))) @ task_live t)"
    "list_all (good_item ?we) (items (woQueue w'))" "woRegistry w' = registry_after t ?R"
    "task_inv ?we ?R t'" "task_removing t' = sent_by t"
    using eff by blast+
  show "set (live s') \<union> set (sent_by t) = set (live s)"
    using mset_eq_setD [OF m] by simp
  show "distinct (live s' @ sent_by t)"
    using mset_eq_imp_distinct_iff [OF m] assms(1) by (simp add: ids_ok_def whereabouts_def)
qed

lemma ids_step_task:
  assumes "ids_ok (mem_env enc dec config) s" "syTasks s = pre @ t # post" "t \<notin> {TRelease, TDone}"
    "task_step (mem_env enc dec config) tt reply t (syWorld s) = Returns (t', w')"
  shows "ids_ok (mem_env enc dec config) (record_step t t' (s\<lparr>syWorld := w', syTasks := pre @ t' # post\<rparr>))"
    (is "ids_ok ?we ?s'")
proof -
  let ?R = "woRegistry (syWorld s)"
  have inv: "list_all (task_inv ?we ?R) pre" "list_all (task_inv ?we ?R) post"
    using assms(1,2) by (simp_all add: ids_ok_def)
  note eff = task_acts_effect [OF assms refl]
  have sent: "map fst (sySent ?s') = sent_by t @ map fst (sySent s)"
    by (cases t) simp_all
  have rem: "i \<notin> set (concat (map task_live (pre @ t' # post)))" if "t = TRemove i" for i
  proof -
    have "i \<notin> set (live s)"
      using removing_not_live(1) [OF assms(1), of i] assms(2) that by (simp add: removing_def)
    moreover have "t' = TRelease" using assms(4) that by simp
    ultimately show ?thesis using assms(2) by (auto simp: live_def)
  qed
  have tasks: "list_all (task_inv ?we (woRegistry w')) (pre @ t' # post)"
  proof (cases "\<exists>i. t = TRemove i")
    case True
    then obtain i where i: "t = TRemove i" by blast
    then have "woRegistry w' = Remove i ?R" using eff by simp
    moreover have "list_all (task_inv ?we ?R) (pre @ t' # post)"
      using eff inv by simp
    ultimately show ?thesis using task_inv_remove rem [OF i] by metis
  next
    case False
    then have "woRegistry w' = ?R" using eff by (cases t) simp_all
    then show ?thesis using eff inv by simp
  qed
  have moved: "mset (whereabouts ?s') = mset (whereabouts s)"
    using eff assms(2) by (simp add: whereabouts_def live_def sent)
  have old: "distinct (removing s)" "set (removing s) \<subseteq> set (map fst (sySent s)) \<union> set (syRejected s)"
    "registered ?R = set (live s) \<union> set (removing s) \<union> set (syExpired s)"
    using assms(1) by (simp_all add: ids_ok_def)
  note live = eff(6,7)
  have rest: "distinct (removing ?s') \<and>
      set (removing ?s') \<subseteq> set (map fst (sySent ?s')) \<union> set (syRejected ?s') \<and>
      registered (woRegistry w') = set (live ?s') \<union> set (removing ?s') \<union> set (syExpired ?s')"
  proof (cases "\<exists>i. t = TRemove i")
    case True
    then obtain i where i: "t = TRemove i" by blast
    then have t': "t' = TRelease" using assms(4) by simp
    have "i \<notin> set (live s)" "i \<notin> set (syExpired s)"
      using removing_not_live [OF assms(1), of i] i assms(2) by (simp_all add: removing_def)
    then show ?thesis
      using old eff live assms(2) unfolding i t' by (auto simp: removing_def)
  next
    case False
    then have no: "task_removing t = []" "woRegistry w' = ?R"
      using eff by (cases t; simp)+
    have "set (sent_by t) \<subseteq> set (live s)" "distinct (sent_by t)"
      using live by auto
    moreover have "set (live s) \<inter> set (removing s) = {}"
      using removing_not_live(1) [OF assms(1)] by blast
    ultimately show ?thesis
      using old eff live assms(2) no by (auto simp: removing_def sent)
  qed
  show ?thesis
    using eff tasks rest assms(1) moved by (intro ids_okI [OF assms(1)]) (simp_all add: ids_ok_def)
qed

lemma mset_map_partition:
  "mset (map f (filter P xs)) + mset (map f (filter (\<lambda>x. \<not> P x) xs)) = mset (map f xs)"
  by (induction xs) auto

lemma expired_split:
  "mset (map qID (items (cleanupExpired t Q))) + mset (expired_ids t Q) = mset (map qID (items Q))"
  unfolding cleanup_drops_exactly_expired expired_ids_def by (rule mset_map_partition)

text \<open>The steps that only pass an item or a submission on.\<close>

lemma ids_step_register:
  assumes "ids_ok we s" "i \<notin> set (syIssued s)" "plain_id i"
  shows "ids_ok we
    (s\<lparr>syWorld := (syWorld s)\<lparr>woRegistry := Register i c (woRegistry (syWorld s)), woChans := cs\<rparr>,
       sySubs := SubRegistered (new_request i req cost t) req # sySubs s,
       syIssued := i # syIssued s\<rparr>)" (is "ids_ok we ?s'")
proof -
  have old: "distinct (whereabouts s)" "set (whereabouts s) = set (syIssued s)"
    using assms(1) by (simp_all add: ids_ok_def)
  then have new: "i \<notin> set (whereabouts s)" using assms(2) by simp
  have m: "mset (whereabouts ?s') = mset (i # whereabouts s)"
    by (simp add: whereabouts_def live_def new_request_def)
  have "distinct (whereabouts ?s')" "set (whereabouts ?s') = set (syIssued ?s')"
    using mset_eq_imp_distinct_iff [OF m] mset_eq_setD [OF m] old new by simp_all
  moreover have "i \<notin> set (concat (map task_live (syTasks s)))"
    using new by (auto simp: whereabouts_def live_def)
  then have "list_all (task_inv we (Register i c (woRegistry (syWorld s)))) (syTasks s)"
    using assms(1) by (intro task_inv_register) (simp_all add: ids_ok_def)
  moreover have "set (live ?s') = insert i (set (live s))" "removing ?s' = removing s"
    by (auto simp: live_def removing_def new_request_def)
  ultimately show ?thesis
    using assms(1,3) by (auto simp: ids_ok_def new_request_def)
qed

lemma ids_step_submit:
  assumes "ids_ok (mem_env enc dec config) s" "codec_ok enc dec"
    and "sySubs s = pre @ SubRegistered q req # post"
    and "submit (mem_env enc dec config) q req t1 t2 (woQueue (syWorld s)) = (e, queue')"
  shows "ids_ok (mem_env enc dec config)
    (case e of
       None \<Rightarrow> s\<lparr>syWorld := (syWorld s)\<lparr>woQueue := queue'\<rparr>, sySubs := pre @ post\<rparr>
     | Some err \<Rightarrow>
         s\<lparr>syWorld := (syWorld s)\<lparr>woQueue := queue'\<rparr>,
           sySubs := pre @ SubFailed (qrRequestID q) # post,
           syRejected := qrRequestID q # syRejected s\<rparr>)" (is "ids_ok ?we _")
proof -
  let ?i = "qrRequestID q"
  have here: "?i \<in> set (live s)" "?i \<in> set (whereabouts s)"
    using assms(3) by (simp_all add: live_def whereabouts_def)
  then have "plain_id ?i" "qrRequest q \<noteq> None"
    using assms(1,3) by (auto simp: ids_ok_def list_all_iff)
  note r = submit_result [OF assms(4,2) this]
  have notrem: "?i \<notin> set (removing s)"
    using removing_not_live(1) [OF assms(1)] here(1) by blast
  show ?thesis
  proof (cases e)
    case None
    with r obtain item where item: "items queue' = items (woQueue (syWorld s)) @ [item]" "qID item = ?i"
      "good_item ?we item" by auto
    let ?s' = "s\<lparr>syWorld := (syWorld s)\<lparr>woQueue := queue'\<rparr>, sySubs := pre @ post\<rparr>"
    have m: "mset (live ?s') = mset (live s)"
      using item assms(3) by (simp add: live_def)
    have "mset (whereabouts ?s') = mset (whereabouts s)"
      using m by (simp add: whereabouts_def)
    moreover have "removing ?s' = removing s"
      using assms(3) by (simp add: removing_def)
    ultimately have "ids_ok ?we ?s'"
      using assms(1,3) item mset_eq_setD [OF m] by (intro ids_okI [OF assms(1)]) (auto simp: ids_ok_def)
    then show ?thesis by (simp add: None)
  next
    case (Some err)
    with r have items: "items queue' = items (woQueue (syWorld s))" by simp
    let ?s' = "s\<lparr>syWorld := (syWorld s)\<lparr>woQueue := queue'\<rparr>,
           sySubs := pre @ SubFailed ?i # post, syRejected := ?i # syRejected s\<rparr>"
    have "mset (whereabouts ?s') = mset (whereabouts s)"
      using items assms(3) by (simp add: whereabouts_def live_def)
    moreover have "distinct (removing ?s')" "set (removing ?s') = insert ?i (set (removing s))"
      "insert ?i (set (live ?s')) = set (live s)"
      using assms(1,3) notrem items by (auto simp: removing_def ids_ok_def live_def)
    ultimately have "ids_ok ?we ?s'"
      using assms(1,3) items by (intro ids_okI [OF assms(1)]) (auto simp: ids_ok_def)
    then show ?thesis by (simp add: Some)
  qed
qed

lemma ids_step_cleanup:
  assumes "ids_ok we s" "sySubs s = pre @ SubFailed i # post"
  shows "ids_ok we (s\<lparr>syWorld := (syWorld s)\<lparr>woRegistry := Remove i (woRegistry (syWorld s))\<rparr>,
     sySubs := pre @ post\<rparr>)" (is "ids_ok we ?s'")
proof -
  have i: "i \<in> set (removing s)" using assms(2) by (simp add: removing_def)
  note gone = removing_not_live [OF assms(1) i]
  have same: "live ?s' = live s" using assms(2) by (simp add: live_def)
  have "list_all (task_inv we (Remove i (woRegistry (syWorld s)))) (syTasks s)"
    using assms(1) gone by (intro task_inv_remove) (auto simp: ids_ok_def live_def)
  moreover have "distinct (removing ?s')" "set (removing ?s') = set (removing s) - {i}"
    using assms by (auto simp: removing_def ids_ok_def)
  ultimately show ?thesis
    using assms gone same by (intro ids_okI [OF assms(1)]) (auto simp: ids_ok_def whereabouts_def)
qed

lemma ids_step_expire:
  assumes "ids_ok we s"
  shows "ids_ok we (s\<lparr>syWorld := (syWorld s)\<lparr>woQueue := cleanupExpired t (woQueue (syWorld s))\<rparr>,
     syExpired := expired_ids t (woQueue (syWorld s)) @ syExpired s\<rparr>)" (is "ids_ok we ?s'")
proof -
  let ?Q = "woQueue (syWorld s)"
  have m: "mset (live ?s') + mset (expired_ids t ?Q) = mset (live s)"
    using expired_split [of t ?Q] by (simp add: live_def add.assoc add.left_commute)
  then have "mset (whereabouts ?s') = mset (whereabouts s)"
    by (simp add: whereabouts_def)
  moreover have "set (live ?s') \<union> set (expired_ids t ?Q) = set (live s)"
    using arg_cong [OF m, of set_mset] by simp
  moreover have "removing ?s' = removing s" by (simp add: removing_def)
  moreover have "list_all (good_item we) (items (cleanupExpired t ?Q))"
    using assms by (auto simp: ids_ok_def list_all_iff cleanup_drops_exactly_expired)
  ultimately show ?thesis
    using assms by (intro ids_okI [OF assms]) (auto simp: ids_ok_def)
qed

lemma ids_step_dequeue:
  assumes "ids_ok we s" "Dequeue t (woQueue (syWorld s)) = Returns (Inr item, queue')"
  shows "ids_ok we (s\<lparr>syWorld := (syWorld s)\<lparr>woQueue := queue'\<rparr>, syTasks := TDecode item # syTasks s,
          syLoop := LoopTop\<rparr>)" (is "ids_ok we ?s'")
proof -
  obtain pre post where "items (woQueue (syWorld s)) = pre @ item # post"
    "queue' = (woQueue (syWorld s))\<lparr>items := pre @ post\<rparr>"
    "\<forall>x \<in> set pre. \<not> item_ready t x" "item_ready t item"
    by (rule Dequeue_cases [OF assms(2)])
  then have split: "items (woQueue (syWorld s)) = pre @ item # post" "items queue' = pre @ post"
    by simp_all
  have m: "mset (live ?s') = mset (live s)"
    using split by (simp add: live_def)
  then have "mset (whereabouts ?s') = mset (whereabouts s)"
    by (simp add: whereabouts_def)
  moreover have "removing ?s' = removing s" by (simp add: removing_def)
  ultimately show ?thesis
    using assms(1) split mset_eq_setD [OF m] by (intro ids_okI [OF assms(1)]) (auto simp: ids_ok_def)
qed

text \<open>The steps that move no item and no submission.\<close>

lemma ids_ok_same:
  assumes "ids_ok we s" "whereabouts s' = whereabouts s" "live s' = live s" "removing s' = removing s"
    "syIssued s' = syIssued s" "items (woQueue (syWorld s')) = items (woQueue (syWorld s))"
    "woRegistry (syWorld s') = woRegistry (syWorld s)" "sySubs s' = sySubs s" "sySent s' = sySent s"
    "syExpired s' = syExpired s" "syRejected s' = syRejected s"
    "list_all (task_inv we (woRegistry (syWorld s))) (syTasks s')"
  shows "ids_ok we s'"
  using assms(1) unfolding ids_ok_def assms(2-11) by (elim conjE, intro conjI assms(12))

lemmas place_defs = whereabouts_def live_def removing_def

lemma ids_ok_tasks [simp]:
  "ids_ok we s \<Longrightarrow> list_all (task_inv we (woRegistry (syWorld s))) (syTasks s)"
  by (simp add: ids_ok_def)

lemma ids_ok_release:
  assumes "ids_ok we s" "syTasks s = pre @ TRelease # post"
  shows "ids_ok we (s\<lparr>sySem := n, syTasks := pre @ TDone # post\<rparr>)"
proof (rule ids_ok_same [OF assms(1)])
  show "list_all (task_inv we (woRegistry (syWorld s)))
      (syTasks (s\<lparr>sySem := n, syTasks := pre @ TDone # post\<rparr>))"
    using assms by (simp add: ids_ok_def)
qed (simp_all add: place_defs assms(2))

lemma ids_ok_done:
  assumes "ids_ok we s" "syTasks s = pre @ TDone # post"
  shows "ids_ok we (s\<lparr>syTasks := pre @ post\<rparr>)"
proof (rule ids_ok_same [OF assms(1)])
  show "list_all (task_inv we (woRegistry (syWorld s))) (syTasks (s\<lparr>syTasks := pre @ post\<rparr>))"
    using assms by (simp add: ids_ok_def)
qed (simp_all add: place_defs assms(2))

lemma ids_step:
  assumes "sys_step (mem_env enc dec config) svc s s'" "codec_ok enc dec"
    "ids_ok (mem_env enc dec config) s"
  shows "ids_ok (mem_env enc dec config) s'"
  using assms(1,3)
proof (induction rule: sys_step.induct)
  case (sub_register i s c cs req cost t)
  then show ?case by (intro ids_step_register)
next
  case (sub_accept s pre q req post t1 t2 queue')
  then show ?case using ids_step_submit [OF sub_accept(3) assms(2) sub_accept(1,2)] by simp
next
  case (sub_reject s pre q req post t1 t2 err queue')
  then show ?case using ids_step_submit [OF sub_reject(3) assms(2) sub_reject(1,2)] by simp
next
  case (sub_cleanup s pre i post)
  then show ?case by (intro ids_step_cleanup)
next
  case (queue_cleanup s t)
  then show ?case by (intro ids_step_expire)
next
  case (loop_dequeue s t item queue')
  then show ?case by (intro ids_step_dequeue)
next
  case (loop_nothing_ready s t err queue')
  then have "items queue' = items (woQueue (syWorld s))"
    by (auto simp: Dequeue_def split: if_splits option.splits)
  then show ?case
    using loop_nothing_ready(3) by (intro ids_ok_same [OF loop_nothing_ready(3)]) (simp_all add: place_defs)
next
  case (task_acts s pre t post tt env t' w')
  then show ?case by (intro ids_step_task)
next
  case (task_release s pre post)
  then show ?case by (intro ids_ok_release)
next
  case (task_done s pre post)
  then show ?case by (intro ids_ok_done)
qed ((rule ids_ok_same, assumption); simp add: place_defs)+

lemma ids_initial: "ids_ok we (initial_sys lc qc now)"
  by (simp add: ids_ok_def initial_sys_def whereabouts_def live_def removing_def NewInMemoryQueue_def)

section \<open>Response channels\<close>

lemma chans_initial: "chans_ok (initial_sys lc qc now)"
  by (simp add: chans_ok_def initial_sys_def Let_def NewChannelRegistry_def Get_def)

text \<open>Nothing but a registration adds to the registry or makes an id live.\<close>

lemma chans_ok_mono:
  assumes "chans_ok s"
    and "\<And>i c. Get i (woRegistry (syWorld s')) = Some c \<Longrightarrow> Get i (woRegistry (syWorld s)) = Some c"
    and "set (live s') \<subseteq> set (live s)" "chNext (woChans (syWorld s')) = chNext (woChans (syWorld s))"
    and "chCap (woChans (syWorld s')) = chCap (woChans (syWorld s))"
    and "\<And>i c. i \<in> set (live s') \<Longrightarrow> Get i (woRegistry (syWorld s')) = Some c \<Longrightarrow>
      chBuf (woChans (syWorld s)) c = [] \<Longrightarrow> chBuf (woChans (syWorld s')) c = []"
  shows "chans_ok s'"
  unfolding chans_ok_def Let_def
proof (intro conjI allI impI)
  let ?R = "woRegistry (syWorld s)" and ?R' = "woRegistry (syWorld s')"
  have old: "Get i ?R = Some c \<Longrightarrow> Get j ?R = Some c \<Longrightarrow> i = j"
    "Get i ?R = Some c \<Longrightarrow> c < chNext (woChans (syWorld s)) \<and> chCap (woChans (syWorld s)) c = 1"
    "i \<in> set (live s) \<Longrightarrow> Get i ?R = Some c \<Longrightarrow> chBuf (woChans (syWorld s)) c = []" for i j c
    using assms(1) by (auto simp: chans_ok_def Let_def)
  fix i j c
  show "Get i ?R' = Some c \<Longrightarrow> Get j ?R' = Some c \<Longrightarrow> i = j"
    using old(1) assms(2) by blast
  assume "Get i ?R' = Some c"
  then have g: "Get i ?R = Some c" by (rule assms(2))
  show "c < chNext (woChans (syWorld s'))" "chCap (woChans (syWorld s')) c = 1"
    using old(2) [OF g] by (simp_all add: assms(4,5))
next
  fix i c
  assume "i \<in> set (live s')" "Get i (woRegistry (syWorld s')) = Some c"
  moreover from this have "i \<in> set (live s)" "Get i (woRegistry (syWorld s)) = Some c"
    using assms(2,3) by blast+
  then have "chBuf (woChans (syWorld s)) c = []"
    using assms(1) by (auto simp: chans_ok_def Let_def)
  ultimately show "chBuf (woChans (syWorld s')) c = []" by (rule assms(6))
qed

lemma chans_step_task:
  assumes "ids_ok (mem_env enc dec config) s" "chans_ok s" "syTasks s = pre @ t # post"
    "t \<notin> {TRelease, TDone}"
    "task_step (mem_env enc dec config) tt reply t (syWorld s) = Returns (t', w')"
    "s' = record_step t t' (s\<lparr>syWorld := w', syTasks := pre @ t' # post\<rparr>)"
  shows "chans_ok s'"
proof (rule chans_ok_mono [OF assms(2)])
  note eff = task_acts_effect [OF assms(1,3-6)]
  have w': "syWorld s' = w'" using assms(6) by simp
  show sub: "Get i (woRegistry (syWorld s)) = Some c" if "Get i (woRegistry (syWorld s')) = Some c" for i c
    using that eff(3) unfolding w' by (cases t) (auto simp: registry.get_remove split: if_splits)
  show "set (live s') \<subseteq> set (live s)"
    using eff(6) by blast
  have same: "woChans w' = woChans (syWorld s)" if "\<forall>c i resp. t \<noteq> TSend c i resp"
    using task_step_chans [OF assms(5) that] .
  have sent: "woChans w' = (woChans (syWorld s))\<lparr>chBuf := (chBuf (woChans (syWorld s)))
      (c := chBuf (woChans (syWorld s)) c @ [resp])\<rparr>" if "t = TSend c i resp" for c i resp
    using assms(5) that by (auto simp: chan_send_def split: if_splits)
  show "chNext (woChans (syWorld s')) = chNext (woChans (syWorld s))"
    "chCap (woChans (syWorld s')) = chCap (woChans (syWorld s))"
    unfolding w' using same sent by (cases t; simp)+
  fix i c
  assume i: "i \<in> set (live s')" "Get i (woRegistry (syWorld s')) = Some c"
    and empty: "chBuf (woChans (syWorld s)) c = []"
  show "chBuf (woChans (syWorld s')) c = []"
  proof (cases "\<exists>d j resp. t = TSend d j resp")
    case False
    then show ?thesis using same empty unfolding w' by simp
  next
    case True
    then obtain d j resp where t: "t = TSend d j resp" by blast
    have "Get j (woRegistry (syWorld s)) = Some d"
      using assms(1,3) t by (simp add: ids_ok_def)
    moreover have "i \<noteq> j"
      using eff(7) i(1) by (auto simp: t)
    ultimately have "c \<noteq> d"
      using sub [OF i(2)] assms(2) by (auto simp: chans_ok_def Let_def)
    then show ?thesis using sent [OF t] empty unfolding w' by simp
  qed
qed

lemma chans_step_register:
  assumes "ids_ok we s" "chans_ok s" "i \<notin> set (syIssued s)" "make_chan 1 (woChans (syWorld s)) = (c, cs)"
  shows "chans_ok
    (s\<lparr>syWorld := (syWorld s)\<lparr>woRegistry := Register i c (woRegistry (syWorld s)), woChans := cs\<rparr>,
       sySubs := SubRegistered (new_request i req cost t) req # sySubs s,
       syIssued := i # syIssued s\<rparr>)" (is "chans_ok ?s'")
proof -
  let ?R = "woRegistry (syWorld s)" and ?C = "woChans (syWorld s)"
  have c: "c = chNext ?C" "chNext cs = Suc c" "chCap cs = (chCap ?C)(c := 1)" "chBuf cs = (chBuf ?C)(c := [])"
    using assms(4) by (auto simp: make_chan_def)
  have old: "Get j ?R = Some d \<Longrightarrow> Get k ?R = Some d \<Longrightarrow> j = k"
    "Get j ?R = Some d \<Longrightarrow> d < c \<and> chCap ?C d = 1"
    "j \<in> set (live s) \<Longrightarrow> Get j ?R = Some d \<Longrightarrow> chBuf ?C d = []" for j k d
    using assms(2) by (auto simp: chans_ok_def Let_def c(1))
  have "set (live ?s') = insert i (set (live s))"
    by (auto simp: live_def new_request_def)
  then show ?thesis
    unfolding chans_ok_def Let_def
    using old by (auto simp: registry.get_register c(2-4) less_Suc_eq split: if_splits dest: old(2))
qed

text \<open>Without a registration no id becomes live again.\<close>

lemma live_shrinks:
  assumes "ids_ok we s" "ids_ok we s'" "syIssued s' = syIssued s"
    "set (sySent s) \<subseteq> set (sySent s')" "set (syExpired s) \<subseteq> set (syExpired s')"
    "set (syRejected s) \<subseteq> set (syRejected s')"
  shows "set (live s') \<subseteq> set (live s)"
proof
  fix i assume i: "i \<in> set (live s')"
  have dist: "distinct (whereabouts s')" and same: "set (whereabouts s') = set (whereabouts s)"
    using assms(1-3) by (simp_all add: ids_ok_def)
  have "i \<in> set (whereabouts s)" using i same by (auto simp: whereabouts_def)
  moreover have "i \<notin> set (map fst (sySent s')) \<union> set (syExpired s') \<union> set (syRejected s')"
    using i dist by (auto simp: whereabouts_def)
  then have "i \<notin> set (map fst (sySent s)) \<union> set (syExpired s) \<union> set (syRejected s)"
    using assms(4-6) by auto
  ultimately show "i \<in> set (live s)" by (auto simp: whereabouts_def)
qed

lemma chans_step_other:
  assumes "ids_ok we s" "ids_ok we s'" "chans_ok s" "syIssued s' = syIssued s"
    "set (sySent s) \<subseteq> set (sySent s')" "set (syExpired s) \<subseteq> set (syExpired s')"
    "set (syRejected s) \<subseteq> set (syRejected s')"
    and "woRegistry (syWorld s') \<in> {woRegistry (syWorld s), Remove i (woRegistry (syWorld s))}"
    and "woChans (syWorld s') = woChans (syWorld s) \<or> chan_receive c (woChans (syWorld s)) = Some (r, woChans (syWorld s'))"
  shows "chans_ok s'"
proof (rule chans_ok_mono [OF assms(3)])
  show "Get j (woRegistry (syWorld s)) = Some d" if "Get j (woRegistry (syWorld s')) = Some d" for j d
    using that assms(8) by (auto simp: registry.get_remove split: if_splits)
  show "set (live s') \<subseteq> set (live s)"
    by (rule live_shrinks [OF assms(1,2,4-7)])
qed (use assms(9) in \<open>auto simp: chan_receive_def split: list.splits dest!: sym [of _ "woChans (syWorld s')"]\<close>)

lemma chans_step:
  assumes "sys_step (mem_env enc dec config) svc s s'" "codec_ok enc dec"
    "ids_ok (mem_env enc dec config) s" "chans_ok s"
  shows "chans_ok s'"
proof -
  note ids = assms(3) ids_step [OF assms(1-3)]
  show ?thesis
    using assms(1)
  proof cases
    case (sub_register i c cs req cost t)
    then show ?thesis using assms(3,4) by (simp add: chans_step_register)
  next
    case (task_acts pre t post tt env t' w')
    show ?thesis by (rule chans_step_task [OF assms(3,4) task_acts(2,3,5,1)])
  next
    case (sub_cleanup pre i post)
    then show ?thesis by (intro chans_step_other [OF ids assms(4), where i = i]) auto
  next
    case (client_receive c resp cs)
    then show ?thesis by (intro chans_step_other [OF ids assms(4), where c = c and r = resp]) auto
  qed (intro chans_step_other [OF ids assms(4)]; auto)+
qed

section \<open>Panics and blocked goroutines\<close>

text \<open>With the invariants, a goroutine's next action returns.\<close>

lemma task_step_returns:
  assumes "ids_ok (mem_env enc dec config) s" "chans_ok s" "t \<in> set (syTasks s)"
  shows "\<exists>r. task_step (mem_env enc dec config) tt (reply_for env svc t) t (syWorld s) = Returns r"
proof -
  have inv: "task_inv (mem_env enc dec config) (woRegistry (syWorld s)) t"
    using assms(1,3) by (auto simp: ids_ok_def list_all_iff)
  show ?thesis
  proof (cases t)
    case (TDecode item)
    then show ?thesis using inv by (auto simp: good_item_def)
  next
    case (TProcess q req ch)
    then show ?thesis
      by (auto simp: service_reply_def split: prod.splits sum.splits option.splits)
  next
    case (TSend c i resp)
    then have "i \<in> set (live s)" "Get i (woRegistry (syWorld s)) = Some c"
      using inv assms(3) by (auto simp: live_def intro!: bexI [of _ t])
    then have "chBuf (woChans (syWorld s)) c = []" "chCap (woChans (syWorld s)) c = 1"
      using assms(2) by (auto simp: chans_ok_def Let_def)
    then show ?thesis by (simp add: TSend chan_send_def)
  qed (simp_all add: case_prod_beta Let_def)
qed

section \<open>The rate of the requests passed on\<close>

fun task_cost :: "'b task \<Rightarrow> int" where
  "task_cost (TProcess q req ch) = qrTokenCost q"
| "task_cost t = 0"

definition acct_ok :: "TokenBucket \<Rightarrow> 'b sys \<Rightarrow> bool" where
  "acct_ok tb0 s \<longleftrightarrow>
     (let tb = woLimiter (syWorld s) in
      tb_ok tb \<and> same_config tb0 tb \<and> lastRefillTime tb0 \<le> lastRefillTime tb \<and>
      list_all (\<lambda>t. 0 \<le> task_cost t) (syTasks s) \<and>
      sySpent s = syDispatched s + sum_list (map task_cost (syTasks s)) \<and>
      availableTokens tb + of_int (sySpent s)
        \<le> availableTokens tb0
          + refill_bound (tokensPerSecond tb0) (lastRefillTime tb - lastRefillTime tb0)
          + of_nat (syCalls s) * (2 * of_int (bucketSize tb0) / 2 ^ 53))"

lemma task_cost_reply [simp]: "task_cost (reply_or_release ch i resp) = 0"
  by (simp add: reply_or_release_def split: option.split)

text \<open>Only \<^verbatim>\<open>Allow\<close> touches the limiter, and only it starts the processing of a request.\<close>

lemma task_step_limiter:
  assumes "task_step (mem_env enc dec config) tt reply t w = Returns (t', w')"
    "\<forall>item q req ch. t \<noteq> TAllow item q req ch"
  shows "woLimiter w' = woLimiter w \<and> task_cost t' = 0 \<and> (\<forall>q req ch. t' \<noteq> TProcess q req ch)"
  using assms
  by (cases t) (auto simp: Let_def reply_or_release_def chan_send_def
      split: prod.splits sum.splits option.splits if_splits)

lemma task_step_allow:
  assumes "task_step (mem_env enc dec config) tt reply (TAllow item q req ch) w = Returns (t', w')"
    "tb_ok (woLimiter w)" "lastRefillTime (woLimiter w) \<le> ttAllow tt"
  shows "tb_ok (woLimiter w') \<and>
    accounts (woLimiter w) (if t' = TProcess q req ch then qrTokenCost q else 0) (woLimiter w') \<and>
    task_cost t' = (if t' = TProcess q req ch then qrTokenCost q else 0) \<and> 0 \<le> task_cost t'"
proof -
  obtain r l where a: "AllowN ''default'' (qrTokenCost q) (ttAllow tt) (woLimiter w) = (r, l)"
    by fastforce
  then have allow: "Allow (qrTokenCost q) (ttAllow tt) (woLimiter w) = (r, l)"
    by (simp add: Allow_def)
  have w': "woLimiter w' = l" and t': "t' = (case r of
       Inl err \<Rightarrow> reply_or_release ch (qrRequestID q) (error_response req err)
     | Inr allowed \<Rightarrow> if allowed then TProcess q req ch else TReenqueue item q req ch)"
    using assms(1) by (auto simp: mem_env_def allow)
  have granted: "t' = TProcess q req ch \<longleftrightarrow> r = Inr True"
    by (auto simp: t' reply_or_release_def split: sum.splits option.splits)
  have pos: "r = Inr True \<Longrightarrow> 0 < qrTokenCost q"
    using a by (auto simp: AllowN_def split: if_splits)
  have "tb_ok l"
    using AllowN_ok [OF assms(2,3), of "''default''" "qrTokenCost q"] a by simp
  moreover have "accounts (woLimiter w) (if r = Inr True then qrTokenCost q else 0) l"
    by (rule AllowN_accounts [OF assms(2,3) a])
  moreover have "task_cost t' = (if r = Inr True then qrTokenCost q else 0)"
    by (auto simp: t' split: sum.split)
  ultimately show ?thesis
    using less_imp_le [OF pos] by (simp add: w' granted)
qed

lemma acct_step:
  assumes "sys_step (mem_env enc dec config) svc s s'" "acct_ok tb0 s"
  shows "acct_ok tb0 s'"
  using assms(1)
proof cases
  case (task_acts pre t post tt env t' w')
  let ?tb = "woLimiter (syWorld s)"
  have old: "tb_ok ?tb" "same_config tb0 ?tb" "lastRefillTime tb0 \<le> lastRefillTime ?tb"
    "list_all (\<lambda>t. 0 \<le> task_cost t) (pre @ t # post)"
    "sySpent s = syDispatched s + sum_list (map task_cost (pre @ t # post))"
    "availableTokens ?tb + of_int (sySpent s) \<le> availableTokens tb0
       + refill_bound (tokensPerSecond tb0) (lastRefillTime ?tb - lastRefillTime tb0)
       + of_nat (syCalls s) * (2 * of_int (bucketSize tb0) / 2 ^ 53)"
    using assms(2) task_acts(2) by (simp_all add: acct_ok_def Let_def)
  show ?thesis
  proof (cases "\<exists>item q req ch. t = TAllow item q req ch")
    case True
    then obtain item q req ch where t: "t = TAllow item q req ch" by blast
    let ?c = "if t' = TProcess q req ch then qrTokenCost q else 0"
    have step: "tb_ok (woLimiter w')" "accounts ?tb ?c (woLimiter w')" "task_cost t' = ?c" "0 \<le> task_cost t'"
      using task_step_allow [OF task_acts(5) [unfolded t] old(1)] task_acts(4) by (simp_all add: times_ok_def)
    have "lastRefillTime tb0 \<le> lastRefillTime (woLimiter w')" "same_config tb0 (woLimiter w')"
      using step(2) old(2,3) by (auto simp: accounts_def same_config_def)
    moreover note accounts_trans [OF old(6,2) step(2)]
    ultimately show ?thesis
      using step old(4,5) unfolding task_acts(1) t
      by (cases "t' = TProcess q req ch") (simp_all add: acct_ok_def Let_def)
  next
    case False
    then have same: "woLimiter w' = ?tb" "task_cost t' = 0"
      using task_step_limiter [OF task_acts(5)] by blast+
    have "sySpent s' = sySpent s" "syCalls s' = syCalls s"
      "syDispatched s' = syDispatched s + task_cost t"
      using False unfolding task_acts(1) by (cases t; simp)+
    then show ?thesis
      using old same unfolding acct_ok_def Let_def by (simp add: task_acts(1))
  qed
qed (use assms(2) in \<open>simp_all add: acct_ok_def Let_def\<close>)

lemma acct_initial:
  assumes "default_size lc < 2 ^ 53"
  shows "acct_ok (NewTokenBucket lc t0) (initial_sys lc qc t0)"
  using initial_system_ok [OF assms, of t0]
  by (simp add: acct_ok_def initial_sys_def Let_def same_config_def system_ok_def initial_system_def)

section \<open>Reachable states\<close>

lemma reach_sem:
  assumes "sys_reach (mem_env enc dec config) svc (initial_sys lc qc t0) s"
  shows "sem_ok (mem_env enc dec config) s"
proof (rule sys_reach_invariant [OF assms])
  show "sem_ok (mem_env enc dec config) (initial_sys lc qc t0)"
    by (rule sem_initial) (simp add: mem_env_def worker_config_def)
qed (rule sem_step)

lemma reach_ids:
  assumes "sys_reach (mem_env enc dec config) svc (initial_sys lc qc t0) s" "codec_ok enc dec"
  shows "ids_ok (mem_env enc dec config) s \<and> chans_ok s"
  by (rule sys_reach_invariant [OF assms(1)])
    (auto intro: ids_initial chans_initial ids_step chans_step assms(2))

lemma reach_acct:
  assumes "sys_reach (mem_env enc dec config) svc (initial_sys lc qc t0) s" "default_size lc < 2 ^ 53"
  shows "acct_ok (NewTokenBucket lc t0) s"
proof (rule sys_reach_invariant [OF assms(1)])
  show "acct_ok (NewTokenBucket lc t0) (initial_sys lc qc t0)"
    by (rule acct_initial [OF assms(2)])
qed (rule acct_step)

text \<open>The actions that a goroutine still has before it.\<close>

fun task_left :: "'b task \<Rightarrow> nat" where
  "task_left (TDecode item) = 8"
| "task_left (TGet item q req) = 7"
| "task_left (TAllow item q req ch) = 6"
| "task_left (TReenqueue item q req ch) = 5"
| "task_left (TProcess q req ch) = 5"
| "task_left (TSend c i resp) = 4"
| "task_left (TRemove i) = 3"
| "task_left TRelease = 2"
| "task_left TDone = 1"

lemma task_step_left:
  assumes "task_step we tt reply t w = Returns (t', w')" "t \<notin> {TRelease, TDone}"
  shows "task_left t' < task_left t"
  using assms by (cases t) (auto simp: Let_def reply_or_release_def chan_send_def
      split: prod.splits sum.splits option.splits if_splits)

text \<open>Once the loop waits, the goroutines can run to their ends, and the loop returns.\<close>

lemma drain:
  assumes "syLoop s = LoopWaiting" "ids_ok (mem_env enc dec config) s" "chans_ok s" "codec_ok enc dec"
  shows "\<exists>s'. (sys_step (mem_env enc dec config) svc)\<^sup>*\<^sup>* s s' \<and> syLoop s' = LoopDone"
  using assms(1-3)
proof (induction "sum_list (map task_left (syTasks s))" arbitrary: s rule: less_induct)
  case less
  let ?we = "mem_env enc dec config"
  show ?case
  proof (cases "syTasks s")
    case Nil
    from r_into_rtranclp [of "sys_step ?we svc", OF loop_finish [OF less.prems(1) this]]
    show ?thesis by (intro exI conjI) (assumption, simp)
  next
    case (Cons t post)
    have "\<exists>s1. sys_step ?we svc s s1 \<and> syLoop s1 = LoopWaiting \<and>
        sum_list (map task_left (syTasks s1)) < sum_list (map task_left (syTasks s))"
    proof (cases "t \<in> {TRelease, TDone}")
      case True
      then show ?thesis
      proof
        assume "t = TRelease"
        then have "syTasks s = [] @ TRelease # post" using Cons by simp
        from task_release [OF this] show ?thesis
          using less.prems(1) Cons \<open>t = TRelease\<close> by (intro exI conjI) (assumption, simp_all)
      next
        assume "t \<in> {TDone}"
        then have t: "t = TDone" by simp
        then have "syTasks s = [] @ TDone # post" using Cons by simp
        from task_done [OF this] show ?thesis
          using less.prems(1) Cons t by (intro exI conjI) (assumption, simp_all)
      qed
    next
      case False
      let ?tt = "\<lparr>ttAllow = lastRefillTime (woLimiter (syWorld s)), ttEnqueue = 0, ttAfter = 0, ttQueue = 0\<rparr>"
      obtain t' w' where r: "task_step ?we ?tt (reply_for undefined svc t) t (syWorld s) = Returns (t', w')"
        using task_step_returns [OF less.prems(2,3), of t ?tt undefined svc] Cons by auto
      have "syTasks s = [] @ t # post" "times_ok s ?tt"
        using Cons by (simp_all add: times_ok_def)
      from task_acts [OF this(1) False this(2) r] show ?thesis
        using less.prems(1) Cons task_step_left [OF r False] by (intro exI conjI) (assumption, simp_all)
    qed
    then obtain s1 where s1: "sys_step ?we svc s s1" "syLoop s1 = LoopWaiting"
      "sum_list (map task_left (syTasks s1)) < sum_list (map task_left (syTasks s))" by blast
    have "\<exists>s'. (sys_step ?we svc)\<^sup>*\<^sup>* s1 s' \<and> syLoop s' = LoopDone"
      using less.hyps [OF s1(3,2)] ids_step [OF s1(1) assms(4) less.prems(2)]
        chans_step [OF s1(1) assms(4) less.prems(2,3)] by blast
    then show ?thesis
      using s1(1) by (meson converse_rtranclp_into_rtranclp)
  qed
qed

section \<open>Properties\<close>

text \<open>
  C1: in every reachable state, every id that was handed out is in
  exactly one place: its submission is under way, its item waits in the queue, a goroutine
  has it, its one response was sent, the clean-up dropped its item as too old, or its
  submission was refused.  So no request is lost between the queue, the limiter and the
  service, and none is answered twice.
\<close>

theorem every_request_is_somewhere:
  assumes "sys_reach (mem_env enc dec config) svc (initial_sys lc qc t0) s" "codec_ok enc dec"
  shows "distinct (map qID (items (woQueue (syWorld s))) @ concat (map task_live (syTasks s)) @
      concat (map sub_live (sySubs s)) @ map fst (sySent s) @ syExpired s @ syRejected s) \<and>
    set (syIssued s) = set (map qID (items (woQueue (syWorld s)))) \<union>
      set (concat (map task_live (syTasks s))) \<union> set (concat (map sub_live (sySubs s))) \<union>
      fst ` set (sySent s) \<union> set (syExpired s) \<union> set (syRejected s)"
proof -
  have "distinct (whereabouts s)" "set (whereabouts s) = set (syIssued s)"
    using reach_ids [OF assms] by (simp_all add: ids_ok_def)
  then show ?thesis
    by (simp only: whereabouts_def live_def append_assoc set_append set_map Un_assoc)
qed


text \<open>
  C4: in every reachable state the next action of every goroutine
  of \<^verbatim>\<open>processItem\<close> returns: no nil is dereferenced, and the send on the response channel
  finds room although the client may have gone.
\<close>

theorem goroutines_never_panic_or_block:
  assumes "sys_reach (mem_env enc dec config) svc (initial_sys lc qc t0) s" "codec_ok enc dec"
    "t \<in> set (syTasks s)"
  shows "\<exists>t' w'. task_step (mem_env enc dec config) tt (reply_for env svc t) t (syWorld s) = Returns (t', w')"
  using task_step_returns [OF _ _ assms(3)] reach_ids [OF assms(1,2)] by fast

text \<open>
  C20: the number of goroutines at work never passes \<^verbatim>\<open>MaxConcurrent\<close>
  (10 if it is not set), the semaphore counts them and the loop's own slot, and when the
  worker has stopped none is left.
\<close>

theorem concurrency_bounded:
  assumes "sys_reach (mem_env enc dec config) svc (initial_sys lc qc t0) s"
  shows "int (length (filter (\<lambda>t. t \<noteq> TDone) (syTasks s))) \<le> wcMaxConcurrent (worker_config config) \<and>
    sySem s = length (filter (\<lambda>t. t \<noteq> TDone) (syTasks s)) + (if syLoop s = LoopHasSlot then 1 else 0) \<and>
    (syLoop s = LoopDone \<longrightarrow> syTasks s = [])"
  using reach_sem [OF assms] by (auto simp: sem_ok_def slots_held_def mem_env_def)

text \<open>
  C21: the registry holds a channel for exactly the requests that are not
  yet answered, those about to be removed from it, and those that the clean-up dropped:
  these are never removed.
\<close>

theorem registry_is_exact:
  assumes "sys_reach (mem_env enc dec config) svc (initial_sys lc qc t0) s" "codec_ok enc dec"
  shows "registered (woRegistry (syWorld s)) = set (live s) \<union> set (removing s) \<union> set (syExpired s) \<and>
    set (syExpired s) \<inter> (set (live s) \<union> set (removing s)) = {}"
proof -
  have ok: "ids_ok (mem_env enc dec config) s" using reach_ids [OF assms] by blast
  moreover have "set (syExpired s) \<inter> set (removing s) = {}"
    using removing_not_live(2) [OF ok] by blast
  moreover have "set (syExpired s) \<inter> set (live s) = {}"
    using ok by (auto simp: ids_ok_def whereabouts_def)
  ultimately show ?thesis by (auto simp: ids_ok_def)
qed

text \<open>
  C22: when the loop has seen the stop and waits, the goroutines can run
  to their ends, without any help from clients, and the loop then closes \<^verbatim>\<open>done\<close>.
\<close>

theorem worker_stop_completes:
  assumes "sys_reach (mem_env enc dec config) svc (initial_sys lc qc t0) s" "codec_ok enc dec"
    "syLoop s = LoopWaiting"
  shows "\<exists>s'. (sys_step (mem_env enc dec config) svc)\<^sup>*\<^sup>* s s' \<and> syLoop s' = LoopDone \<and> syTasks s' = []"
proof -
  have ok: "ids_ok (mem_env enc dec config) s" "chans_ok s" using reach_ids [OF assms(1,2)] by blast+
  obtain s' where s': "(sys_step (mem_env enc dec config) svc)\<^sup>*\<^sup>* s s'" "syLoop s' = LoopDone"
    using drain [OF assms(3) ok assms(2)] by blast
  have "sem_ok (mem_env enc dec config) s'"
    using s'(1) reach_sem [OF assms(1)] by (induction rule: rtranclp_induct) (auto intro: sem_step)
  then show ?thesis
    using s' by (auto simp: sem_ok_def)
qed

text \<open>
  EnqueueRequest_all_or_nothing: \<^verbatim>\<open>EnqueueRequest\<close> either puts one item with the new id at
  the end of the queue and leaves the client's channel registered under that id, or it
  fails, with the queue's items as they were and no channel under the id.
\<close>

theorem EnqueueRequest_all_or_nothing:
  "case EnqueueRequest (mem_env enc dec config) i req cost ch t t1 t2 w of
     (None, w') \<Rightarrow>
       (\<exists>item d. enc (new_request i req cost t) = Inr d \<and> qID item = i \<and> qData item = d \<and>
          items (woQueue w') = items (woQueue w) @ [item]) \<and> Get i (woRegistry w') = Some ch
   | (Some err, w') \<Rightarrow> items (woQueue w') = items (woQueue w) \<and> Get i (woRegistry w') = None"
proof (cases "enc (new_request i req cost t)")
  case (Inl err)
  then show ?thesis
    by (simp add: EnqueueRequest_def submit_def mem_env_def Let_def registry.get_remove)
next
  case (Inr d)
  let ?item = "new_item (new_request i req cost t) req d t1"
  obtain e Q' where enq: "Enqueue t2 (Some ?item) (woQueue w) = (e, Q')" by fastforce
  have "qID (stamp t2 ?item) = i" "qData (stamp t2 ?item) = d"
    by (simp_all add: new_item_def new_request_def)
  then show ?thesis
    using Enqueue_result [OF enq] enq Inr
    by (cases e) (auto simp: EnqueueRequest_def submit_def mem_env_def Let_def registry.get_remove
        registry.get_register intro!: exI [of _ "stamp t2 ?item"])
qed


section \<open>A run\<close>

text \<open>One request through the whole system, with the identity as the encoding.\<close>

definition example_lc :: LimiterConfig where
  "example_lc = \<lparr>lcType = InMemoryLimiter, lcTokensPerSecond = 2, lcBucketSize = 5, lcRedisOptions = None\<rparr>"

definition example_qc :: QueueConfig where
  "example_qc = \<lparr>qcType = InMemoryQueue, qcMaxSize = 3, qcItemTTL = hour, qcRedisOptions = None\<rparr>"

definition example_wc :: WorkerConfig where
  "example_wc = \<lparr>wcPollingInterval = 0, wcMaxConcurrent = 2, wcRetryDelay = 0\<rparr>"

lemma ident_codec: "codec_ok Inr Inr"
  by (auto simp: codec_ok_def)

definition example_start :: "QueuedRequest sys" where
  "example_start = initial_sys example_lc example_qc 0"

definition example_queued :: QueuedRequest where
  "example_queued = new_request ''a'' example_llm_request 4 1"

definition example_item :: "QueuedRequest QueueItem" where
  "example_item = new_item example_queued example_llm_request example_queued 1"

lemma example_start_record:
  "example_start =
     \<lparr>syWorld = \<lparr>woQueue = NewInMemoryQueue example_qc, woLimiter = example_bucket,
                 woRegistry = NewChannelRegistry, woChans = no_chans\<rparr>,
      syTasks = [], syLoop = LoopTop, sySem = 0, sySubs = [], syCtxDone = False, syStopped = False,
      syIssued = [], sySent = [], syExpired = [], syRejected = [],
      sySpent = 0, syDispatched = 0, syCalls = 0\<rparr>"
  by (simp add: example_start_def initial_sys_def example_bucket_def example_lc_def)

abbreviation example_run :: "QueuedRequest sys \<Rightarrow> bool" where
  "example_run \<equiv> sys_reach (mem_env Inr Inr example_wc) example_service (initial_sys example_lc example_qc 0)"

definition example_dequeued :: "QueuedRequest sys" where
  "example_dequeued = example_start
     \<lparr>syWorld := (syWorld example_start)
        \<lparr>woRegistry := Register ''a'' 0 NewChannelRegistry, woChans := snd (make_chan 1 no_chans)\<rparr>,
      syTasks := [TDecode example_item], sySem := 1, syIssued := [''a'']\<rparr>"

lemma example_submit:
  "submit (mem_env Inr Inr example_wc) example_queued example_llm_request 1 1 (NewInMemoryQueue example_qc) =
     (None, (NewInMemoryQueue example_qc)\<lparr>items := [example_item]\<rparr>)"
  by (simp add: submit_def mem_env_def Enqueue_def NewInMemoryQueue_def example_qc_def example_item_def
      stamp_def new_item_def IsZero_def)

lemma example_dequeue:
  "Dequeue 1 ((NewInMemoryQueue example_qc)\<lparr>items := [example_item]\<rparr>) =
     Returns (Inr example_item, NewInMemoryQueue example_qc)"
  by (simp add: Dequeue_def item_ready_def example_item_def new_item_def IsZero_def remove_nth_def
      NewInMemoryQueue_def)

lemma example_dequeued_run: "example_run example_dequeued"
proof -
  let ?we = "mem_env Inr Inr example_wc"
  let ?w = "syWorld example_start"
  let ?w1 = "?w\<lparr>woRegistry := Register ''a'' 0 NewChannelRegistry, woChans := snd (make_chan 1 no_chans)\<rparr>"
  let ?q = "(NewInMemoryQueue example_qc :: QueuedRequest InMemoryFIFO)\<lparr>items := [example_item]\<rparr>"
  let ?s1 = "example_start\<lparr>syWorld := ?w1, sySubs := [SubRegistered example_queued example_llm_request],
      syIssued := [''a'']\<rparr>"
  let ?s2 = "?s1\<lparr>syWorld := ?w1\<lparr>woQueue := ?q\<rparr>, sySubs := []\<rparr>"
  let ?s3 = "?s2\<lparr>sySem := 1, syLoop := LoopHasSlot\<rparr>"
  have "example_run example_start"
    unfolding example_start_def by (rule reach_start)
  moreover have "sys_step ?we example_service example_start ?s1"
    using sub_register [of "''a''" example_start 0 "snd (make_chan 1 no_chans)" ?we example_service
        example_llm_request 4 1]
    by (simp add: example_start_record plain_id_def make_chan_def no_chans_def example_queued_def)
  ultimately have "example_run ?s1" by (rule reach_step)
  moreover have "sys_step ?we example_service ?s1 ?s2"
    using sub_accept [of ?s1 "[]" example_queued example_llm_request "[]" ?we 1 1 ?q example_service]
    by (simp add: example_start_record example_submit)
  ultimately have "example_run ?s2" by (rule reach_step)
  moreover have "sys_step ?we example_service ?s2 ?s3"
    using loop_acquire [of ?s2 ?we example_service]
    by (simp add: example_start_record mem_env_def worker_config_def example_wc_def)
  ultimately have "example_run ?s3" by (rule reach_step)
  moreover have "sys_step ?we example_service ?s3 example_dequeued"
    using loop_dequeue [of ?s3 1 example_item "NewInMemoryQueue example_qc" ?we example_service]
    by (simp add: example_start_record example_dequeued_def example_dequeue)
  ultimately show ?thesis by (rule reach_step)
qed

text \<open>The goroutine's seven actions on it, up to the removal of the channel.\<close>

lemma example_allow:
  "Allow 4 0 example_bucket = (Inr True, example_bucket\<lparr>availableTokens := 1\<rparr>)"
  by (simp add: Allow_def AllowN_def Let_def example_refill example_wait_time)

definition example_answered :: "QueuedRequest sys" where
  "example_answered = example_dequeued
     \<lparr>syWorld := (syWorld example_dequeued)
        \<lparr>woLimiter := example_bucket\<lparr>availableTokens := 1\<rparr>,
         woChans := (snd (make_chan 1 no_chans))\<lparr>chBuf := (\<lambda>_. [])(0 := [example_response])\<rparr>\<rparr>,
      syTasks := [TRemove ''a''], sySent := [(''a'', example_response)],
      sySpent := 4, syDispatched := 4, syCalls := 1\<rparr>"

lemma example_task_run:
  assumes "example_run s" "syTasks s = [t]" "t \<notin> {TRelease, TDone}"
    "lastRefillTime (woLimiter (syWorld s)) \<le> ttAllow tt"
    "case task_step (mem_env Inr Inr example_wc) tt (reply_for json_env example_service t) t (syWorld s) of
       Returns (t', w') \<Rightarrow> s' = record_step t t' (s\<lparr>syWorld := w', syTasks := [t']\<rparr>)
     | _ \<Rightarrow> False"
  shows "example_run s'"
proof -
  obtain t' w' where
    step: "task_step (mem_env Inr Inr example_wc) tt (reply_for json_env example_service t) t (syWorld s) = Returns (t', w')"
    and s': "s' = record_step t t' (s\<lparr>syWorld := w', syTasks := [t']\<rparr>)"
    using assms(5) by (auto split: outcome.splits)
  have "syTasks s = [] @ t # []" "times_ok s tt"
    using assms(2,4) by (simp_all add: times_ok_def)
  from reach_step [OF assms(1) task_acts [OF this(1) assms(3) this(2) step]] show ?thesis
    by (simp add: s')
qed

text \<open>The states between: with the request decoded, its channel found, and the tokens granted.\<close>

definition example_state :: "nat \<Rightarrow> QueuedRequest task \<Rightarrow> TokenBucket \<Rightarrow> QueuedRequest sys" where
  "example_state calls t tb = example_dequeued
     \<lparr>syWorld := (syWorld example_dequeued)\<lparr>woLimiter := tb\<rparr>, syTasks := [t],
      sySpent := 4 * int calls, syCalls := calls\<rparr>"

definition example_tt :: task_times where
  "example_tt = \<lparr>ttAllow = 0, ttEnqueue = 0, ttAfter = 0, ttQueue = 0\<rparr>"

lemma example_service_reply:
  "service_reply json_env example_service example_llm_request =
     (Inr (Some example_response), \<lparr>rqProviderName = ''openai'', rqModelName = ''m'', rqPayload = None\<rparr>)"
  by (simp add: service_reply_def example_Process)

lemma example_queued_simps [simp]:
  "qrRequest example_queued = Some example_llm_request" "qrTokenCost example_queued = 4"
  "qrRequestID example_queued = ''a''"
  by (simp_all add: example_queued_def new_request_def)

lemma example_world:
  "example_dequeued =
     \<lparr>syWorld = \<lparr>woQueue = NewInMemoryQueue example_qc, woLimiter = example_bucket,
                 woRegistry = Register ''a'' 0 NewChannelRegistry, woChans = snd (make_chan 1 no_chans)\<rparr>,
      syTasks = [TDecode example_item], syLoop = LoopTop, sySem = 1, sySubs = [], syCtxDone = False,
      syStopped = False, syIssued = [''a''], sySent = [], syExpired = [], syRejected = [],
      sySpent = 0, syDispatched = 0, syCalls = 0\<rparr>"
  by (simp add: example_dequeued_def example_start_record)

lemma example_item_simps [simp]: "qID example_item = ''a''" "qData example_item = example_queued"
  by (simp_all add: example_item_def new_item_def)

lemma example_answered_run: "example_run example_answered"
proof -
  let ?b = "example_bucket\<lparr>availableTokens := 1\<rparr>"
  note run = example_task_run [where tt = example_tt]
  have "example_run (example_state 0 (TGet example_item example_queued example_llm_request) example_bucket)"
    by (rule run [OF example_dequeued_run])
      (simp add: example_world example_state_def example_tt_def mem_env_def)+
  then have "example_run (example_state 0 (TAllow example_item example_queued example_llm_request (Some 0)) example_bucket)"
    by (rule run) (simp add: example_world example_state_def example_tt_def registry.get_register)+
  then have "example_run (example_state 1 (TProcess example_queued example_llm_request (Some 0)) ?b)"
    by (rule run) (simp add: example_world example_state_def example_tt_def mem_env_def example_allow)+
  then have "example_run ((example_state 1 (TSend 0 ''a'' example_response) ?b)\<lparr>syDispatched := 4\<rparr>)"
    by (rule run) (simp add: example_world example_state_def example_tt_def example_service_reply)+
  then show ?thesis
    by (rule run) (simp add: example_world example_state_def example_tt_def example_answered_def
        chan_send_def make_chan_def no_chans_def)+
qed

lemma example_answered_reach:
  "sys_reach (mem_env Inr Inr example_wc) example_service (initial_sys example_lc example_qc 0) example_answered"
  by (rule example_answered_run)

lemma example_answered_record:
  "syTasks example_answered = [TRemove ''a'']" "sySent example_answered = [(''a'', example_response)]"
  "syDispatched example_answered = 4" "syCalls example_answered = 1" "syIssued example_answered = [''a'']"
  "items (woQueue (syWorld example_answered)) = []" "sySubs example_answered = []"
  "syExpired example_answered = []" "syRejected example_answered = []"
  "woLimiter (syWorld example_answered) = example_bucket\<lparr>availableTokens := 1\<rparr>"
  "syLoop example_answered = LoopTop"
  by (simp_all add: example_answered_def example_world NewInMemoryQueue_def)

theorem every_request_is_somewhere_witness:
  "map fst (sySent example_answered) = [''a''] \<and> set (syIssued example_answered) = {''a''}"
  using every_request_is_somewhere [OF example_answered_reach ident_codec]
  by (simp add: example_answered_record)


theorem goroutines_never_panic_or_block_witness:
  "\<exists>t' w'. task_step (mem_env Inr Inr example_wc) example_tt (reply_for json_env example_service (TRemove ''a''))
     (TRemove ''a'') (syWorld example_answered) = Returns (t', w')"
  using goroutines_never_panic_or_block [OF example_answered_reach ident_codec,
      of "TRemove ''a''" example_tt json_env]
  by (simp add: example_answered_record)

theorem concurrency_bounded_witness:
  "int (length (filter (\<lambda>t. t \<noteq> TDone) (syTasks example_answered))) \<le> 2 \<and> sySem example_answered = 1"
  using concurrency_bounded [OF example_answered_reach]
  by (simp add: example_answered_record worker_config_def example_wc_def)

theorem registry_is_exact_witness:
  "registered (woRegistry (syWorld example_answered)) = {''a''}"
  using registry_is_exact [OF example_answered_reach ident_codec]
  by (simp add: example_answered_record live_def removing_def)

lemma example_waiting_reach:
  "sys_reach (mem_env Inr Inr example_wc) example_service (initial_sys example_lc example_qc 0)
     (example_answered\<lparr>syStopped := True, syLoop := LoopWaiting\<rparr>)"
proof -
  let ?s = "example_answered\<lparr>syStopped := True\<rparr>"
  have "sys_reach (mem_env Inr Inr example_wc) example_service (initial_sys example_lc example_qc 0) ?s"
    by (rule reach_step [OF example_answered_reach close_stopCh])
  moreover have "sys_step (mem_env Inr Inr example_wc) example_service ?s (?s\<lparr>syLoop := LoopWaiting\<rparr>)"
    by (rule loop_stop) (simp_all add: example_answered_record)
  ultimately show ?thesis by (rule reach_step)
qed

theorem worker_stop_completes_witness:
  "\<exists>s'. (sys_step (mem_env Inr Inr example_wc) example_service)\<^sup>*\<^sup>*
       (example_answered\<lparr>syStopped := True, syLoop := LoopWaiting\<rparr>) s' \<and>
     syLoop s' = LoopDone \<and> syTasks s' = []"
  by (rule worker_stop_completes [OF example_waiting_reach ident_codec]) simp


end
