(* ===== verification/Logger.thy ===== *)
theory Logger
  imports Text Go_Value Worker_System
begin

text \<open>
  Package \<^verbatim>\<open>utils\<close>, file logger.go: log levels and entries, request ids in contexts, timers,
  and the identifiers that the rest of the program uses.  The library zerolog writes the
  entries; here a logging function yields the entry that it hands over.
\<close>

section \<open>Levels and entries\<close>

datatype zerolog_level = ZDebug | ZInfo | ZWarn | ZError | ZFatal

definition parseLogLevel :: "string \<Rightarrow> zerolog_level" where
  "parseLogLevel level =
     (if level = ''debug'' then ZDebug
      else if level = ''info'' then ZInfo
      else if level = ''warn'' then ZWarn
      else if level = ''error'' then ZError
      else if level = ''fatal'' then ZFatal
      else ZInfo)"

text \<open>zerolog orders its levels; an entry below the global level is not written.\<close>

fun level_number :: "zerolog_level \<Rightarrow> nat" where
  "level_number ZDebug = 0"
| "level_number ZInfo = 1"
| "level_number ZWarn = 2"
| "level_number ZError = 3"
| "level_number ZFatal = 4"

lemma level_number_inject: "level_number x = level_number y \<longleftrightarrow> x = y"
  by (cases x; cases y; simp)

instantiation zerolog_level :: linorder
begin

definition less_eq_zerolog_level :: "zerolog_level \<Rightarrow> zerolog_level \<Rightarrow> bool" where
  "less_eq_zerolog_level x y \<longleftrightarrow> level_number x \<le> level_number y"

definition less_zerolog_level :: "zerolog_level \<Rightarrow> zerolog_level \<Rightarrow> bool" where
  "less_zerolog_level x y \<longleftrightarrow> level_number x < level_number y"

instance
  by standard (auto simp: less_eq_zerolog_level_def less_zerolog_level_def level_number_inject)

end

record log_entry =
  leLevel :: zerolog_level
  leFields :: gmap
  leMsg :: string

text \<open>A nil map adds no fields.\<close>

definition addFields :: "gmap option \<Rightarrow> gmap" where
  "addFields kv = (case kv of None \<Rightarrow> [] | Some kvs \<Rightarrow> kvs)"

definition log_at :: "zerolog_level \<Rightarrow> string \<Rightarrow> gmap option \<Rightarrow> log_entry" where
  "log_at level msg kv = \<lparr>leLevel = level, leFields = addFields kv, leMsg = msg\<rparr>"

definition Log_Debug :: "string \<Rightarrow> gmap option \<Rightarrow> log_entry" where
  "Log_Debug = log_at ZDebug"
definition Log_Info :: "string \<Rightarrow> gmap option \<Rightarrow> log_entry" where
  "Log_Info = log_at ZInfo"
definition Log_Warn :: "string \<Rightarrow> gmap option \<Rightarrow> log_entry" where
  "Log_Warn = log_at ZWarn"

text \<open>
  \<^verbatim>\<open>InitLogger\<close> sets the global level and the global logger, and writes the first entry with it.
\<close>

datatype log_output = PlainStdout | ConsoleStdout string

record logger_setup =
  lsGlobalLevel :: zerolog_level
  lsOutput :: log_output
  lsTimestamp :: bool
  lsCaller :: bool

definition entries_written :: "logger_setup \<Rightarrow> log_entry \<Rightarrow> log_entry list" where
  "entries_written ls e = (if lsGlobalLevel ls \<le> leLevel e then [e] else [])"

definition InitLogger :: "string \<Rightarrow> bool \<Rightarrow> logger_setup \<times> log_entry list" where
  "InitLogger level pretty =
     (let ls = \<lparr>lsGlobalLevel = parseLogLevel level,
                lsOutput = (if pretty then ConsoleStdout ''2006-01-02T15:04:05Z07:00'' else PlainStdout),
                lsTimestamp = True, lsCaller = True\<rparr>
      in (ls, entries_written ls
                (Log_Info ''Logger initialized'' (Some [(''level'', VString level), (''pretty'', VBool pretty)]))))"

text \<open>An unknown level is \<^verbatim>\<open>info\<close>; entries at least as severe as the level are written, others not.\<close>

lemma entries_written_iff:
  "entries_written (fst (InitLogger level pretty)) e = [e] \<longleftrightarrow> parseLogLevel level \<le> leLevel e"
  by (simp add: InitLogger_def entries_written_def Let_def)

lemma InitLogger_announces:
  "snd (InitLogger level pretty) = [] \<longleftrightarrow> level \<in> {''warn'', ''error'', ''fatal''}"
  by (simp add: InitLogger_def entries_written_def Let_def Log_Info_def log_at_def parseLogLevel_def
      less_eq_zerolog_level_def)

text \<open>
  The two functions that take an error write its text into the caller's map; they panic on a
  nil error.  \<^verbatim>\<open>Fatal\<close> ends the program after the entry.
\<close>

definition error_fields :: "go_error \<Rightarrow> gmap option \<Rightarrow> gmap" where
  "error_fields err kv =
     gm_assign ''error'' (VString (error_text err)) (case kv of None \<Rightarrow> [] | Some kvs \<Rightarrow> kvs)"

definition Log_Error :: "go_error option \<Rightarrow> string \<Rightarrow> gmap option \<Rightarrow> log_entry outcome" where
  "Log_Error err msg kv =
     (case err of None \<Rightarrow> Panics | Some e \<Rightarrow> Returns (log_at ZError msg (Some (error_fields e kv))))"

definition Log_Fatal :: "go_error option \<Rightarrow> string \<Rightarrow> gmap option \<Rightarrow> log_entry outcome" where
  "Log_Fatal err msg kv =
     (case err of None \<Rightarrow> Panics | Some e \<Rightarrow> Returns (log_at ZFatal msg (Some (error_fields e kv))))"

lemma error_field_present:
  "Log_Error (Some e) msg kv = Returns entry \<Longrightarrow> map_of (leFields entry) ''error'' = Some (VString (error_text e))"
  by (auto simp: Log_Error_def log_at_def addFields_def error_fields_def)

section \<open>Contexts\<close>

text \<open>
  The keys of context values: Go compares them with their dynamic types, so a key of the
  package's own type \<^verbatim>\<open>contextKey\<close> is never equal to a string.
\<close>

datatype ctx_key = ContextKey string | StringKey string

type_synonym ctx_values = "(ctx_key \<times> string) list"

definition WithRequestID :: "ctx_values \<Rightarrow> string \<Rightarrow> ctx_values" where
  "WithRequestID ctx reqID = (ContextKey ''request_id'', reqID) # ctx"

definition ctx_Value :: "ctx_values \<Rightarrow> ctx_key \<Rightarrow> string option" where
  "ctx_Value ctx k = map_of ctx k"

text \<open>What the OpenAI provider logs as the id of the request.\<close>

definition openai_request_id :: "ctx_values \<Rightarrow> string" where
  "openai_request_id ctx =
     (case ctx_Value ctx (StringKey ''request_id'') of None \<Rightarrow> ''unknown'' | Some i \<Rightarrow> i)"

lemma openai_never_sees_request_id:
  "openai_request_id (WithRequestID [] reqID) = ''unknown''"
  by (simp add: openai_request_id_def WithRequestID_def ctx_Value_def)

section \<open>Loggers in contexts\<close>

text \<open>
  \<^verbatim>\<open>WithLogger\<close> and \<^verbatim>\<open>GetLogger\<close> use the package's own key; the functions whose names end in
  \<^verbatim>\<open>Context\<close> ask zerolog for its logger, which is under zerolog's key.  Without one zerolog
  gives its default context logger, or, when the program has set none, a disabled logger,
  which writes nothing.
\<close>

datatype logger_key = LoggerKey | ZerologKey

type_synonym 'logger logger_ctx = "(logger_key \<times> 'logger) list"

definition WithLogger :: "'logger logger_ctx \<Rightarrow> 'logger \<Rightarrow> 'logger logger_ctx" where
  "WithLogger ctx logger = (LoggerKey, logger) # ctx"

definition GetLogger :: "'logger \<Rightarrow> 'logger logger_ctx \<Rightarrow> 'logger" where
  "GetLogger fallback ctx = (case map_of ctx LoggerKey of None \<Rightarrow> fallback | Some l \<Rightarrow> l)"

definition zerolog_Ctx :: "'logger option \<Rightarrow> 'logger logger_ctx \<Rightarrow> 'logger option" where
  "zerolog_Ctx defaultCtxLogger ctx =
     (case map_of ctx ZerologKey of None \<Rightarrow> defaultCtxLogger | Some l \<Rightarrow> Some l)"

text \<open>What is written, and by which logger.\<close>

definition log_ctx ::
  "'logger option \<Rightarrow> 'logger logger_ctx \<Rightarrow> zerolog_level \<Rightarrow> string \<Rightarrow> gmap option \<Rightarrow> ('logger \<times> log_entry) option" where
  "log_ctx defaultCtxLogger ctx level msg kv =
     map_option (\<lambda>l. (l, log_at level msg kv)) (zerolog_Ctx defaultCtxLogger ctx)"

definition DebugContext :: "'logger option \<Rightarrow> 'logger logger_ctx \<Rightarrow> string \<Rightarrow> gmap option \<Rightarrow> ('logger \<times> log_entry) option" where
  "DebugContext d ctx = log_ctx d ctx ZDebug"

definition InfoContext :: "'logger option \<Rightarrow> 'logger logger_ctx \<Rightarrow> string \<Rightarrow> gmap option \<Rightarrow> ('logger \<times> log_entry) option" where
  "InfoContext d ctx = log_ctx d ctx ZInfo"

definition WarnContext :: "'logger option \<Rightarrow> 'logger logger_ctx \<Rightarrow> string \<Rightarrow> gmap option \<Rightarrow> ('logger \<times> log_entry) option" where
  "WarnContext d ctx = log_ctx d ctx ZWarn"

definition ErrorContext ::
  "'logger option \<Rightarrow> 'logger logger_ctx \<Rightarrow> go_error option \<Rightarrow> string \<Rightarrow> gmap option \<Rightarrow>
   ('logger \<times> log_entry) option outcome" where
  "ErrorContext d ctx err msg kv =
     (case err of
        None \<Rightarrow> Panics
      | Some e \<Rightarrow> Returns (log_ctx d ctx ZError msg (Some (error_fields e kv))))"

text \<open>Nothing that the package offers changes what these functions write to.\<close>

lemma WithLogger_has_no_effect:
  "log_ctx d (WithLogger ctx logger) level msg kv = log_ctx d ctx level msg kv"
  by (simp add: log_ctx_def zerolog_Ctx_def WithLogger_def)

lemma context_logs_are_dropped: "log_ctx None [] level msg kv = None"
  by (simp add: log_ctx_def zerolog_Ctx_def)

section \<open>Timers\<close>

record Timer =
  tmName :: string
  tmStartTime :: gotime

definition NewTimer :: "string \<Rightarrow> gotime \<Rightarrow> Timer" where
  "NewTimer name now = \<lparr>tmName = name, tmStartTime = now\<rparr>"

text \<open>\<^verbatim>\<open>Duration.Milliseconds\<close> truncates towards zero.\<close>

definition Milliseconds :: "duration \<Rightarrow> int" where
  "Milliseconds d = go_quot d millisecond"

definition Timer_Stop :: "gotime \<Rightarrow> Timer \<Rightarrow> duration \<times> log_entry" where
  "Timer_Stop now t =
     (let elapsed = time_Sub now (tmStartTime t)
      in (elapsed, Log_Info (tmName t @ '' completed'')
           (Some [(''duration_ms'', VInt (Milliseconds elapsed))])))"

definition Timer_StopContext ::
  "'logger option \<Rightarrow> 'logger logger_ctx \<Rightarrow> gotime \<Rightarrow> Timer \<Rightarrow> duration \<times> ('logger \<times> log_entry) option" where
  "Timer_StopContext d ctx now t =
     (let elapsed = time_Sub now (tmStartTime t)
      in (elapsed, InfoContext d ctx (tmName t @ '' completed'')
           (Some [(''duration_ms'', VInt (Milliseconds elapsed))])))"

section \<open>Identifiers\<close>

text \<open>
  \<^verbatim>\<open>GenerateShortID\<close> reads the clock twice: once for the first part, and once for the seed of a
  generator whose first number below a million is the second part.  The generator is a
  parameter: a function of the seed.
\<close>

definition GenerateShortID :: "(int \<Rightarrow> int) \<Rightarrow> int \<Rightarrow> int \<Rightarrow> string" where
  "GenerateShortID intn t1 t2 = fmt_x t1 @ ''-'' @ fmt_x (intn t2)"

lemma fmt_x_no_dash: "0 \<le> i \<Longrightarrow> CHR ''-'' \<notin> set (fmt_x i)"
  using fmt_x_chars [of i] by auto

lemma GenerateShortID_inj:
  assumes "0 \<le> t1" "0 \<le> u1" "0 \<le> intn t2" "0 \<le> intn u2"
  shows "GenerateShortID intn t1 t2 = GenerateShortID intn u1 u2 \<longleftrightarrow> t1 = u1 \<and> intn t2 = intn u2"
proof
  assume "GenerateShortID intn t1 t2 = GenerateShortID intn u1 u2"
  then have "fmt_x t1 @ CHR ''-'' # fmt_x (intn t2) = fmt_x u1 @ CHR ''-'' # fmt_x (intn u2)"
    by (simp add: GenerateShortID_def)
  then have "fmt_x t1 = fmt_x u1 \<and> fmt_x (intn t2) = fmt_x (intn u2)"
    by (rule split_at_separator [OF _ fmt_x_no_dash [OF assms(1)] fmt_x_no_dash [OF assms(2)]])
  then show "t1 = u1 \<and> intn t2 = intn u2"
    using assms format_base_nonneg_inj [of t1 u1 16] format_base_nonneg_inj [of "intn t2" "intn u2" 16]
    by (simp add: fmt_x_def)
qed (simp add: GenerateShortID_def)

text \<open>
  GenerateShortID_fits_its_uses: an id made after 1970 contains no colon, so it can be a part
  of a waiter key, and only ASCII characters, so it survives JSON; and two ids are equal
  exactly when the first clock readings are equal and the seeds give the same number: two
  calls that read the same clock values always collide, the random part adds nothing.
\<close>

theorem GenerateShortID_fits_its_uses:
  assumes "\<forall>seed. 0 \<le> intn seed" "0 \<le> t1" "0 \<le> u1"
  shows "id_ok (GenerateShortID intn t1 t2) \<and> plain_id (GenerateShortID intn t1 t2) \<and>
    (GenerateShortID intn t1 t2 = GenerateShortID intn u1 u2 \<longleftrightarrow> t1 = u1 \<and> intn t2 = intn u2)"
proof -
  have "0 \<le> intn t2" using assms(1) by blast
  have "set (GenerateShortID intn t1 t2) = set (fmt_x t1) \<union> {CHR ''-''} \<union> set (fmt_x (intn t2))"
    by (simp add: GenerateShortID_def)
  also have "\<dots> \<subseteq> set ''0123456789abcdef-''"
  proof -
    have hex: "set ''0123456789abcdef'' \<subseteq> set ''0123456789abcdef-''" "{CHR ''-''} \<subseteq> set ''0123456789abcdef-''"
      by simp_all
    show ?thesis
      using order_trans [OF fmt_x_chars [OF assms(2)] hex(1)]
        order_trans [OF fmt_x_chars [OF \<open>0 \<le> intn t2\<close>] hex(1)] hex(2)
      by (intro Un_least)
  qed
  finally have sub: "set (GenerateShortID intn t1 t2) \<subseteq> set ''0123456789abcdef-''" .
  have "CHR '':'' \<notin> set ''0123456789abcdef-''" "\<forall>c \<in> set ''0123456789abcdef-''. (of_char c :: nat) < 128"
    by simp_all
  with sub have "id_ok (GenerateShortID intn t1 t2)" "plain_id (GenerateShortID intn t1 t2)"
    unfolding id_ok_def plain_id_def by blast+
  then show ?thesis
    using GenerateShortID_inj assms by blast
qed

theorem GenerateShortID_fits_its_uses_witness:
  "id_ok (GenerateShortID (\<lambda>s. s mod 1000000) 255 300) \<and>
   GenerateShortID (\<lambda>s. s mod 1000000) 255 300 = ''ff-12c'' \<and>
   GenerateShortID (\<lambda>s. s mod 1000000) 255 300 \<noteq> GenerateShortID (\<lambda>s. s mod 1000000) 255 301"
proof -
  have "\<forall>s. (0::int) \<le> s mod 1000000" by simp
  from GenerateShortID_fits_its_uses [OF this, of 255 255 300 301]
  have "id_ok (GenerateShortID (\<lambda>s. s mod 1000000) 255 300)"
    "GenerateShortID (\<lambda>s. s mod 1000000) 255 300 \<noteq> GenerateShortID (\<lambda>s. s mod 1000000) 255 301"
    by simp_all
  moreover have "GenerateShortID (\<lambda>s. s mod 1000000) 255 300 = ''ff-12c''"
    by (simp add: GenerateShortID_def fmt_x_def format_base_def nat_digits.simps digit_char_def)
  ultimately show ?thesis by blast
qed

end
