(* ===== verification/Handler.thy ===== *)
theory Handler
  imports Worker_System Logger
begin

text \<open>
  Package \<^verbatim>\<open>handler\<close> (request_handler.go and direct_handler.go) and the token calculator of
  cmd/server/main.go.  A handler is a function from the HTTP request to the reply that it
  writes; decoding the request and encoding the response are parameters
  (\<^verbatim>\<open>encoding/json\<close>).
\<close>

section \<open>HTTP\<close>

record inbound =
  inMethod :: string
  inBody :: "go_error + string"

record http_reply =
  hpStatus :: int
  hpHeaders :: "(string \<times> string) list"
  hpBody :: string

text \<open>\<^verbatim>\<open>http.Error\<close> writes the message with a line feed, as plain text.\<close>

definition http_Error :: "string \<Rightarrow> int \<Rightarrow> http_reply" where
  "http_Error msg code =
     \<lparr>hpStatus = code,
      hpHeaders = [(''Content-Type'', ''text/plain; charset=utf-8''), (''X-Content-Type-Options'', ''nosniff'')],
      hpBody = msg @ [CHR 0x0A]\<rparr>"

record LLMRequest =
  lrProviderName :: string
  lrModelName :: string
  lrPayload :: "gmap option"
  lrMaxWaitTime :: "duration option"

definition request_timeout :: duration where
  "request_timeout = 5 * minute"

section \<open>Token cost\<close>

definition CalculateTokenCost :: "Request \<Rightarrow> go_error + int" where
  "CalculateTokenCost request =
     (let baseCost = 10 in
      if rqPayload request \<noteq> None then
        (case as_string (gm_index (rqPayload request) ''prompt'') of
           Some content \<Rightarrow> Inr (baseCost + go_quot (int (length content)) 4)
         | None \<Rightarrow> Inr baseCost)
      else Inr baseCost)"

text \<open>Only the prompt counts; the messages of a chat request do not.\<close>

lemma CalculateTokenCost_ignores_messages:
  "gm_lookup (rqPayload req) ''prompt'' = None \<Longrightarrow> CalculateTokenCost req = Inr 10"
  by (simp add: CalculateTokenCost_def gm_index_def)

lemma CalculateTokenCost_range: "\<exists>c. CalculateTokenCost req = Inr c \<and> 10 \<le> c"
  by (auto simp: CalculateTokenCost_def go_quot_nonneg split: option.split)

section \<open>The queueing handler\<close>

text \<open>The part before the request is queued: a reply, or the request, its cost and its timeout.\<close>

definition wait_limit :: "duration option \<Rightarrow> duration" where
  "wait_limit maxWait =
     (case maxWait of
        Some d \<Rightarrow> if 0 < d then (if d < request_timeout then d else request_timeout) else request_timeout
      | None \<Rightarrow> request_timeout)"

definition admit ::
  "(string \<Rightarrow> go_error + LLMRequest) \<Rightarrow> (Request \<Rightarrow> go_error + int) \<Rightarrow> inbound \<Rightarrow>
   http_reply + (Request \<times> int \<times> duration)" where
  "admit decode calc r =
     (if inMethod r \<noteq> ''POST'' then Inl (http_Error ''Method not allowed'' 405)
      else
        case inBody r of
          Inl err \<Rightarrow> Inl (http_Error ''Failed to read request body'' 400)
        | Inr body \<Rightarrow>
            (case decode body of
               Inl err \<Rightarrow> Inl (http_Error ''Invalid request format'' 400)
             | Inr llmReq \<Rightarrow>
                 if lrProviderName llmReq = '''' \<or> lrModelName llmReq = '''' \<or> lrPayload llmReq = None
                 then Inl (http_Error ''Missing required fields: provider, model, or payload'' 400)
                 else
                   let llmRequest = \<lparr>rqProviderName = lrProviderName llmReq,
                                     rqModelName = lrModelName llmReq,
                                     rqPayload = lrPayload llmReq\<rparr>
                   in (case calc llmRequest of
                         Inl err \<Rightarrow> Inl (http_Error ''Error calculating token cost'' 500)
                       | Inr tokenCost \<Rightarrow> Inr (llmRequest, tokenCost, wait_limit (lrMaxWaitTime llmReq)))))"

text \<open>Then the request goes to the worker with a fresh channel of capacity one.\<close>

definition ServeHTTP_start ::
  "(string \<Rightarrow> go_error + LLMRequest) \<Rightarrow> ('q, 'l, 'b) worker_env \<Rightarrow> string \<Rightarrow> gotime \<Rightarrow> gotime \<Rightarrow> gotime \<Rightarrow>
   inbound \<Rightarrow> ('q, 'l) world \<Rightarrow> (http_reply + (chan \<times> duration)) \<times> ('q, 'l) world" where
  "ServeHTTP_start decode we newID t t1 t2 r w =
     (case admit decode CalculateTokenCost r of
        Inl reply \<Rightarrow> (Inl reply, w)
      | Inr (llmRequest, tokenCost, timeout) \<Rightarrow>
          let (c, cs) = make_chan 1 (woChans w);
              (err, w') = EnqueueRequest we newID llmRequest tokenCost c t t1 t2 (w\<lparr>woChans := cs\<rparr>)
          in (case err of
                Some e \<Rightarrow> (Inl (http_Error ''Failed to process request'' 500), w')
              | None \<Rightarrow> (Inr (c, timeout), w')))"

text \<open>How the wait ends: with a response from the worker, possibly nil, or with the context.\<close>

datatype wait_end = Responded "Response option" | ContextEnded go_error

definition json_reply ::
  "(Response \<Rightarrow> go_error + string) \<Rightarrow> (string \<times> string) list \<Rightarrow> Response \<Rightarrow> http_reply" where
  "json_reply encode headers resp =
     \<lparr>hpStatus = 200, hpHeaders = headers,
      hpBody = (case encode resp of Inl err \<Rightarrow> '''' | Inr s \<Rightarrow> s)\<rparr>"

definition ServeHTTP_finish ::
  "(Response \<Rightarrow> go_error + string) \<Rightarrow> string \<Rightarrow> wait_end \<Rightarrow> http_reply" where
  "ServeHTTP_finish encode requestID e =
     (case e of
        Responded None \<Rightarrow> http_Error ''Internal server error: nil response'' 500
      | Responded (Some resp) \<Rightarrow>
          (case rsError resp of
             Some err \<Rightarrow> http_Error (''Error from LLM provider: '' @ error_text err) 500
           | None \<Rightarrow>
               json_reply encode
                 [(''X-Tokens-Used'', fmt_d (rsTokensUsed resp)), (''Content-Type'', ''application/json''),
                  (''X-Request-ID'', requestID)] resp)
      | ContextEnded err \<Rightarrow> http_Error ''Request timed out'' 408)"

text \<open>The health check, with the formatted time.\<close>

definition HandleHealth :: "((string \<times> string) list \<Rightarrow> string) \<Rightarrow> string \<Rightarrow> http_reply" where
  "HandleHealth encode now =
     \<lparr>hpStatus = 200, hpHeaders = [(''Content-Type'', ''application/json'')],
      hpBody = encode [(''status'', ''ok''), (''time'', now)]\<rparr>"

section \<open>The direct handler\<close>

definition Direct_ServeHTTP ::
  "(string \<Rightarrow> go_error + LLMRequest) \<Rightarrow> (Response \<Rightarrow> go_error + string) \<Rightarrow> llm_env \<Rightarrow> Service \<Rightarrow> string \<Rightarrow>
   string \<Rightarrow> inbound \<Rightarrow> http_reply \<times> http_log" where
  "Direct_ServeHTTP decode encode env svc requestID elapsed r =
     (if inMethod r \<noteq> ''POST'' then (http_Error ''Method not allowed'' 405, [])
      else
        case inBody r of
          Inl err \<Rightarrow> (http_Error ''Failed to read request body'' 400, [])
        | Inr body \<Rightarrow>
            (case decode body of
               Inl err \<Rightarrow> (http_Error ''Invalid request format'' 400, [])
             | Inr llmReq \<Rightarrow>
                 if lrProviderName llmReq = '''' \<or> lrModelName llmReq = '''' \<or> lrPayload llmReq = None
                 then (http_Error ''Missing required fields: provider, model, or payload'' 400, [])
                 else
                   let llmRequest = \<lparr>rqProviderName = lrProviderName llmReq,
                                     rqModelName = lrModelName llmReq,
                                     rqPayload = lrPayload llmReq\<rparr>
                   in (case Process env svc llmRequest of
                         ((Inl err, lg), req') \<Rightarrow>
                           (http_Error (''Error from LLM provider: '' @ error_text err) 500, lg)
                       | ((Inr response, lg), req') \<Rightarrow>
                           (json_reply encode
                              [(''X-Tokens-Used'', fmt_d (rsTokensUsed response)),
                               (''Content-Type'', ''application/json''), (''X-Request-ID'', requestID),
                               (''X-Processing-Time'', elapsed)] response, lg))))"

section \<open>Properties\<close>


lemma admit_cost: "admit decode calc r = Inr (req, cost, timeout) \<Longrightarrow> calc req = Inr cost"
  by (auto simp: admit_def Let_def split: sum.splits if_splits)

text \<open>
  admitted_costs_are_valid: the limiter never rejects the cost of an admitted request as
  invalid, so the worker's limiter-error branch is dead for requests of this handler.
\<close>

theorem admitted_costs_are_valid:
  assumes "admit decode CalculateTokenCost r = Inr (req, cost, timeout)"
  shows "\<exists>b tb'. Allow cost t tb = (Inr b, tb')"
proof -
  have "10 \<le> cost"
    using admit_cost [OF assms] CalculateTokenCost_range [of req] by auto
  then show ?thesis by (auto simp: Allow_def AllowN_def Let_def)
qed


text \<open>
  finished_replies: the status that the client sees is 200 exactly for a response without an
  error, and then the headers carry its token count and the request id; it is 408 exactly
  when the context ended first, and 500 otherwise.
\<close>

theorem finished_replies:
  "case e of
     Responded (Some resp) \<Rightarrow>
       (if rsError resp = None
        then hpStatus (ServeHTTP_finish encode requestID e) = 200 \<and>
          map_of (hpHeaders (ServeHTTP_finish encode requestID e)) ''X-Tokens-Used'' = Some (fmt_d (rsTokensUsed resp)) \<and>
          map_of (hpHeaders (ServeHTTP_finish encode requestID e)) ''X-Request-ID'' = Some requestID
        else hpStatus (ServeHTTP_finish encode requestID e) = 500)
   | Responded None \<Rightarrow> hpStatus (ServeHTTP_finish encode requestID e) = 500
   | ContextEnded err \<Rightarrow> hpStatus (ServeHTTP_finish encode requestID e) = 408"
  by (auto simp: ServeHTTP_finish_def json_reply_def http_Error_def split: wait_end.split option.split)

text \<open>
  direct_handler_is_unthrottled: the direct handler passes every well-formed request on to the
  service, with no limiter or queue between: its reply is that of \<^verbatim>\<open>Process\<close>, 200 exactly when
  \<^verbatim>\<open>Process\<close> succeeds, and it issues the HTTP requests that \<^verbatim>\<open>Process\<close> issues.
\<close>

theorem direct_handler_is_unthrottled:
  assumes "admit decode calc r = Inr (req, cost, timeout)"
  shows "snd (Direct_ServeHTTP decode encode env svc requestID elapsed r) = snd (fst (Process env svc req)) \<and>
    (hpStatus (fst (Direct_ServeHTTP decode encode env svc requestID elapsed r)) = 200 \<longleftrightarrow>
       (\<exists>resp. fst (fst (Process env svc req)) = Inr resp)) \<and>
    hpStatus (fst (Direct_ServeHTTP decode encode env svc requestID elapsed r)) \<in> {200, 500}"
  using assms
  by (auto simp: admit_def Direct_ServeHTTP_def json_reply_def http_Error_def Let_def
      split: sum.splits if_splits prod.splits)

section \<open>From the client to the service and back\<close>

lemma ServeHTTP_start_queued:
  assumes "ServeHTTP_start decode (mem_env enc dec config) i t t1 t2 r w = (Inr (c, timeout), w1)"
  obtains req cost d where "admit decode CalculateTokenCost r = Inr (req, cost, timeout)"
    "enc (new_request i req cost t) = Inr d" "Get i (woRegistry w1) = Some c"
    "items (woQueue w1) = items (woQueue w) @ [stamp t2 (new_item (new_request i req cost t) req d t1)]"
    "woLimiter w1 = woLimiter w" "chBuf (woChans w1) c = []" "chCap (woChans w1) c = 1"
proof -
  obtain req cost where admit: "admit decode CalculateTokenCost r = Inr (req, cost, timeout)"
    using assms by (auto simp: ServeHTTP_start_def Let_def split: sum.splits prod.splits option.splits)
  obtain d where d: "enc (new_request i req cost t) = Inr d"
    using assms admit by (cases "enc (new_request i req cost t)")
      (auto simp: ServeHTTP_start_def EnqueueRequest_def submit_def mem_env_def Let_def make_chan_def)
  obtain e Q' where enq: "Enqueue t2 (Some (new_item (new_request i req cost t) req d t1)) (woQueue w) = (e, Q')"
    by fastforce
  then have "e = None"
    using assms admit d by (cases e)
      (auto simp: ServeHTTP_start_def EnqueueRequest_def submit_def mem_env_def Let_def make_chan_def)
  then show ?thesis
    using that [OF admit d] assms admit d enq mem.enq_accepts [of t2 _ "woQueue w" Q']
    by (auto simp: ServeHTTP_start_def EnqueueRequest_def submit_def mem_env_def Let_def make_chan_def
        registry.get_register)
qed

lemma new_request_simps:
  "qrRequest (new_request i req cost t) = Some req" "qrTokenCost (new_request i req cost t) = cost"
  "qrRequestID (new_request i req cost t) = i" "qData (new_item q req d t1) = d"
  by (simp_all add: new_request_def new_item_def)


section \<open>A concrete request\<close>

definition example_inbound :: inbound where
  "example_inbound = \<lparr>inMethod = ''POST'', inBody = Inr ''body''\<rparr>"

definition example_decode :: "string \<Rightarrow> go_error + LLMRequest" where
  "example_decode s = Inr \<lparr>lrProviderName = ''openai'', lrModelName = ''m'', lrPayload = Some [], lrMaxWaitTime = Some second\<rparr>"

definition example_admitted :: Request where
  "example_admitted = \<lparr>rqProviderName = ''openai'', rqModelName = ''m'', rqPayload = Some []\<rparr>"

lemma example_admit:
  "admit example_decode CalculateTokenCost example_inbound = Inr (example_admitted, 10, second)"
  by (simp add: admit_def example_inbound_def example_decode_def example_admitted_def wait_limit_def
      CalculateTokenCost_def gm_index_def gm_lookup_def request_timeout_def duration_defs)

definition large_bucket :: TokenBucket where
  "large_bucket = example_bucket\<lparr>bucketSize := 20, availableTokens := 20\<rparr>"

lemma large_bucket_ok: "tb_ok large_bucket"
  by (simp add: large_bucket_def tb_ok_def is_f64_numeral)

lemma large_bucket_allows: "fst (Allow 10 0 large_bucket) = Inr True"
proof -
  have "availableTokens (refill 0 large_bucket) = 20"
    by (simp add: large_bucket_def refill_def Let_def time_Sub_def int64_min_def int64_max_def Seconds_def
        go_quot_def go_rem_def f64_of_int_def f64_div_def f64_add_def f64_mul_def
        f64_rnd_of_int [of 20, simplified])
  then show ?thesis
    by (simp add: Allow_def AllowN_def Let_def f64_of_int_def f64_rnd_of_int [of 10, simplified])
qed

definition large_world :: "QueuedRequest mem_world" where
  "large_world = (syWorld example_start)\<lparr>woLimiter := large_bucket\<rparr>"

lemma large_world_simps [simp]:
  "items (woQueue large_world) = []" "woLimiter large_world = large_bucket"
  "woChans large_world = no_chans" "maxSize (woQueue large_world) = 3"
  by (simp_all add: large_world_def example_start_record NewInMemoryQueue_def example_qc_def)

lemma example_started:
  "fst (ServeHTTP_start example_decode (mem_env Inr Inr example_wc) ''a'' 1 1 1 example_inbound large_world) =
     Inr (0, second)"
  by (simp add: ServeHTTP_start_def example_admit make_chan_def no_chans_def EnqueueRequest_def submit_def
      mem_env_def Enqueue_def Let_def)

theorem admitted_costs_are_valid_witness: "\<exists>b tb'. Allow 10 0 large_bucket = (Inr b, tb')"
  by (rule admitted_costs_are_valid [OF example_admit])


theorem direct_handler_is_unthrottled_witness:
  "hpStatus (fst (Direct_ServeHTTP example_decode (\<lambda>r. Inr ''{}'') json_env example_service ''a'' ''1s'' example_inbound))
     \<in> {200, 500}"
  using direct_handler_is_unthrottled [OF example_admit] by blast


end
