(* ===== verification/Strconv.thy ===== *)
theory Strconv
  imports Text
begin

text \<open>
  Package \<^verbatim>\<open>strconv\<close>: \<^verbatim>\<open>ParseInt(s, 10, 64)\<close> and \<^verbatim>\<open>Atoi\<close>, and that they read back what \<^verbatim>\<open>%d\<close>
  prints.
\<close>

section \<open>Decimal digits\<close>

datatype num_error = NumSyntax | NumRange

definition digit_value :: "char \<Rightarrow> nat option" where
  "digit_value c =
     (let v = of_char c :: nat in if 48 \<le> v \<and> v \<le> 57 then Some (v - 48) else None)"

text \<open>Unsigned digits, from left to right; the first bad digit or overflow decides.\<close>

fun ParseUint :: "string \<Rightarrow> nat \<Rightarrow> num_error + nat" where
  "ParseUint [] n = Inr n"
| "ParseUint (c # cs) n =
     (case digit_value c of
        None \<Rightarrow> Inl NumSyntax
      | Some d \<Rightarrow> if 2 ^ 64 \<le> 10 * n + d then Inl NumRange else ParseUint cs (10 * n + d))"

definition ParseInt :: "string \<Rightarrow> num_error + int" where
  "ParseInt s =
     (case s of
        [] \<Rightarrow> Inl NumSyntax
      | c # cs \<Rightarrow>
          let neg = c = CHR ''-'';
              ds = if c = CHR ''-'' \<or> c = CHR ''+'' then cs else s
          in if ds = [] then Inl NumSyntax
             else (case ParseUint ds 0 of
                     Inl e \<Rightarrow> Inl e
                   | Inr un \<Rightarrow>
                       if \<not> neg \<and> 2 ^ 63 \<le> un then Inl NumRange
                       else if neg \<and> 2 ^ 63 < un then Inl NumRange
                       else Inr (if neg then - int un else int un)))"

text \<open>The error text, for a text that \<^verbatim>\<open>strconv.Quote\<close> leaves as it is.\<close>

definition num_error_text :: "string \<Rightarrow> string \<Rightarrow> num_error \<Rightarrow> string" where
  "num_error_text fn s e =
     ''strconv.'' @ fn @ '': parsing '' @ [CHR 0x22] @ s @ [CHR 0x22] @ '': '' @
     (case e of NumSyntax \<Rightarrow> ''invalid syntax'' | NumRange \<Rightarrow> ''value out of range'')"

section \<open>Round trip\<close>

lemma digit_value_digit_char: "d < 10 \<Longrightarrow> digit_value (digit_char d) = Some d"
proof -
  have "\<forall>d \<in> set [0..<10]. digit_value (digit_char d) = Some d"
    by (simp add: digit_value_def digit_char_def upt_rec)
  then show "d < 10 \<Longrightarrow> digit_value (digit_char d) = Some d" by simp
qed

lemma ParseUint_append:
  "ParseUint (xs @ ys) n = (case ParseUint xs n of Inl e \<Rightarrow> Inl e | Inr m \<Rightarrow> ParseUint ys m)"
  by (induction xs arbitrary: n) (auto split: option.split)

text \<open>Printed digits are read back, and a number that does not fit is a range error.\<close>

lemma ParseUint_digits: "ParseUint (nat_digits 10 n) 0 = (if n < 2 ^ 64 then Inr n else Inl NumRange)"
proof (induction n rule: less_induct)
  case (less n)
  show ?case
  proof (cases "n < 10")
    case True
    then show ?thesis
      by (subst nat_digits.simps) (simp add: digit_value_digit_char)
  next
    case False
    then have "ParseUint (nat_digits 10 (n div 10)) 0 = (if n div 10 < 2 ^ 64 then Inr (n div 10) else Inl NumRange)"
      by (intro less.IH) simp
    moreover have "10 * (n div 10) + n mod 10 = n" by simp
    ultimately show ?thesis
      using False
      by (subst nat_digits.simps) (auto simp: ParseUint_append digit_value_digit_char)
  qed
qed

lemma nat_digits_unsigned: "hd (nat_digits 10 n) \<notin> {CHR ''-'', CHR ''+''}"
proof -
  have "hd (nat_digits 10 n) \<in> set ''0123456789abcdef''"
    by (rule subsetD [OF nat_digits_range hd_in_set]) simp_all
  moreover have "CHR ''-'' \<notin> set ''0123456789abcdef''" "CHR ''+'' \<notin> set ''0123456789abcdef''" by simp_all
  ultimately show ?thesis by (metis emptyE insertE)
qed

lemma ParseInt_fmt_d_any:
  "ParseInt (fmt_d i) = (if int64_min \<le> i \<and> i \<le> int64_max then Inr i else Inl NumRange)"
proof (cases "i < 0")
  case True
  then show ?thesis
    by (auto simp: ParseInt_def fmt_d_def format_base_def Let_def ParseUint_digits int64_min_def int64_max_def)
next
  case False
  obtain c cs where ds: "nat_digits 10 (nat i) = c # cs"
    using nat_digits_nonempty [of 10 "nat i"] by (cases "nat_digits 10 (nat i)") auto
  then have "c \<noteq> CHR ''-''" "c \<noteq> CHR ''+''"
    using nat_digits_unsigned [of "nat i"] by auto
  then show ?thesis
    using False ParseUint_digits [of "nat i"]
    by (auto simp: ParseInt_def fmt_d_def format_base_def Let_def ds int64_min_def int64_max_def)
qed

lemma ParseInt_fmt_d: "int64_min \<le> i \<Longrightarrow> i \<le> int64_max \<Longrightarrow> ParseInt (fmt_d i) = Inr i"
  by (simp add: ParseInt_fmt_d_any)

lemma ParseInt_range: "ParseInt s = Inr i \<Longrightarrow> int64_min \<le> i \<and> i \<le> int64_max"
  by (auto simp: ParseInt_def int64_min_def int64_max_def Let_def split: list.splits sum.splits if_splits)

end
