(* ===== verification/Redis.thy ===== *)
theory Redis
  imports Prelude
begin

text \<open>
  The connection to Redis, as both Redis-backed components see it.  What a command does to the
  store is a parameter of those components; here is what can become of one use of the
  connection.
\<close>

text \<open>
  One use of the connection: the script runs and its reply arrives, the script does not
  run, or it runs and the reply is lost.
\<close>

datatype link = LinkUp | NotSent go_error | ReplyLost go_error

definition run_script :: "link \<Rightarrow> ('db \<Rightarrow> (go_error + 'r) \<times> 'db) \<Rightarrow> 'db \<Rightarrow> (go_error + 'r) \<times> 'db" where
  "run_script lk script db =
     (case lk of
        LinkUp \<Rightarrow> script db
      | NotSent err \<Rightarrow> (Inl err, db)
      | ReplyLost err \<Rightarrow> (Inl err, snd (script db)))"

lemma run_script_simps [simp]:
  "run_script LinkUp script db = script db"
  "run_script (NotSent err) script db = (Inl err, db)"
  "run_script (ReplyLost err) script db = (Inl err, snd (script db))"
  by (simp_all add: run_script_def)

definition next_link :: "link list \<Rightarrow> link" where
  "next_link lks = (case lks of [] \<Rightarrow> LinkUp | lk # _ \<Rightarrow> lk)"

end
