(* ===== verification/Redis_Limiter.thy ===== *)
theory Redis_Limiter
  imports Token_Bucket Strconv Redis
begin

text \<open>
  Package \<^verbatim>\<open>limiter\<close>, file redis_limiter.go: the token bucket whose level lives in Redis.  The
  Lua scripts are functions on the state of Redis.  Redis itself is a parameter: its \<^verbatim>\<open>GET\<close>
  and \<^verbatim>\<open>SET\<close> on numbers, the text of a Lua number, and the state of the connection at each
  call.
\<close>

section \<open>Redis\<close>

text \<open>
  \<^verbatim>\<open>tonumber(redis.call('GET', k))\<close> of a present key; \<^verbatim>\<open>SET k v EX s\<close>, which fails for an
  expiry that is not positive; and \<^verbatim>\<open>tostring\<close>.
\<close>

record 'db redis_env =
  reGet :: "string \<Rightarrow> 'db \<Rightarrow> rat option"
  reSet :: "string \<Rightarrow> rat \<Rightarrow> int \<Rightarrow> 'db \<Rightarrow> 'db"
  reExpireError :: go_error
  reToString :: "rat \<Rightarrow> string"

text \<open>
  What the limiter relies on: a number that was set is read back as it is (Redis writes Lua
  numbers with 17 digits), other keys keep theirs, a whole number below \<^verbatim>\<open>10^14\<close> prints as
  its digits, and no positive number prints as a zero.  No key expires within the runs considered.
\<close>

definition redis_ok :: "'db redis_env \<Rightarrow> bool" where
  "redis_ok re \<longleftrightarrow>
     (\<forall>k v e db. reGet re k (reSet re k v e db) = Some v) \<and>
     (\<forall>k k' v e db. k \<noteq> k' \<longrightarrow> reGet re k' (reSet re k v e db) = reGet re k' db) \<and>
     (\<forall>i. 0 \<le> i \<and> i < 10 ^ 14 \<longrightarrow> reToString re (of_int i) = fmt_d i) \<and>
     (\<forall>i. 0 < i \<longrightarrow> ParseInt (reToString re (of_int i)) \<noteq> Inr 0)"

lemma redis_get_set:
  "redis_ok re \<Longrightarrow> reGet re k' (reSet re k v e db) = (if k = k' then Some v else reGet re k' db)"
  by (simp add: redis_ok_def)

definition redis_SET ::
  "'db redis_env \<Rightarrow> string \<Rightarrow> rat \<Rightarrow> int \<Rightarrow> 'db \<Rightarrow> go_error + 'db" where
  "redis_SET re k v expiry db =
     (if expiry \<le> 0 then Inl (reExpireError re) else Inr (reSet re k v expiry db))"

section \<open>The scripts\<close>

text \<open>
  What all three start with: the level after the refill, computed in Lua's numbers, which are
  float64.  Arguments are the keys, then the bucket size, the rate and the time.
\<close>

definition lua_refill ::
  "'db redis_env \<Rightarrow> string \<Rightarrow> string \<Rightarrow> rat \<Rightarrow> rat \<Rightarrow> rat \<Rightarrow> 'db \<Rightarrow> rat" where
  "lua_refill re bucket_key timestamp_key bucket_size tokens_per_sec now db =
     (let last_refill = (case reGet re timestamp_key db of None \<Rightarrow> now | Some v \<Rightarrow> v);
          current_tokens = (case reGet re bucket_key db of None \<Rightarrow> bucket_size | Some v \<Rightarrow> v);
          elapsed_seconds = f64_sub now last_refill;
          tokens_to_add = f64_mul elapsed_seconds tokens_per_sec
      in min bucket_size (f64_add current_tokens tokens_to_add))"

definition allowScript ::
  "'db redis_env \<Rightarrow> string \<Rightarrow> string \<Rightarrow> rat \<Rightarrow> rat \<Rightarrow> rat \<Rightarrow> rat \<Rightarrow> int \<Rightarrow> 'db \<Rightarrow> (go_error + int) \<times> 'db" where
  "allowScript re bucket_key timestamp_key bucket_size tokens_per_sec now token_cost key_expiry db =
     (let current_tokens = lua_refill re bucket_key timestamp_key bucket_size tokens_per_sec now db
      in (case redis_SET re timestamp_key now key_expiry db of
            Inl err \<Rightarrow> (Inl err, db)
          | Inr db1 \<Rightarrow>
              if token_cost \<le> current_tokens then
                (case redis_SET re bucket_key (f64_sub current_tokens token_cost) key_expiry db1 of
                   Inl err \<Rightarrow> (Inl err, db1)
                 | Inr db2 \<Rightarrow> (Inr 1, db2))
              else
                (case redis_SET re bucket_key current_tokens key_expiry db1 of
                   Inl err \<Rightarrow> (Inl err, db1)
                 | Inr db2 \<Rightarrow> (Inr 0, db2))))"

definition getAvailableScript ::
  "'db redis_env \<Rightarrow> string \<Rightarrow> string \<Rightarrow> rat \<Rightarrow> rat \<Rightarrow> rat \<Rightarrow> int \<Rightarrow> 'db \<Rightarrow> (go_error + rat) \<times> 'db" where
  "getAvailableScript re bucket_key timestamp_key bucket_size tokens_per_sec now key_expiry db =
     (let new_tokens = lua_refill re bucket_key timestamp_key bucket_size tokens_per_sec now db
      in (case redis_SET re timestamp_key now key_expiry db of
            Inl err \<Rightarrow> (Inl err, db)
          | Inr db1 \<Rightarrow>
              (case redis_SET re bucket_key new_tokens key_expiry db1 of
                 Inl err \<Rightarrow> (Inl err, db1)
               | Inr db2 \<Rightarrow> (Inr new_tokens, db2))))"

definition reserveScript ::
  "'db redis_env \<Rightarrow> string \<Rightarrow> string \<Rightarrow> rat \<Rightarrow> rat \<Rightarrow> rat \<Rightarrow> rat \<Rightarrow> int \<Rightarrow> 'db \<Rightarrow> (go_error + string) \<times> 'db" where
  "reserveScript re bucket_key timestamp_key bucket_size tokens_per_sec now token_cost key_expiry db =
     (let current_tokens = lua_refill re bucket_key timestamp_key bucket_size tokens_per_sec now db
      in (case redis_SET re timestamp_key now key_expiry db of
            Inl err \<Rightarrow> (Inl err, db)
          | Inr db1 \<Rightarrow>
              if token_cost \<le> current_tokens then
                (case redis_SET re bucket_key (f64_sub current_tokens token_cost) key_expiry db1 of
                   Inl err \<Rightarrow> (Inl err, db1)
                 | Inr db2 \<Rightarrow> (Inr ''0'', db2))
              else
                (case redis_SET re bucket_key current_tokens key_expiry db1 of
                   Inl err \<Rightarrow> (Inl err, db1)
                 | Inr db2 \<Rightarrow>
                     let tokens_needed = f64_sub token_cost current_tokens;
                         wait_seconds = f64_div tokens_needed tokens_per_sec;
                         wait_ms = of_int \<lceil>f64_mul wait_seconds 1000\<rceil>
                     in (Inr (reToString re wait_ms), db2))))"

section \<open>The limiter\<close>

record RedisTokenBucket =
  rlTokensPerSecond :: rat
  rlBucketSize :: int
  rlKeyPrefix :: string
  rlKeyExpiry :: duration
  rlWaiters :: "string \<Rightarrow> nat option"
  rlWaitersByID :: "string \<Rightarrow> string option"
  rlChanNext :: nat
  rlChanClosed :: "nat list"

definition redis_options :: "LimiterConfig \<Rightarrow> LimiterRedisOptions" where
  "redis_options config =
     (let opts = (case lcRedisOptions config of
                    None \<Rightarrow> \<lparr>lKeyPrefix = ''limiter:'', lKeyExpiry = 24 * hour, lLuaScriptPath = ''''\<rparr>
                  | Some opts \<Rightarrow> opts);
          opts = (if lKeyPrefix opts = '''' then opts\<lparr>lKeyPrefix := ''limiter:''\<rparr> else opts)
      in if lKeyExpiry opts \<le> 0 then opts\<lparr>lKeyExpiry := 24 * hour\<rparr> else opts)"

definition NewRedisTokenBucket :: "LimiterConfig \<Rightarrow> 'client option \<Rightarrow> go_error + RedisTokenBucket" where
  "NewRedisTokenBucket config client =
     (if client = None then Inl (ErrorNew ''redis client is required'')
      else Inr \<lparr>rlTokensPerSecond = default_rate config,
                rlBucketSize = default_size config,
                rlKeyPrefix = lKeyPrefix (redis_options config),
                rlKeyExpiry = lKeyExpiry (redis_options config),
                rlWaiters = Map.empty,
                rlWaitersByID = Map.empty,
                rlChanNext = 0,
                rlChanClosed = []\<rparr>)"

definition NewRedisLimiterWithClient :: "LimiterConfig \<Rightarrow> 'client option \<Rightarrow> go_error + RedisTokenBucket" where
  "NewRedisLimiterWithClient config client =
     (if lcType config \<noteq> RedisLimiter then Inl (ErrorNew ''config type must be RedisLimiter'')
      else NewRedisTokenBucket config client)"

definition getBucketKey :: "RedisTokenBucket \<Rightarrow> string \<Rightarrow> string" where
  "getBucketKey rl key = rlKeyPrefix rl @ ''bucket:'' @ key"

definition getTimestampKey :: "RedisTokenBucket \<Rightarrow> string \<Rightarrow> string" where
  "getTimestampKey rl key = rlKeyPrefix rl @ ''timestamp:'' @ key"

text \<open>\<^verbatim>\<open>time.Unix\<close>: whole seconds since 1970, which is this many seconds after the year 1.\<close>

definition Unix :: "gotime \<Rightarrow> int" where
  "Unix t = t div second - 62135596800"

definition key_expiry_seconds :: "RedisTokenBucket \<Rightarrow> int" where
  "key_expiry_seconds rl = f64_to_int (Seconds (rlKeyExpiry rl))"

definition backend_error :: "go_error \<Rightarrow> go_error" where
  "backend_error err = Wrapf '''' LimiterBackendUnavailable ('': '' @ error_text err)"

definition Redis_AllowN ::
  "'db redis_env \<Rightarrow> link \<Rightarrow> RedisTokenBucket \<Rightarrow> string \<Rightarrow> int \<Rightarrow> gotime \<Rightarrow> 'db \<Rightarrow> (go_error + bool) \<times> 'db" where
  "Redis_AllowN re lk rl key tokenCost now db =
     (if tokenCost \<le> 0 then (Inl ErrInvalidTokenCost, db)
      else
        case run_script lk
               (allowScript re (getBucketKey rl key) (getTimestampKey rl key)
                  (f64_of_int (rlBucketSize rl)) (rlTokensPerSecond rl) (f64_of_int (Unix now))
                  (f64_of_int tokenCost) (key_expiry_seconds rl)) db of
          (Inl err, db') \<Rightarrow> (Inl (backend_error err), db')
        | (Inr result, db') \<Rightarrow> (Inr (result = 1), db'))"

definition Redis_Allow ::
  "'db redis_env \<Rightarrow> link \<Rightarrow> RedisTokenBucket \<Rightarrow> int \<Rightarrow> gotime \<Rightarrow> 'db \<Rightarrow> (go_error + bool) \<times> 'db" where
  "Redis_Allow re lk rl tokenCost now db = Redis_AllowN re lk rl ''default'' tokenCost now db"

text \<open>A Lua number becomes an integer reply by truncation.\<close>

definition Redis_GetTokensAvailableN ::
  "'db redis_env \<Rightarrow> link \<Rightarrow> RedisTokenBucket \<Rightarrow> string \<Rightarrow> gotime \<Rightarrow> 'db \<Rightarrow> (go_error + int) \<times> 'db" where
  "Redis_GetTokensAvailableN re lk rl key now db =
     (case run_script lk
             (getAvailableScript re (getBucketKey rl key) (getTimestampKey rl key)
                (f64_of_int (rlBucketSize rl)) (rlTokensPerSecond rl) (f64_of_int (Unix now))
                (key_expiry_seconds rl)) db of
        (Inl err, db') \<Rightarrow>
          if err = RedisNil then (Inr (rlBucketSize rl), db') else (Inl (backend_error err), db')
      | (Inr tokens, db') \<Rightarrow> (Inr (f64_to_int tokens), db'))"

definition Redis_GetTokensAvailable ::
  "'db redis_env \<Rightarrow> link \<Rightarrow> RedisTokenBucket \<Rightarrow> gotime \<Rightarrow> 'db \<Rightarrow> (go_error + int) \<times> 'db" where
  "Redis_GetTokensAvailable re lk rl now db = Redis_GetTokensAvailableN re lk rl ''default'' now db"

section \<open>Reservations\<close>

record redisReservation =
  rrTokens :: int
  rrTimeToProcess :: gotime
  rrKey :: string
  rrReservationID :: string
  rrOk :: bool

text \<open>What the goroutine of \<^verbatim>\<open>ReserveN\<close> captures.\<close>

record redisTask =
  rkWaitMs :: int
  rkTokenCost :: int
  rkKey :: string
  rkWaiterKey :: string
  rkReservationID :: string

text \<open>
  \<^verbatim>\<open>ReserveN\<close> reads the clock for the script and again for the time to process.  The wait in
  milliseconds is the text that the script returns; as a \<^verbatim>\<open>time.Duration\<close> it wraps around.
\<close>

definition wait_duration :: "int \<Rightarrow> duration" where
  "wait_duration waitMs = wrap64 (waitMs * millisecond)"

definition Redis_ReserveN ::
  "'db redis_env \<Rightarrow> link \<Rightarrow> string \<Rightarrow> int \<Rightarrow> gotime \<Rightarrow> gotime \<Rightarrow> string \<Rightarrow> RedisTokenBucket \<Rightarrow> 'db \<Rightarrow>
   (go_error + redisReservation \<times> redisTask option) \<times> RedisTokenBucket \<times> 'db" where
  "Redis_ReserveN re lk key tokenCost now now' newID rl db =
     (if tokenCost \<le> 0 then (Inl ErrInvalidTokenCost, rl, db)
      else
        case run_script lk
               (reserveScript re (getBucketKey rl key) (getTimestampKey rl key)
                  (f64_of_int (rlBucketSize rl)) (rlTokensPerSecond rl) (f64_of_int (Unix now))
                  (f64_of_int tokenCost) (key_expiry_seconds rl)) db of
          (Inl err, db') \<Rightarrow> (Inl (backend_error err), rl, db')
        | (Inr waitMsStr, db') \<Rightarrow>
            (case ParseInt waitMsStr of
               Inl err \<Rightarrow>
                 (Inl (ErrorNew (''invalid response from Redis: '' @ num_error_text ''ParseInt'' waitMsStr err)),
                  rl, db')
             | Inr waitMs \<Rightarrow>
                 if waitMs = 0 then
                   (Inr (\<lparr>rrTokens = tokenCost, rrTimeToProcess = now', rrKey = key,
                          rrReservationID = newID, rrOk = True\<rparr>, None), rl, db')
                 else
                   let timeToProcess = now' + wait_duration waitMs;
                       waiterKey = key @ '':'' @ newID;
                       waitCh = rlChanNext rl
                   in (Inr (\<lparr>rrTokens = tokenCost, rrTimeToProcess = timeToProcess, rrKey = key,
                             rrReservationID = newID, rrOk = True\<rparr>,
                            Some \<lparr>rkWaitMs = waitMs, rkTokenCost = tokenCost, rkKey = key,
                                  rkWaiterKey = waiterKey, rkReservationID = newID\<rparr>),
                       rl\<lparr>rlWaiters := (rlWaiters rl)(waiterKey \<mapsto> waitCh),
                          rlWaitersByID := (rlWaitersByID rl)(newID \<mapsto> waiterKey),
                          rlChanNext := Suc waitCh\<rparr>,
                       db')))"

definition Redis_Reserve ::
  "'db redis_env \<Rightarrow> link \<Rightarrow> int \<Rightarrow> gotime \<Rightarrow> gotime \<Rightarrow> string \<Rightarrow> RedisTokenBucket \<Rightarrow> 'db \<Rightarrow>
   (go_error + redisReservation \<times> redisTask option) \<times> RedisTokenBucket \<times> 'db" where
  "Redis_Reserve re lk tokenCost now now' newID rl db =
     Redis_ReserveN re lk ''default'' tokenCost now now' newID rl db"

text \<open>
  The goroutine after its sleep: it asks for the tokens; unless that fails it closes the
  waiter's channel, in the granted and in the refused case alike.
\<close>

definition redis_close :: "redisTask \<Rightarrow> RedisTokenBucket \<Rightarrow> RedisTokenBucket outcome" where
  "redis_close g rl =
     (case rlWaiters rl (rkWaiterKey g) of
        Some ch \<Rightarrow>
          if ch \<in> set (rlChanClosed rl) then Panics
          else Returns (rl\<lparr>rlChanClosed := ch # rlChanClosed rl,
                           rlWaiters := (rlWaiters rl)(rkWaiterKey g := None),
                           rlWaitersByID := (rlWaitersByID rl)(rkReservationID g := None)\<rparr>)
      | None \<Rightarrow> Returns rl)"

definition redis_wake ::
  "'db redis_env \<Rightarrow> link \<Rightarrow> redisTask \<Rightarrow> gotime \<Rightarrow> RedisTokenBucket \<Rightarrow> 'db \<Rightarrow>
   (RedisTokenBucket \<times> 'db) outcome" where
  "redis_wake re lk g now rl db =
     (case Redis_AllowN re lk rl (rkKey g) (rkTokenCost g) now db of
        (Inl err, db') \<Rightarrow> Returns (rl, db')
      | (Inr allowed, db') \<Rightarrow>
          (if allowed then bind_outcome (redis_close g rl) (\<lambda>rl'. Returns (rl', db'))
           else bind_outcome (redis_close g rl) (\<lambda>rl'. Returns (rl', db'))))"

definition Redis_DelayFrom :: "gotime \<Rightarrow> redisReservation \<Rightarrow> duration" where
  "Redis_DelayFrom now r =
     (if \<not> rrOk r then 0
      else let delay = time_Sub (rrTimeToProcess r) now in if delay < 0 then 0 else delay)"

definition Redis_CancelAt ::
  "gotime \<Rightarrow> redisReservation \<Rightarrow> RedisTokenBucket \<Rightarrow> redisReservation \<times> RedisTokenBucket" where
  "Redis_CancelAt now r rl =
     (if \<not> rrOk r then (r, rl)
      else if now < rrTimeToProcess r then
        (case rlWaitersByID rl (rrReservationID r) of
           None \<Rightarrow> (r, rl)
         | Some waiterKey \<Rightarrow>
             (r\<lparr>rrOk := False\<rparr>,
              rl\<lparr>rlWaiters := (rlWaiters rl)(waiterKey := None),
                 rlWaitersByID := (rlWaitersByID rl)(rrReservationID r := None)\<rparr>))
      else (r, rl))"

definition Redis_Wait :: "gotime \<Rightarrow> redisReservation \<Rightarrow> RedisTokenBucket \<Rightarrow> wait_status" where
  "Redis_Wait now r rl =
     (if \<not> rrOk r then WaitReturns (Some ErrRateLimited)
      else if rrTimeToProcess r < now then WaitReturns None
      else
        case rlWaitersByID rl (rrReservationID r) of
          None \<Rightarrow> WaitReturns (Some ErrRateLimited)
        | Some waiterKey \<Rightarrow>
            (case rlWaiters rl waiterKey of
               None \<Rightarrow> WaitReturns (Some ErrRateLimited)
             | Some waitCh \<Rightarrow> WaitSelects waitCh))"

text \<open>
  The three cases of the \<^verbatim>\<open>select\<close>: the caller's context, the context whose deadline is five
  seconds after the time to process, and the channel.  The readings of the clock are
  those of the case.
\<close>

datatype redis_wait_case = CallerDone go_error gotime | DeadlineDone gotime gotime | ChannelClosed

definition wait_deadline :: "redisReservation \<Rightarrow> gotime" where
  "wait_deadline r = rrTimeToProcess r + 5 * second"

definition Redis_select ::
  "redis_wait_case \<Rightarrow> nat \<Rightarrow> redisReservation \<Rightarrow> RedisTokenBucket \<Rightarrow>
   (go_error option \<times> redisReservation \<times> RedisTokenBucket) outcome" where
  "Redis_select c waitCh r rl =
     (case c of
        CallerDone err now \<Rightarrow> (let (r', rl') = Redis_CancelAt now r rl in Returns (Some err, r', rl'))
      | DeadlineDone now now' \<Rightarrow>
          if rrTimeToProcess r < now then Returns (None, r, rl)
          else (let (r', rl') = Redis_CancelAt now' r rl
                in Returns (Some (Wrapf '''' ErrRateLimited '': timed out waiting for tokens''), r', rl'))
      | ChannelClosed \<Rightarrow> (if waitCh \<in> set (rlChanClosed rl) then Returns (None, r, rl) else Blocks))"

definition Redis_WaitN ::
  "'db redis_env \<Rightarrow> link \<Rightarrow> link \<Rightarrow> string \<Rightarrow> int \<Rightarrow> gotime \<Rightarrow> gotime \<Rightarrow> gotime \<Rightarrow> gotime \<Rightarrow> string \<Rightarrow>
   RedisTokenBucket \<Rightarrow> 'db \<Rightarrow>
   wait_status \<times> (redisReservation \<times> redisTask option) option \<times> RedisTokenBucket \<times> 'db" where
  "Redis_WaitN re lk1 lk2 key tokenCost t1 t2 t3 t4 newID rl db =
     (if tokenCost \<le> 0 then (WaitReturns (Some ErrInvalidTokenCost), None, rl, db)
      else
        case Redis_AllowN re lk1 rl key tokenCost t1 db of
          (Inl err, db1) \<Rightarrow> (WaitReturns (Some err), None, rl, db1)
        | (Inr True, db1) \<Rightarrow> (WaitReturns None, None, rl, db1)
        | (Inr False, db1) \<Rightarrow>
            (case Redis_ReserveN re lk2 key tokenCost t2 t3 newID rl db1 of
               (Inl err, rl', db2) \<Rightarrow> (WaitReturns (Some err), None, rl', db2)
             | (Inr (reservation, task), rl', db2) \<Rightarrow>
                 (Redis_Wait t4 reservation rl', Some (reservation, task), rl', db2)))"

definition RedisTokenBucket_Wait ::
  "'db redis_env \<Rightarrow> link \<Rightarrow> link \<Rightarrow> int \<Rightarrow> gotime \<Rightarrow> gotime \<Rightarrow> gotime \<Rightarrow> gotime \<Rightarrow> string \<Rightarrow>
   RedisTokenBucket \<Rightarrow> 'db \<Rightarrow>
   wait_status \<times> (redisReservation \<times> redisTask option) option \<times> RedisTokenBucket \<times> 'db" where
  "RedisTokenBucket_Wait re lk1 lk2 tokenCost = Redis_WaitN re lk1 lk2 ''default'' tokenCost"

section \<open>The keys of a limiter\<close>

lemma key_names [simp]:
  "getBucketKey rl k = getBucketKey rl k' \<longleftrightarrow> k = k'"
  "getTimestampKey rl k = getTimestampKey rl k' \<longleftrightarrow> k = k'"
  "getBucketKey rl k \<noteq> getTimestampKey rl k'" "getTimestampKey rl k' \<noteq> getBucketKey rl k"
  by (simp_all add: getBucketKey_def getTimestampKey_def)

definition r_clock :: "'db redis_env \<Rightarrow> RedisTokenBucket \<Rightarrow> int \<Rightarrow> string \<Rightarrow> 'db \<Rightarrow> int" where
  "r_clock re rl t0 k db = (case reGet re (getTimestampKey rl k) db of None \<Rightarrow> t0 | Some v \<Rightarrow> \<lfloor>v\<rfloor>)"

definition r_level :: "'db redis_env \<Rightarrow> RedisTokenBucket \<Rightarrow> string \<Rightarrow> 'db \<Rightarrow> rat" where
  "r_level re rl k db =
     (case reGet re (getBucketKey rl k) db of None \<Rightarrow> of_int (rlBucketSize rl) | Some v \<Rightarrow> v)"

definition rl_ok :: "RedisTokenBucket \<Rightarrow> bool" where
  "rl_ok rl \<longleftrightarrow>
     0 < rlTokensPerSecond rl \<and> 0 \<le> rlBucketSize rl \<and> rlBucketSize rl < 2 ^ 53 \<and>
     0 < key_expiry_seconds rl"

definition small :: "int \<Rightarrow> bool" where
  "small u \<longleftrightarrow> \<bar>u\<bar> < 2 ^ 52"

text \<open>Every key has both its entries or none, a level in range and a whole time stamp.\<close>

definition db_ok :: "'db redis_env \<Rightarrow> RedisTokenBucket \<Rightarrow> 'db \<Rightarrow> bool" where
  "db_ok re rl db \<longleftrightarrow>
     (\<forall>k. (reGet re (getTimestampKey rl k) db = None \<and> reGet re (getBucketKey rl k) db = None) \<or>
          (\<exists>u l. reGet re (getTimestampKey rl k) db = Some (of_int u) \<and> small u \<and>
                 reGet re (getBucketKey rl k) db = Some l \<and> level_ok (rlBucketSize rl) l))"

section \<open>What a script does to the store\<close>

text \<open>After a script ran for a key, the key has its new level and time; the others are as before.\<close>

definition written :: "'db redis_env \<Rightarrow> RedisTokenBucket \<Rightarrow> string \<Rightarrow> int \<Rightarrow> rat \<Rightarrow> 'db \<Rightarrow> 'db \<Rightarrow> bool" where
  "written re rl k u l db db' \<longleftrightarrow>
     reGet re (getTimestampKey rl k) db' = Some (of_int u) \<and>
     reGet re (getBucketKey rl k) db' = Some l \<and>
     (\<forall>k'. k' \<noteq> k \<longrightarrow> reGet re (getTimestampKey rl k') db' = reGet re (getTimestampKey rl k') db \<and>
                     reGet re (getBucketKey rl k') db' = reGet re (getBucketKey rl k') db)"

definition redis_level :: "'db redis_env \<Rightarrow> RedisTokenBucket \<Rightarrow> string \<Rightarrow> int \<Rightarrow> 'db \<Rightarrow> rat" where
  "redis_level re rl k u db =
     lua_refill re (getBucketKey rl k) (getTimestampKey rl k) (f64_of_int (rlBucketSize rl))
       (rlTokensPerSecond rl) (f64_of_int u) db"

definition after_cost :: "rat \<Rightarrow> int \<Rightarrow> rat" where
  "after_cost l c = (if f64_of_int c \<le> l then f64_sub l (f64_of_int c) else l)"

lemma small_exact: "small u \<Longrightarrow> f64_of_int u = of_int u"
  by (simp add: small_def)

definition script_writes :: "'db redis_env \<Rightarrow> RedisTokenBucket \<Rightarrow> string \<Rightarrow> int \<Rightarrow> rat \<Rightarrow> 'db \<Rightarrow> 'db" where
  "script_writes re rl k u l db =
     reSet re (getBucketKey rl k) l (key_expiry_seconds rl)
       (reSet re (getTimestampKey rl k) (f64_of_int u) (key_expiry_seconds rl) db)"

lemma script_writes_written:
  "redis_ok re \<Longrightarrow> small u \<Longrightarrow> written re rl k u l db (script_writes re rl k u l db)"
  by (simp add: written_def script_writes_def redis_get_set small_exact)

lemma allowScript_eq:
  assumes "rl_ok rl"
  shows "allowScript re (getBucketKey rl k) (getTimestampKey rl k) (f64_of_int (rlBucketSize rl))
       (rlTokensPerSecond rl) (f64_of_int u) (f64_of_int c) (key_expiry_seconds rl) db
     = (Inr (if f64_of_int c \<le> redis_level re rl k u db then 1 else 0),
        script_writes re rl k u (after_cost (redis_level re rl k u db) c) db)"
proof -
  have "0 < key_expiry_seconds rl" using assms by (simp add: rl_ok_def)
  then show ?thesis
    by (simp only: allowScript_def redis_level_def [symmetric] Let_def redis_SET_def not_le [symmetric]
        if_False sum.case script_writes_def after_cost_def split: if_split) simp
qed

text \<open>The wait that the script computes for a cost above a level, in milliseconds.\<close>

definition wait_ms :: "rat \<Rightarrow> int \<Rightarrow> rat \<Rightarrow> int" where
  "wait_ms rate c l = \<lceil>f64_mul (f64_div (f64_sub (f64_of_int c) l) rate) 1000\<rceil>"

lemma reserveScript_eq:
  assumes "rl_ok rl"
  shows "reserveScript re (getBucketKey rl k) (getTimestampKey rl k) (f64_of_int (rlBucketSize rl))
       (rlTokensPerSecond rl) (f64_of_int u) (f64_of_int c) (key_expiry_seconds rl) db
     = (Inr (if f64_of_int c \<le> redis_level re rl k u db then ''0''
             else reToString re (of_int (wait_ms (rlTokensPerSecond rl) c (redis_level re rl k u db)))),
        script_writes re rl k u (after_cost (redis_level re rl k u db) c) db)"
proof -
  have "0 < key_expiry_seconds rl" using assms by (simp add: rl_ok_def)
  then show ?thesis
    by (simp only: reserveScript_def redis_level_def [symmetric] Let_def redis_SET_def not_le [symmetric]
        if_False sum.case script_writes_def after_cost_def wait_ms_def split: if_split) simp
qed

lemma wait_ms_pos: "\<not> f64_of_int c \<le> l \<Longrightarrow> 0 < rate \<Longrightarrow> 0 < wait_ms rate c l"
proof -
  have pos: "0 < x \<Longrightarrow> 0 < f64_rnd x" for x using f64_rnd_nonpos_iff [of x] by linarith
  assume "\<not> f64_of_int c \<le> l" "0 < rate"
  then have "0 < f64_mul (f64_div (f64_sub (f64_of_int c) l) rate) 1000"
    by (simp add: f64_mul_def f64_div_def f64_sub_def pos)
  then show ?thesis by (simp add: wait_ms_def)
qed

lemma Redis_AllowN_effect:
  assumes "redis_ok re" "rl_ok rl" "small (Unix now)" "0 < c"
  obtains (up) db' where
    "lk = LinkUp"
    "Redis_AllowN re lk rl k c now db = (Inr (f64_of_int c \<le> redis_level re rl k (Unix now) db), db')"
    "written re rl k (Unix now) (after_cost (redis_level re rl k (Unix now) db) c) db db'"
  | (not_sent) err where "lk = NotSent err" "Redis_AllowN re lk rl k c now db = (Inl (backend_error err), db)"
  | (lost) err db' where "lk = ReplyLost err"
    "Redis_AllowN re lk rl k c now db = (Inl (backend_error err), db')"
    "written re rl k (Unix now) (after_cost (redis_level re rl k (Unix now) db) c) db db'"
proof -
  note s = allowScript_eq [OF assms(2), of re k "Unix now" c db]
    script_writes_written [OF assms(1,3), of rl k "after_cost (redis_level re rl k (Unix now) db) c" db]
  show ?thesis
    using assms(4) s up not_sent lost
    by (cases lk) (auto simp: Redis_AllowN_def run_script_def)
qed

lemma written_level [simp]: "written re rl k u l db db' \<Longrightarrow> r_level re rl k db' = l"
  by (simp add: written_def r_level_def)

lemma written_clock [simp]: "written re rl k u l db db' \<Longrightarrow> r_clock re rl t0 k db' = u"
  by (simp add: written_def r_clock_def)

lemma written_other:
  "written re rl k u l db db' \<Longrightarrow> k' \<noteq> k \<Longrightarrow>
   r_level re rl k' db' = r_level re rl k' db \<and> r_clock re rl t0 k' db' = r_clock re rl t0 k' db"
  by (simp add: written_def r_level_def r_clock_def)

lemma written_ok:
  assumes "db_ok re rl db" "written re rl k u l db db'" "small u" "level_ok (rlBucketSize rl) l"
  shows "db_ok re rl db'"
  unfolding db_ok_def
proof
  fix k'
  show "(reGet re (getTimestampKey rl k') db' = None \<and> reGet re (getBucketKey rl k') db' = None) \<or>
      (\<exists>u l. reGet re (getTimestampKey rl k') db' = Some (of_int u) \<and> small u \<and>
             reGet re (getBucketKey rl k') db' = Some l \<and> level_ok (rlBucketSize rl) l)"
    using assms by (cases "k' = k") (auto simp: db_ok_def written_def)
qed

lemma db_ok_level: "rl_ok rl \<Longrightarrow> db_ok re rl db \<Longrightarrow> level_ok (rlBucketSize rl) (r_level re rl k db)"
proof -
  assume "rl_ok rl" "db_ok re rl db"
  then show ?thesis
    unfolding db_ok_def r_level_def
    by (drule_tac spec [of _ k]) (auto simp: level_ok_def rl_ok_def is_f64_of_int)
qed

text \<open>The refill of a script: what it adds is between zero and the rate times the whole seconds.\<close>

lemma redis_refill:
  assumes "rl_ok rl" "db_ok re rl db" "r_clock re rl t0 k db \<le> u" "small u"
  obtains a where "0 \<le> a" "a \<le> refill_bound (rlTokensPerSecond rl * 10 ^ 9) (u - r_clock re rl t0 k db)"
    "redis_level re rl k u db = min (f64_of_int (rlBucketSize rl)) (f64_add (r_level re rl k db) a)"
proof (cases "reGet re (getTimestampKey rl k) db")
  case None
  then have "reGet re (getBucketKey rl k) db = None"
    using assms(2) by (auto simp: db_ok_def dest!: spec [of _ k])
  with None have "redis_level re rl k u db = min (f64_of_int (rlBucketSize rl)) (f64_add (r_level re rl k db) 0)"
    using assms(1)
    by (simp add: redis_level_def lua_refill_def r_level_def f64_sub_def f64_mul_def rl_ok_def)
  moreover have "refill_bound (rlTokensPerSecond rl * 10 ^ 9) 0 \<le>
      refill_bound (rlTokensPerSecond rl * 10 ^ 9) (u - r_clock re rl t0 k db)"
    using assms(1,3) by (intro refill_bound_mono) (simp_all add: rl_ok_def)
  ultimately show ?thesis using that [of 0] by simp
next
  case (Some v)
  then obtain u0 l where s: "v = of_int u0" "small u0" "reGet re (getBucketKey rl k) db = Some l"
    using assms(2) by (auto simp: db_ok_def dest!: spec [of _ k])
  have clock: "r_clock re rl t0 k db = u0" using Some s(1) by (simp add: r_clock_def)
  let ?r = "rlTokensPerSecond rl" and ?a = "f64_mul (of_int (u - u0)) (rlTokensPerSecond rl)"
  have d: "f64_sub (of_int u) (of_int u0) = of_int (u - u0)"
    using f64_rnd_of_int [of "u - u0"] assms(4) s(2) by (simp add: f64_sub_def small_def)
  have le: "u0 \<le> u" using assms(3) clock by simp
  have r: "0 < ?r" using assms(1) by (simp add: rl_ok_def)
  have prod: "0 \<le> of_int (u - u0) * ?r" using le r by simp
  have "?a \<le> of_int (u - u0) * ?r * ulp_factor"
    unfolding f64_mul_def ulp_factor_def by (rule f64_rnd_upper [OF prod])
  also have "\<dots> \<le> of_int (u - u0) * ?r * ulp_factor ^ 3"
    using prod ulp_factor_ge_1 by (intro mult_left_mono self_le_power) simp_all
  also have "\<dots> = refill_bound (?r * 10 ^ 9) (u - u0)"
    by (simp add: refill_bound_def)
  finally have "?a \<le> refill_bound (?r * 10 ^ 9) (u - u0)" .
  moreover have "0 \<le> ?a" using prod by (simp add: f64_mul_def f64_rnd_nonneg)
  moreover have "redis_level re rl k u db = min (f64_of_int (rlBucketSize rl)) (f64_add (r_level re rl k db) ?a)"
    using Some s small_exact [OF assms(4)] d
    by (simp add: redis_level_def lua_refill_def r_level_def Let_def)
  ultimately show ?thesis using that clock by blast
qed

lemma redis_level_ok:
  assumes "rl_ok rl" "db_ok re rl db" "r_clock re rl t0 k db \<le> u" "small u"
  shows "level_ok (rlBucketSize rl) (redis_level re rl k u db)"
proof -
  obtain a where a: "0 \<le> a"
    "redis_level re rl k u db = min (f64_of_int (rlBucketSize rl)) (f64_add (r_level re rl k db) a)"
    by (rule redis_refill [OF assms])
  show ?thesis
    unfolding a(2) using assms(1) by (intro level_ok_refill db_ok_level assms a(1)) (simp_all add: rl_ok_def)
qed

lemma redis_level_bound:
  assumes "rl_ok rl" "db_ok re rl db" "r_clock re rl t0 k db \<le> u" "small u"
  shows "redis_level re rl k u db
    \<le> r_level re rl k db + refill_bound (rlTokensPerSecond rl * 10 ^ 9) (u - r_clock re rl t0 k db)
      + of_int (rlBucketSize rl) / 2 ^ 53"
proof -
  obtain a where a: "0 \<le> a" "a \<le> refill_bound (rlTokensPerSecond rl * 10 ^ 9) (u - r_clock re rl t0 k db)"
    "redis_level re rl k u db = min (f64_of_int (rlBucketSize rl)) (f64_add (r_level re rl k db) a)"
    by (rule redis_refill [OF assms])
  have "0 \<le> r_level re rl k db" using db_ok_level [OF assms(1,2)] by (simp add: level_ok_def)
  then show ?thesis
    unfolding a(3) using assms(1) by (intro level_refill_bound a(1,2)) (simp_all add: rl_ok_def)
qed

lemma after_cost_ok: "level_ok cap l \<Longrightarrow> 0 < c \<Longrightarrow> level_ok cap (after_cost l c)"
  by (simp add: after_cost_def level_ok_consume)

lemma after_cost_bound:
  assumes "level_ok cap l" "0 < c" "0 \<le> cap" "cap < 2 ^ 53"
  shows "after_cost l c + (if f64_of_int c \<le> l then of_int c else 0) \<le> l + of_int cap / 2 ^ 53"
  using level_consume_bound [OF assms(1) _ assms(2,4)] assms(3) by (simp add: after_cost_def)

section \<open>The contract of the interface\<close>

text \<open>
  The calls of a run, with what becomes of each use of the connection: the state is the list
  of the connection's behaviours to come, and the store.
\<close>

definition redis_call :: "'db redis_env \<Rightarrow> RedisTokenBucket \<Rightarrow> (link list \<times> 'db) allow_op" where
  "redis_call re rl key tokenCost now s =
     (let (r, db') = Redis_AllowN re (next_link (fst s)) rl key tokenCost now (snd s)
      in (r, (if tokenCost \<le> 0 then fst s else tl (fst s), db')))"

text \<open>Only the whole second of a call matters.\<close>

definition at_unix :: "int \<Rightarrow> gotime" where
  "at_unix u = (u + 62135596800) * second"

lemma Unix_at_unix [simp]: "Unix (at_unix u) = u"
  by (simp add: Unix_def at_unix_def second_def)

lemma redis_call_whole_seconds: "redis_call re rl k c (at_unix (Unix t)) s = redis_call re rl k c t s"
  by (simp add: redis_call_def Redis_AllowN_def)

lemma redis_call_effect:
  assumes "redis_ok re" "rl_ok rl" "db_ok re rl (snd s)" "r_clock re rl t0 k (snd s) \<le> u" "small u" "0 < c"
    and "redis_call re rl k c (at_unix u) s = (r, s')"
  obtains (refused) "\<And>b. r \<noteq> Inr b" "snd s' = snd s"
  | (ran) "r = Inr True \<longrightarrow> f64_of_int c \<le> redis_level re rl k u (snd s)"
    "written re rl k u (after_cost (redis_level re rl k u (snd s)) c) (snd s) (snd s')"
  using assms(7) refused ran assms(5,6)
  by (cases rule: Redis_AllowN_effect [OF assms(1,2) _ assms(6), where now = "at_unix u" and lk = "next_link (fst s)"
        and k = k and db = "snd s"])
    (auto simp: redis_call_def split: prod.splits)

lemma redis_token_limiter:
  assumes "redis_ok re" "rl_ok rl"
  shows "token_limiter (\<lambda>k c u. redis_call re rl k c (at_unix u)) (\<lambda>k s. r_level re rl k (snd s))
    (\<lambda>k s. r_clock re rl t0 k (snd s)) (\<lambda>s. of_int (rlBucketSize rl))
    (\<lambda>s. rlTokensPerSecond rl * 10 ^ 9) (\<lambda>s. db_ok re rl (snd s)) small"
proof unfold_locales
  fix k c u and s :: "link list \<times> 'a"
  let ?b = "of_int (rlBucketSize rl) :: rat"
  have b0: "0 \<le> ?b / 2 ^ 53" "0 < rlTokensPerSecond rl" using assms(2) by (simp_all add: rl_ok_def)
  obtain r s' where call: "redis_call re rl k c (at_unix u) s = (r, s')"
    by (rule that [OF prod.collapse [symmetric]])
  show bad: "c \<le> 0 \<Longrightarrow> redis_call re rl k c (at_unix u) s = (Inl ErrInvalidTokenCost, s)"
    by (simp add: redis_call_def Redis_AllowN_def)
  show "db_ok re rl (snd s) \<Longrightarrow> 0 \<le> r_level re rl k (snd s) \<and> r_level re rl k (snd s) \<le> ?b"
    using db_ok_level [OF assms(2), of re "snd s" k] by (simp add: level_ok_def)
  show "0 \<le> rlTokensPerSecond rl * 10 ^ 9" using b0(2) by simp
  show "of_int c \<le> ?b" if inv: "db_ok re rl (snd s)" and "fst (redis_call re rl k c (at_unix u) s) = Inr True"
  proof -
    from that(2) have "0 < c" "f64_of_int c \<le> redis_level re rl k (Unix (at_unix u)) (snd s)"
      using assms by (auto simp: redis_call_def Redis_AllowN_def run_script_def allowScript_def redis_SET_def
          redis_level_def Let_def split: link.splits if_splits sum.splits prod.splits)
    moreover have "redis_level re rl k (Unix (at_unix u)) (snd s) \<le> ?b"
      using assms(2) by (simp add: redis_level_def lua_refill_def rl_ok_def Let_def)
    ultimately have "c \<le> rlBucketSize rl"
      using assms(2) by (intro cost_exact(1)) (auto simp: rl_ok_def)
    then show ?thesis by simp
  qed
  assume inv: "db_ok re rl (snd s)" and le: "r_clock re rl t0 k (snd s) \<le> u" and adm: "small u"
  note lvl = redis_level_ok [OF assms(2) inv le adm] and bound = redis_level_bound [OF assms(2) inv le adm]
  show "db_ok re rl (snd (snd (redis_call re rl k c (at_unix u) s)))"
  proof (cases "0 < c")
    case True
    show ?thesis
    proof (cases rule: redis_call_effect [OF assms inv le adm True call, case_names refused ran])
      case ran
      with True show ?thesis
        using written_ok [OF inv ran(2) adm after_cost_ok [OF lvl True]] call by simp
    qed (use inv call in simp)
  qed (use bad inv in simp)
  show "r_clock re rl t0 k (snd s) \<le> r_clock re rl t0 k (snd (snd (redis_call re rl k c (at_unix u) s))) \<and>
      r_clock re rl t0 k (snd (snd (redis_call re rl k c (at_unix u) s))) \<le> u"
  proof (cases "0 < c")
    case True
    show ?thesis
      by (cases rule: redis_call_effect [OF assms inv le adm True call, case_names refused ran]) (use le call in simp_all)
  qed (use bad le in simp)
  assume c: "0 < c"
  show "r_level re rl k (snd (snd (redis_call re rl k c (at_unix u) s)))
      + (if fst (redis_call re rl k c (at_unix u) s) = Inr True then of_int c else 0)
      \<le> r_level re rl k (snd s)
        + refill_bound (rlTokensPerSecond rl * 10 ^ 9)
            (r_clock re rl t0 k (snd (snd (redis_call re rl k c (at_unix u) s))) - r_clock re rl t0 k (snd s))
        + 2 * ?b / 2 ^ 53"
  proof (cases rule: redis_call_effect [OF assms inv le adm c call, case_names refused ran])
    case refused
    then show ?thesis using call b0 by simp
  next
    case ran
    have "2 * ?b / 2 ^ 53 = ?b / 2 ^ 53 + ?b / 2 ^ 53" by simp
    moreover have "after_cost (redis_level re rl k u (snd s)) c
        + (if f64_of_int c \<le> redis_level re rl k u (snd s) then of_int c else 0)
        \<le> redis_level re rl k u (snd s) + ?b / 2 ^ 53"
      using assms(2) by (intro after_cost_bound lvl c) (simp_all add: rl_ok_def)
    ultimately show ?thesis
      using ran call bound c by (auto split: if_splits)
  qed
qed (simp_all add: split_def)

section \<open>The rate limit across failures\<close>

lemma Unix_mono: "t \<le> u \<Longrightarrow> Unix t \<le> Unix u"
  by (simp add: Unix_def second_def zdiv_mono1)

definition whole_seconds :: "(int \<times> gotime) list \<Rightarrow> (int \<times> gotime) list" where
  "whole_seconds = map (\<lambda>(c, t). (c, Unix t))"

lemma run_whole_seconds:
  "grant_run (\<lambda>k c u. redis_call re rl k c (at_unix u)) k (whole_seconds reqs) s = grant_run (redis_call re rl) k reqs s"
  by (induction reqs arbitrary: s)
    (auto simp: whole_seconds_def redis_call_whole_seconds split: prod.splits)

lemma instants_whole_seconds:
  "instants_from t0 reqs \<Longrightarrow> u0 \<le> Unix t0 \<Longrightarrow> instants_from u0 (whole_seconds reqs)"
proof (induction reqs arbitrary: t0 u0)
  case (Cons r reqs)
  obtain c t where r: "r = (c, t)" by (cases r)
  have "Unix t0 \<le> Unix t" using Cons.prems(1) Unix_mono by (simp add: r)
  then show ?case
    using Cons.prems Cons.IH [of t "Unix t"] by (simp add: r whole_seconds_def)
qed (simp add: whole_seconds_def)

lemma last_whole_second: "u0 \<le> Unix t0 \<Longrightarrow> last_instant u0 (whole_seconds reqs) \<le> Unix (last_instant t0 reqs)"
proof (induction reqs arbitrary: t0 u0)
  case (Cons r reqs)
  then show ?case by (cases r) (simp add: whole_seconds_def)
qed (simp add: whole_seconds_def)

text \<open>
  redis_rate_limit: whatever becomes of the connection at each call (a script that is not
  sent, a reply that is lost), the tokens that a sequence of \<^verbatim>\<open>AllowN\<close> calls is granted for a
  key are at most the bucket size, plus the rate times the whole seconds since the key was
  last refilled (with float64 roundings), plus two rounding units of the size per call: the
  limiter fails closed.
\<close>

theorem redis_rate_limit:
  assumes "redis_ok re" "rl_ok rl" "db_ok re rl db" "instants_from t0 reqs"
    and "r_clock re rl (Unix t0) k db \<le> Unix t0" "\<forall>(c, t) \<in> set reqs. small (Unix t)"
  shows "of_int (fst (grant_run (redis_call re rl) k reqs (links, db)))
    \<le> of_int (rlBucketSize rl)
      + refill_bound (rlTokensPerSecond rl * 10 ^ 9)
          (Unix (last_instant t0 reqs) - r_clock re rl (Unix t0) k db)
      + of_nat (length reqs) * (2 * of_int (rlBucketSize rl) / 2 ^ 53)"
proof -
  let ?u = "r_clock re rl (Unix t0) k db" and ?r = "rlTokensPerSecond rl * 10 ^ 9"
  have adm: "token_limiter.admitted small (whole_seconds reqs)"
    unfolding token_limiter.admitted_def [OF redis_token_limiter [OF assms(1,2), of 0]]
    using assms(6) by (auto simp: whole_seconds_def)
  note lim = redis_token_limiter [OF assms(1,2), of "Unix t0"]
  have "of_int (fst (grant_run (redis_call re rl) k reqs (links, db)))
    \<le> of_int (rlBucketSize rl) + refill_bound ?r (last_instant ?u (whole_seconds reqs) - ?u)
      + of_nat (length (whole_seconds reqs)) * (2 * of_int (rlBucketSize rl) / 2 ^ 53)"
    using token_limiter.run_bound [OF lim, of "(links, db)" k "whole_seconds reqs"] adm
      instants_whole_seconds [OF assms(4,5)] assms(3)
    by (simp add: run_whole_seconds)
  moreover have "refill_bound ?r (last_instant ?u (whole_seconds reqs) - ?u)
      \<le> refill_bound ?r (Unix (last_instant t0 reqs) - ?u)"
    using assms(2) last_whole_second [OF assms(5), of reqs]
    by (intro refill_bound_mono) (simp_all add: rl_ok_def)
  ultimately show ?thesis
    by (simp add: whole_seconds_def)
qed

section \<open>Agreement with the in-memory limiter\<close>

text \<open>The key of a store as an in-memory bucket; a key that is absent was refilled now.\<close>

definition redis_bucket :: "'db redis_env \<Rightarrow> RedisTokenBucket \<Rightarrow> string \<Rightarrow> int \<Rightarrow> 'db \<Rightarrow> TokenBucket" where
  "redis_bucket re rl k u db =
     \<lparr>tokensPerSecond = rlTokensPerSecond rl, bucketSize = rlBucketSize rl,
      availableTokens = r_level re rl k db, lastRefillTime = at_unix (r_clock re rl u k db),
      waiters = Map.empty, waitersByID = Map.empty, chanNext = 0, chanClosed = []\<rparr>"

text \<open>Between whole seconds that are less than 290 years apart, the elapsed time is exact.\<close>

lemma whole_seconds_elapsed:
  assumes "u0 \<le> u" "u - u0 \<le> 9 * 10 ^ 9"
  shows "Seconds (time_Sub (at_unix u) (at_unix u0)) = of_int (u - u0)"
proof -
  have "time_Sub (at_unix u) (at_unix u0) = (u - u0) * second"
    using assms by (simp add: time_Sub_def at_unix_def second_def int64_min_def int64_max_def algebra_simps)
  then show ?thesis
    using assms f64_rnd_of_int [of "u - u0"]
    by (simp add: Seconds_def go_quot_nonneg go_rem_nonneg second_def f64_add_def f64_div_def)
qed

lemma redis_refill_agrees:
  assumes "rl_ok rl" "db_ok re rl db" "small u" "r_clock re rl u k db \<le> u"
    and "u - r_clock re rl u k db \<le> 9 * 10 ^ 9"
  shows "refill (at_unix u) (redis_bucket re rl k u db) =
    (redis_bucket re rl k u db)\<lparr>lastRefillTime := at_unix u, availableTokens := redis_level re rl k u db\<rparr>"
proof (cases "reGet re (getTimestampKey rl k) db")
  case None
  then have "reGet re (getBucketKey rl k) db = None"
    using assms(2) by (auto simp: db_ok_def dest!: spec [of _ k])
  with None show ?thesis
    using assms(1) whole_seconds_elapsed [of u u]
    by (simp add: refill_def redis_bucket_def redis_level_def lua_refill_def r_level_def r_clock_def
        f64_sub_def f64_mul_def rl_ok_def Let_def)
next
  case (Some v)
  then obtain u0 l where s: "v = of_int u0" "small u0" "reGet re (getBucketKey rl k) db = Some l"
    using assms(2) by (auto simp: db_ok_def dest!: spec [of _ k])
  then have u0: "r_clock re rl u k db = u0" using Some by (simp add: r_clock_def)
  have "f64_sub (of_int u) (of_int u0) = of_int (u - u0)"
    using f64_rnd_of_int [of "u - u0"] assms(3) s(2) by (simp add: f64_sub_def small_def)
  then show ?thesis
    using Some s small_exact [OF assms(3)] whole_seconds_elapsed [of u0 u] assms(4,5) u0
    by (simp add: refill_def redis_bucket_def redis_level_def lua_refill_def r_level_def Let_def)
qed

text \<open>
  C33: while the connection is up, the Redis limiter refines the
  in-memory one: called at a whole second, \<^verbatim>\<open>AllowN\<close> gives the same answer, and the key of the
  store is then the bucket that the in-memory limiter would have.
\<close>

theorem redis_agrees_with_memory:
  assumes "redis_ok re" "rl_ok rl" "db_ok re rl db" "small u" "r_clock re rl u k db \<le> u"
    and "u - r_clock re rl u k db \<le> 9 * 10 ^ 9"
  shows "(case Redis_AllowN re LinkUp rl k c (at_unix u) db of (r, db') \<Rightarrow> (r, redis_bucket re rl k u db')) =
    AllowN k c (at_unix u) (redis_bucket re rl k u db)"
proof (cases "0 < c")
  case True
  note refilled = redis_refill_agrees [OF assms(2,3,4,5,6)]
  obtain db' where
    "Redis_AllowN re LinkUp rl k c (at_unix u) db = (Inr (f64_of_int c \<le> redis_level re rl k u db), db')"
    and w: "written re rl k u (after_cost (redis_level re rl k u db) c) db db'"
    by (rule Redis_AllowN_effect [OF assms(1,2) _ True, of "at_unix u" LinkUp k db]) (use assms(4) in auto)
  moreover have "redis_bucket re rl k u db' = (redis_bucket re rl k u db)
      \<lparr>lastRefillTime := at_unix u, availableTokens := after_cost (redis_level re rl k u db) c\<rparr>"
    using written_level [OF w] written_clock [OF w] by (simp add: redis_bucket_def)
  ultimately show ?thesis
    using True by (simp add: AllowN_def refilled Let_def after_cost_def)
qed (simp add: Redis_AllowN_def AllowN_def)

section \<open>Reservations agree with AllowN\<close>

lemma Redis_ReserveN_up:
  assumes "redis_ok re" "rl_ok rl" "0 < c" "wait_ms (rlTokensPerSecond rl) c (redis_level re rl k (Unix now) db) < 10 ^ 14"
  shows "Redis_ReserveN re LinkUp k c now now' i rl db =
    (let L = redis_level re rl k (Unix now) db; w = wait_ms (rlTokensPerSecond rl) c L;
         db' = script_writes re rl k (Unix now) (after_cost L c) db
     in if f64_of_int c \<le> L
        then (Inr (\<lparr>rrTokens = c, rrTimeToProcess = now', rrKey = k, rrReservationID = i, rrOk = True\<rparr>, None), rl, db')
        else (Inr (\<lparr>rrTokens = c, rrTimeToProcess = now' + wait_duration w, rrKey = k,
                    rrReservationID = i, rrOk = True\<rparr>,
                   Some \<lparr>rkWaitMs = w, rkTokenCost = c, rkKey = k, rkWaiterKey = k @ '':'' @ i, rkReservationID = i\<rparr>),
              rl\<lparr>rlWaiters := (rlWaiters rl)(k @ '':'' @ i \<mapsto> rlChanNext rl),
                 rlWaitersByID := (rlWaitersByID rl)(i \<mapsto> k @ '':'' @ i),
                 rlChanNext := Suc (rlChanNext rl)\<rparr>, db'))"
proof -
  let ?L = "redis_level re rl k (Unix now) db"
  let ?w = "wait_ms (rlTokensPerSecond rl) c ?L"
  have zero: "ParseInt ''0'' = Inr 0"
    by (simp add: ParseInt_def digit_value_def)
  have "ParseInt (reToString re (of_int ?w)) = Inr ?w" "?w \<noteq> 0" if "\<not> f64_of_int c \<le> ?L"
  proof -
    have pos: "0 < ?w" using wait_ms_pos [OF that] assms(2) by (simp add: rl_ok_def)
    then have "reToString re (of_int ?w) = fmt_d ?w"
      using assms(1,4) by (simp add: redis_ok_def)
    then show "ParseInt (reToString re (of_int ?w)) = Inr ?w"
      using pos assms(4) ParseInt_fmt_d [of ?w] by (simp add: int64_min_def int64_max_def)
    show "?w \<noteq> 0" using pos by simp
  qed
  then show ?thesis
    using assms(3) zero
    by (simp add: Redis_ReserveN_def run_script_def reserveScript_eq [OF assms(2)] Let_def)
qed

lemma Redis_AllowN_up:
  assumes "rl_ok rl" "0 < c"
  shows "Redis_AllowN re LinkUp rl k c now db =
    (Inr (f64_of_int c \<le> redis_level re rl k (Unix now) db),
     script_writes re rl k (Unix now) (after_cost (redis_level re rl k (Unix now) db) c) db)"
  using assms(2) by (simp add: Redis_AllowN_def run_script_def allowScript_eq [OF assms(1)])

text \<open>
  redis_ReserveN_agrees_with_AllowN: while the connection is up and the wait is below
  \<^verbatim>\<open>10^14\<close> milliseconds, \<^verbatim>\<open>ReserveN\<close> never fails, leaves the store as \<^verbatim>\<open>AllowN\<close> would, and serves
  the cost at once exactly when \<^verbatim>\<open>AllowN\<close> would grant it; a reservation that has to wait takes
  nothing from the bucket.
\<close>

theorem redis_ReserveN_agrees_with_AllowN:
  assumes "redis_ok re" "rl_ok rl" "0 < c" "wait_ms (rlTokensPerSecond rl) c (redis_level re rl k (Unix now) db) < 10 ^ 14"
  shows "\<exists>r task rl'. Redis_ReserveN re LinkUp k c now now' i rl db =
      (Inr (r, task), rl', snd (Redis_AllowN re LinkUp rl k c now db)) \<and>
    fst (Redis_AllowN re LinkUp rl k c now db) = Inr (task = None) \<and> rrOk r \<and> rrTokens r = c \<and> rrKey r = k"
  unfolding Redis_ReserveN_up [OF assms] Redis_AllowN_up [OF assms(2,3)] by (simp add: Let_def)

section \<open>A wait that ends without tokens\<close>

text \<open>Within one second nothing is refilled: what a refused call left is what the next one finds.\<close>

lemma same_second_level:
  assumes "redis_ok re" "rl_ok rl" "small u" "level_ok (rlBucketSize rl) l"
  shows "redis_level re rl k u (script_writes re rl k u l db) = l"
proof -
  have "reGet re (getTimestampKey rl k) (script_writes re rl k u l db) = Some (of_int u)"
    "reGet re (getBucketKey rl k) (script_writes re rl k u l db) = Some l"
    using script_writes_written [OF assms(1,3)] by (simp_all add: written_def)
  moreover have "f64_add l 0 = l" using assms(4) by (simp add: level_ok_def f64_add_def is_f64_def)
  moreover have "l \<le> f64_of_int (rlBucketSize rl)" using assms(2,4) by (simp add: level_ok_def rl_ok_def)
  ultimately show ?thesis
    using small_exact [OF assms(3)]
    by (simp add: redis_level_def lua_refill_def Let_def f64_sub_def f64_mul_def)
qed

text \<open>
  C35: when a reservation has to wait and its goroutine wakes up within
  the same second of the clock (as for every short wait that does not cross a second), the
  goroutine is refused and takes no tokens, but closes the channel all the same: \<^verbatim>\<open>Wait\<close>,
  which selects on that channel, returns nil as if the tokens had been acquired.
\<close>

theorem redis_wait_without_tokens:
  assumes "redis_ok re" "rl_ok rl" "db_ok re rl db" "small (Unix t1)" "r_clock re rl (Unix t1) k db \<le> Unix t1"
    and "wait_ms (rlTokensPerSecond rl) c (redis_level re rl k (Unix t1) db) < 10 ^ 14" "0 < c"
    and "Redis_ReserveN re LinkUp k c t1 t2 i rl db = (Inr (r, Some g), rl', db')"
    and "Unix tw = Unix t1" "t3 \<le> rrTimeToProcess r" "\<forall>ch \<in> set (rlChanClosed rl). ch < rlChanNext rl"
  shows "\<exists>ch rl'' db''. Redis_Wait t3 r rl' = WaitSelects ch \<and>
    fst (Redis_AllowN re LinkUp rl (rkKey g) (rkTokenCost g) tw db') = Inr False \<and>
    redis_wake re LinkUp g tw rl' db' = Returns (rl'', db'') \<and>
    r_level re rl k db'' = r_level re rl k db' \<and>
    Redis_select ChannelClosed ch r rl'' = Returns (None, r, rl'')"
proof -
  let ?L = "redis_level re rl k (Unix t1) db"
  have lvl: "level_ok (rlBucketSize rl) ?L" by (rule redis_level_ok [OF assms(2,3,5,4)])
  have res: "\<not> f64_of_int c \<le> ?L" "rkKey g = k" "rkTokenCost g = c" "rkWaiterKey g = k @ '':'' @ i"
    "rkReservationID g = i" "rrReservationID r = i" "rrOk r" "db' = script_writes re rl k (Unix t1) ?L db"
    "rl' = rl\<lparr>rlWaiters := (rlWaiters rl)(k @ '':'' @ i \<mapsto> rlChanNext rl),
              rlWaitersByID := (rlWaitersByID rl)(i \<mapsto> k @ '':'' @ i), rlChanNext := Suc (rlChanNext rl)\<rparr>"
    using assms(8) unfolding Redis_ReserveN_up [OF assms(1,2,7,6)]
    by (auto simp: Let_def after_cost_def split: if_splits)
  have same: "redis_level re rl k (Unix tw) db' = ?L"
    unfolding res(8) assms(9) by (rule same_second_level [OF assms(1,2,4) lvl])
  have rl': "Redis_AllowN re LinkUp rl' k c tw db' = Redis_AllowN re LinkUp rl k c tw db'"
    by (simp add: res(9) Redis_AllowN_def getBucketKey_def getTimestampKey_def key_expiry_seconds_def)
  have allow: "Redis_AllowN re LinkUp rl k c tw db' = (Inr False, script_writes re rl k (Unix tw) ?L db')"
    unfolding Redis_AllowN_up [OF assms(2,7)] same using res(1) by (simp add: after_cost_def)
  have "small (Unix tw)" using assms(4,9) by simp
  then have lev: "r_level re rl k (script_writes re rl k (Unix tw) ?L db') = r_level re rl k db'"
    unfolding res(8)
    by (simp only: written_level [OF script_writes_written [OF assms(1)]] assms(4))
  let ?ch = "rlChanNext rl"
  let ?rl'' = "rl'\<lparr>rlChanClosed := ?ch # rlChanClosed rl', rlWaiters := (rlWaiters rl')(rkWaiterKey g := None),
                   rlWaitersByID := (rlWaitersByID rl')(rkReservationID g := None)\<rparr>"
  have ch: "rlWaiters rl' (rkWaiterKey g) = Some ?ch" "?ch \<notin> set (rlChanClosed rl')"
    "rlWaitersByID rl' (rrReservationID r) = Some (rkWaiterKey g)"
    using assms(11) by (auto simp: res(4,6,9))
  have wait: "Redis_Wait t3 r rl' = WaitSelects ?ch"
    using assms(10) res(7) ch(1,3) by (simp add: Redis_Wait_def)
  have "redis_close g rl' = Returns ?rl''"
    using ch(1,2) by (simp add: redis_close_def)
  then have wake: "redis_wake re LinkUp g tw rl' db' = Returns (?rl'', script_writes re rl k (Unix tw) ?L db')"
    unfolding redis_wake_def res(2,3) rl' allow by simp
  have sel: "Redis_select ChannelClosed ?ch r ?rl'' = Returns (None, r, ?rl'')"
    by (simp add: Redis_select_def)
  have "fst (Redis_AllowN re LinkUp rl (rkKey g) (rkTokenCost g) tw db') = Inr False"
    unfolding res(2,3) allow by simp
  with wait wake sel lev show ?thesis by blast
qed

section \<open>An expiry below one second\<close>

text \<open>
  The constructor keeps a positive expiry below one second, which is zero seconds for the
  scripts: then \<^verbatim>\<open>SET\<close> fails, and with it every call.
\<close>

lemma sub_second_expiry:
  assumes "0 < rlKeyExpiry rl" "rlKeyExpiry rl < second"
  shows "key_expiry_seconds rl = 0"
proof -
  let ?x = "of_int (rlKeyExpiry rl) / 10 ^ 9 :: rat"
  have d: "rlKeyExpiry rl \<le> 10 ^ 9 - 1" using assms(2) by (simp add: second_def)
  have "?x \<le> of_int (10 ^ 9 - 1) / 10 ^ 9" using d by (intro divide_right_mono) (simp_all only: of_int_le_iff, simp)
  then have x: "0 \<le> ?x" "?x \<le> 1 - 1 / 10 ^ 9" using assms(1) by simp_all
  have "f64_rnd ?x \<le> ?x + ?x / 2 ^ 53" by (rule f64_rnd_upper_add [OF x(1)])
  also have "\<dots> < 1" using x(2) by simp
  finally have "f64_rnd ?x < 1" .
  moreover have "0 \<le> f64_rnd ?x" by (rule f64_rnd_nonneg [OF x(1)])
  moreover have "Seconds (rlKeyExpiry rl) = f64_rnd ?x"
    using assms by (simp add: Seconds_def go_quot_nonneg go_rem_nonneg second_def f64_add_def f64_div_def)
  ultimately show ?thesis by (simp add: key_expiry_seconds_def f64_to_int_def floor_eq_iff)
qed

lemma sub_second_expiry_fails:
  assumes "0 < rlKeyExpiry rl" "rlKeyExpiry rl < second" "0 < c"
  shows "Redis_AllowN re LinkUp rl k c now db = (Inl (backend_error (reExpireError re)), db)"
  using assms(3) sub_second_expiry [OF assms(1,2)]
  by (simp add: Redis_AllowN_def allowScript_def redis_SET_def Let_def)

section \<open>A concrete store\<close>

text \<open>A store that maps keys to numbers, and a limiter of 8 tokens per second with five tokens.\<close>

definition map_redis :: "(string \<Rightarrow> rat option) redis_env" where
  "map_redis =
     \<lparr>reGet = (\<lambda>k m. m k), reSet = (\<lambda>k v e m. m(k \<mapsto> v)),
      reExpireError = ErrorNew ''ERR invalid expire time'', reToString = (\<lambda>x. fmt_d \<lfloor>x\<rfloor>)\<rparr>"

lemma map_redis_ok: "redis_ok map_redis"
  by (simp add: redis_ok_def map_redis_def ParseInt_fmt_d_any)

definition example_rl :: RedisTokenBucket where
  "example_rl =
     \<lparr>rlTokensPerSecond = 8, rlBucketSize = 5, rlKeyPrefix = ''l:'', rlKeyExpiry = 24 * hour,
      rlWaiters = Map.empty, rlWaitersByID = Map.empty, rlChanNext = 0, rlChanClosed = []\<rparr>"

lemma example_rl_new:
  "NewRedisLimiterWithClient
     \<lparr>lcType = RedisLimiter, lcTokensPerSecond = 8, lcBucketSize = 5,
      lcRedisOptions = Some \<lparr>lKeyPrefix = ''l:'', lKeyExpiry = 0, lLuaScriptPath = ''''\<rparr>\<rparr> (Some ()) = Inr example_rl"
  by (simp add: NewRedisLimiterWithClient_def NewRedisTokenBucket_def example_rl_def default_rate_def
      default_size_def redis_options_def)

lemma example_rl_simps [simp]:
  "rlTokensPerSecond example_rl = 8" "rlBucketSize example_rl = 5" "rlChanClosed example_rl = []"
  by (simp_all add: example_rl_def)

lemma day_expiry: "rlKeyExpiry rl = 24 * hour \<Longrightarrow> key_expiry_seconds rl = 86400"
  using f64_rnd_of_int [of 86400]
  by (simp add: key_expiry_seconds_def Seconds_def go_quot_def go_rem_def duration_defs
      f64_add_def f64_div_def f64_to_int_def)

lemma example_rl_ok: "rl_ok example_rl"
  using day_expiry [of example_rl] by (simp add: rl_ok_def example_rl_def)

text \<open>The store after a key was used at second 100 and has three tokens left.\<close>

definition example_db :: "string \<Rightarrow> rat option" where
  "example_db = script_writes map_redis example_rl ''k'' 100 3 Map.empty"

lemma empty_db_ok: "db_ok map_redis rl Map.empty"
  by (simp add: db_ok_def map_redis_def)

lemma example_db_written: "written map_redis example_rl ''k'' 100 3 Map.empty example_db"
  unfolding example_db_def by (rule script_writes_written [OF map_redis_ok]) (simp add: small_def)

lemma three_level: "level_ok 5 3"
  by (simp add: level_ok_def is_f64_numeral)

lemma example_db_ok: "db_ok map_redis example_rl example_db"
  by (rule written_ok [OF empty_db_ok example_db_written]) (simp_all add: small_def three_level)

lemma example_clock [simp]: "r_clock map_redis example_rl t0 ''k'' example_db = 100"
  by (rule written_clock [OF example_db_written])

lemma example_level: "redis_level map_redis example_rl ''k'' 100 example_db = 3"
  unfolding example_db_def
  by (rule same_second_level [OF map_redis_ok example_rl_ok]) (simp_all add: small_def three_level)

lemma example_wait: "wait_ms 8 5 3 = 250"
proof -
  have q: "f64_rnd (1 / 4) = 1 / 4"
    using is_f64_scaled [of 1 "- 2"] by (simp add: is_f64_def power_int_minus)
  have "f64_rnd (f64_rnd (1 / 4) * 1000) = 250"
    unfolding q using f64_rnd_of_int [of 250] by simp
  then show ?thesis
    using f64_rnd_of_int [of 2] by (simp add: wait_ms_def f64_mul_def f64_div_def f64_sub_def)
qed

theorem redis_rate_limit_witness:
  "of_int (fst (grant_run (redis_call map_redis example_rl) ''k'' [(2, at_unix 100), (5, at_unix 101)]
       ([ReplyLost RedisNil, LinkUp], example_db)))
    \<le> (5 :: rat) + refill_bound (8 * 10 ^ 9) 1 + 2 * (2 * 5 / 2 ^ 53)"
  using redis_rate_limit [OF map_redis_ok example_rl_ok example_db_ok,
      of "at_unix 100" "[(2, at_unix 100), (5, at_unix 101)]" "''k''" "[ReplyLost RedisNil, LinkUp]"]
  by (simp add: small_def at_unix_def [of 100] at_unix_def [of 101] Unix_def second_def)

theorem redis_agrees_with_memory_witness:
  "(case Redis_AllowN map_redis LinkUp example_rl ''k'' 5 (at_unix 101) example_db of
      (r, db') \<Rightarrow> (r, redis_bucket map_redis example_rl ''k'' 101 db')) =
    AllowN ''k'' 5 (at_unix 101) (redis_bucket map_redis example_rl ''k'' 101 example_db)"
  by (rule redis_agrees_with_memory [OF map_redis_ok example_rl_ok example_db_ok]) (simp_all add: small_def)

theorem redis_ReserveN_agrees_with_AllowN_witness:
  "\<exists>r rl'. Redis_ReserveN map_redis LinkUp ''k'' 3 (at_unix 100) 0 ''a'' example_rl example_db =
      (Inr (r, None), rl', snd (Redis_AllowN map_redis LinkUp example_rl ''k'' 3 (at_unix 100) example_db))"
proof -
  have "wait_ms 8 3 3 < 10 ^ 14" by (simp add: wait_ms_def f64_sub_def f64_div_def f64_mul_def)
  from redis_ReserveN_agrees_with_AllowN [OF map_redis_ok example_rl_ok, of 3 "''k''" "at_unix 100" example_db 0 "''a''"]
    this Redis_AllowN_up [OF example_rl_ok, of 3 map_redis "''k''" "at_unix 100" example_db]
  show ?thesis by (auto simp: example_level)
qed

theorem redis_wait_without_tokens_witness:
  "\<exists>r g rl' db' ch rl'' db''.
     Redis_ReserveN map_redis LinkUp ''k'' 5 (at_unix 100) (at_unix 100) ''a'' example_rl example_db =
       (Inr (r, Some g), rl', db') \<and>
     redis_wake map_redis LinkUp g (at_unix 100 + 250 * millisecond) rl' db' = Returns (rl'', db'') \<and>
     r_level map_redis example_rl ''k'' db'' = r_level map_redis example_rl ''k'' db' \<and>
     Redis_select ChannelClosed ch r rl'' = Returns (None, r, rl'')"
proof -
  have w: "wait_ms (rlTokensPerSecond example_rl) 5 (redis_level map_redis example_rl ''k'' (Unix (at_unix 100)) example_db) < 10 ^ 14"
    by (simp add: example_level example_wait)
  obtain r g rl' db' where res: "Redis_ReserveN map_redis LinkUp ''k'' 5 (at_unix 100) (at_unix 100) ''a'' example_rl example_db =
       (Inr (r, Some g), rl', db')" "rrTimeToProcess r = at_unix 100 + 250 * millisecond"
    unfolding Redis_ReserveN_up [OF map_redis_ok example_rl_ok _ w, simplified]
    by (simp add: example_level example_wait Let_def wait_duration_def wrap64_def millisecond_def)
  have "Unix (at_unix 100 + 250 * millisecond) = Unix (at_unix 100)"
    by (simp add: Unix_def at_unix_def second_def millisecond_def)
  from redis_wait_without_tokens [OF map_redis_ok example_rl_ok example_db_ok _ _ w _ res(1) this, of "at_unix 100"]
    res show ?thesis by (auto simp: small_def millisecond_def)
qed

end
