(* ===== verification/Redis_Queue.thy ===== *)
theory Redis_Queue
  imports Fifo_Queue Redis Text
begin

text \<open>
  Package \<^verbatim>\<open>queue\<close>, file fifo_queue.go from \<^verbatim>\<open>RedisFIFO\<close> on: the queue in a Redis list.  The
  list commands, \<^verbatim>\<open>encoding/json\<close> and the state of the connection are parameters.
  \<^verbatim>\<open>Dequeue\<close> calls itself for every item that it skips; here it runs over a list of rounds.
\<close>

section \<open>Redis lists and JSON\<close>

record ('db, 'b) list_env =
  lnLLen :: "string \<Rightarrow> 'db \<Rightarrow> int"
  lnRPush :: "string \<Rightarrow> string \<Rightarrow> 'db \<Rightarrow> 'db"
  lnExpire :: "string \<Rightarrow> duration \<Rightarrow> 'db \<Rightarrow> 'db"
  lnLPop :: "string \<Rightarrow> 'db \<Rightarrow> (string \<times> 'db) option"
  lnLIndex0 :: "string \<Rightarrow> 'db \<Rightarrow> string option"
  lnDel :: "string \<Rightarrow> 'db \<Rightarrow> 'db"
  lnMarshal :: "'b QueueItem \<Rightarrow> go_error + string"
  lnUnmarshal :: "string \<Rightarrow> go_error + 'b QueueItem"

text \<open>
  What the queue relies on: the commands act on one list per key, and what was encoded is
  decoded with all its fields but the metadata, whose numbers JSON may change.  No list
  expires within the runs considered.
\<close>

definition list_ok :: "('db, 'b) list_env \<Rightarrow> (string \<Rightarrow> 'db \<Rightarrow> string list) \<Rightarrow> bool" where
  "list_ok en lst \<longleftrightarrow>
     (\<forall>k db. lnLLen en k db = int (length (lst k db))) \<and>
     (\<forall>k v db. lst k (lnRPush en k v db) = lst k db @ [v]) \<and>
     (\<forall>k d db. lst k (lnExpire en k d db) = lst k db) \<and>
     (\<forall>k db. lst k db = [] \<longrightarrow> lnLPop en k db = None) \<and>
     (\<forall>k v vs db. lst k db = v # vs \<longrightarrow> (\<exists>db'. lnLPop en k db = Some (v, db') \<and> lst k db' = vs)) \<and>
     (\<forall>k db. lnLIndex0 en k db = (case lst k db of [] \<Rightarrow> None | v # vs \<Rightarrow> Some v)) \<and>
     (\<forall>k db. lst k (lnDel en k db) = [])"

definition without_metadata :: "'b QueueItem \<Rightarrow> 'b QueueItem" where
  "without_metadata item = item\<lparr>qMetadata := None\<rparr>"

definition json_ok :: "('db, 'b) list_env \<Rightarrow> bool" where
  "json_ok en \<longleftrightarrow>
     (\<forall>item d. lnMarshal en item = Inr d \<longrightarrow>
        (\<exists>item'. lnUnmarshal en d = Inr item' \<and> without_metadata item' = without_metadata item))"

section \<open>The queue\<close>

record RedisFIFO =
  rqQueueKey :: string
  rqMaxSize :: int
  rqItemTTL :: duration
  rqKeyExpiry :: duration

definition queue_options :: "QueueConfig \<Rightarrow> QueueRedisOptions" where
  "queue_options config =
     (let opts = (case qcRedisOptions config of
                    None \<Rightarrow> \<lparr>qoKeyPrefix = ''queue:'', qoKeyExpiry = 72 * hour\<rparr>
                  | Some opts \<Rightarrow> opts);
          opts = (if qoKeyPrefix opts = '''' then opts\<lparr>qoKeyPrefix := ''queue:''\<rparr> else opts)
      in if qoKeyExpiry opts \<le> 0 then opts\<lparr>qoKeyExpiry := 72 * hour\<rparr> else opts)"

definition NewRedisQueue :: "QueueConfig \<Rightarrow> 'client option \<Rightarrow> go_error + RedisFIFO" where
  "NewRedisQueue config client =
     (if client = None then Inl (ErrorNew ''redis client is required'')
      else Inr \<lparr>rqQueueKey = qoKeyPrefix (queue_options config) @ ''fifo'',
                rqMaxSize = (if qcMaxSize config \<le> 0 then 10000 else qcMaxSize config),
                rqItemTTL = (if qcItemTTL config \<le> 0 then 24 * hour else qcItemTTL config),
                rqKeyExpiry = qoKeyExpiry (queue_options config)\<rparr>)"

text \<open>The generic constructor; its result is one of the two queues.\<close>

datatype 'b any_queue = MemoryQueue "'b InMemoryFIFO" | ListQueue RedisFIFO

definition NewQueue :: "QueueConfig \<Rightarrow> 'client option \<Rightarrow> go_error + 'b any_queue" where
  "NewQueue config client =
     (case qcType config of
        InMemoryQueue \<Rightarrow> Inr (MemoryQueue (NewInMemoryQueue config))
      | RedisQueue \<Rightarrow> map_sum (\<lambda>e. e) ListQueue (NewRedisQueue config client)
      | OtherQueueType ty \<Rightarrow> Inl (ErrorNew (''unsupported queue type: '' @ ty)))"

definition queue_backend_error :: "go_error \<Rightarrow> go_error" where
  "queue_backend_error err = Wrapf '''' QueueBackendUnavailable ('': '' @ error_text err)"

text \<open>\<^verbatim>\<open>Enqueue\<close> uses the connection three times; what becomes of the last use is ignored.\<close>

record enqueue_links =
  elLLen :: link
  elRPush :: link
  elExpire :: link

definition RQ_Enqueue ::
  "('db, 'b) list_env \<Rightarrow> RedisFIFO \<Rightarrow> enqueue_links \<Rightarrow> gotime \<Rightarrow> 'b QueueItem option \<Rightarrow> 'db \<Rightarrow>
   go_error option \<times> 'db" where
  "RQ_Enqueue en q lks now item db =
     (case item of
        None \<Rightarrow> (Some (ErrorNew ''cannot enqueue nil item''), db)
      | Some item \<Rightarrow>
          let item = stamp now item in
          (case run_script (elLLen lks) (\<lambda>db. (Inr (lnLLen en (rqQueueKey q) db), db)) db of
             (Inl err, db1) \<Rightarrow> (Some (queue_backend_error err), db1)
           | (Inr len, db1) \<Rightarrow>
               if rqMaxSize q \<le> len then (Some ErrQueueFull, db1)
               else
                 (case lnMarshal en item of
                    Inl err \<Rightarrow> (Some (Wrapf ''failed to serialize queue item: '' err ''''), db1)
                  | Inr itemBytes \<Rightarrow>
                      (case run_script (elRPush lks)
                              (\<lambda>db. (Inr (), lnRPush en (rqQueueKey q) itemBytes db)) db1 of
                         (Inl err, db2) \<Rightarrow> (Some (queue_backend_error err), db2)
                       | (Inr _, db2) \<Rightarrow>
                           (None, snd (run_script (elExpire lks)
                              (\<lambda>db. (Inr (), lnExpire en (rqQueueKey q) (rqKeyExpiry q) db)) db2))))))"

text \<open>
  The blocking pop: an empty list ends in \<^verbatim>\<open>redis.Nil\<close> after the timeout, or blocks when the
  timeout is zero.
\<close>

definition dequeue_timeout :: "gotime option \<Rightarrow> gotime \<Rightarrow> duration" where
  "dequeue_timeout deadline now =
     (case deadline of
        None \<Rightarrow> 0
      | Some d \<Rightarrow> (let timeout = time_Sub d now in if timeout < 0 then 0 else timeout))"

definition BLPop ::
  "('db, 'b) list_env \<Rightarrow> link \<Rightarrow> duration \<Rightarrow> string \<Rightarrow> 'db \<Rightarrow> ((go_error + string list) \<times> 'db) outcome" where
  "BLPop en lk timeout key db =
     (case lk of
        NotSent err \<Rightarrow> Returns (Inl err, db)
      | _ \<Rightarrow>
          (case lnLPop en key db of
             Some (v, db') \<Rightarrow> Returns (run_script lk (\<lambda>_. (Inr [key, v], db')) db)
           | None \<Rightarrow>
               (case lk of
                  ReplyLost err \<Rightarrow> Returns (Inl err, db)
                | _ \<Rightarrow> if timeout = 0 then Blocks else Returns (Inl RedisNil, db))))"

text \<open>The clock readings and connection uses of one round of \<^verbatim>\<open>Dequeue\<close>.\<close>

record dequeue_round =
  drUntil :: gotime
  drPop :: link
  drSince :: gotime
  drNow :: gotime
  drEnqueueNow :: gotime
  drEnqueue :: enqueue_links

datatype 'b dequeue_result = DqReturns "go_error + 'b QueueItem" | DqBlocks | DqRuns

primrec fmt_strings :: "string list \<Rightarrow> string" where
  "fmt_strings [] = ''''"
| "fmt_strings (s # ss) = s @ (if ss = [] then '''' else '' '' @ fmt_strings ss)"

fun RQ_Dequeue ::
  "('db, 'b) list_env \<Rightarrow> RedisFIFO \<Rightarrow> gotime option \<Rightarrow> dequeue_round list \<Rightarrow> 'db \<Rightarrow>
   'b dequeue_result \<times> 'db" where
  "RQ_Dequeue en q deadline [] db = (DqRuns, db)"
| "RQ_Dequeue en q deadline (r # rs) db =
     (case BLPop en (drPop r) (dequeue_timeout deadline (drUntil r)) (rqQueueKey q) db of
        Returns (Inl err, db1) \<Rightarrow>
          (DqReturns (Inl (if err = RedisNil then ErrQueueEmpty else queue_backend_error err)), db1)
      | Returns (Inr result, db1) \<Rightarrow>
          if length result < 2 then
            (DqReturns (Inl (ErrorNew (''unexpected result from BLPOP: ['' @ fmt_strings result @ '']''))), db1)
          else
            (case lnUnmarshal en (result ! 1) of
               Inl err \<Rightarrow> (DqReturns (Inl (Wrapf ''failed to deserialize queue item: '' err '''')), db1)
             | Inr item \<Rightarrow>
                 if rqItemTTL q < time_Sub (drSince r) (qEnqueueTime item) then
                   RQ_Dequeue en q deadline rs db1
                 else if \<not> IsZero (qProcessAfter item) \<and> drNow r < qProcessAfter item then
                   RQ_Dequeue en q deadline rs
                     (snd (RQ_Enqueue en q (drEnqueue r) (drEnqueueNow r) (Some item) db1))
                 else (DqReturns (Inr item), db1))
      | _ \<Rightarrow> (DqBlocks, db))"

definition RQ_Peek ::
  "('db, 'b) list_env \<Rightarrow> RedisFIFO \<Rightarrow> link \<Rightarrow> 'db \<Rightarrow> (go_error + 'b QueueItem) \<times> 'db" where
  "RQ_Peek en q lk db =
     (case run_script lk
             (\<lambda>db. (case lnLIndex0 en (rqQueueKey q) db of None \<Rightarrow> Inl RedisNil | Some v \<Rightarrow> Inr v, db)) db of
        (Inl err, db1) \<Rightarrow> (Inl (if err = RedisNil then ErrQueueEmpty else queue_backend_error err), db1)
      | (Inr result, db1) \<Rightarrow>
          (case lnUnmarshal en result of
             Inl err \<Rightarrow> (Inl (Wrapf ''failed to deserialize queue item: '' err ''''), db1)
           | Inr item \<Rightarrow> (Inr item, db1)))"

definition RQ_Size :: "('db, 'b) list_env \<Rightarrow> RedisFIFO \<Rightarrow> link \<Rightarrow> 'db \<Rightarrow> (go_error + int) \<times> 'db" where
  "RQ_Size en q lk db =
     (case run_script lk (\<lambda>db. (Inr (lnLLen en (rqQueueKey q) db), db)) db of
        (Inl err, db1) \<Rightarrow> (Inl (queue_backend_error err), db1)
      | (Inr len, db1) \<Rightarrow> (Inr len, db1))"

definition RQ_Clear :: "('db, 'b) list_env \<Rightarrow> RedisFIFO \<Rightarrow> link \<Rightarrow> 'db \<Rightarrow> go_error option \<times> 'db" where
  "RQ_Clear en q lk db =
     (case run_script lk (\<lambda>db. (Inr (), lnDel en (rqQueueKey q) db)) db of
        (Inl err, db1) \<Rightarrow> (Some (queue_backend_error err), db1)
      | (Inr _, db1) \<Rightarrow> (None, db1))"

section \<open>The contents of the list\<close>

text \<open>What a queue of encoded items keeps of an item for sure.\<close>

definition item_core :: "'b QueueItem \<Rightarrow> 'b QueueItem" where
  "item_core item = item\<lparr>qMetadata := None, qEnqueueTime := 0\<rparr>"

text \<open>What the decodable elements of the list say, in order.\<close>

fun decoded :: "('db, 'b) list_env \<Rightarrow> string list \<Rightarrow> 'b QueueItem list" where
  "decoded en [] = []"
| "decoded en (v # vs) =
     (case lnUnmarshal en v of
        Inl err \<Rightarrow> decoded en vs
      | Inr item \<Rightarrow> item_core item # decoded en vs)"

lemma decoded_append [simp]: "decoded en (vs @ ws) = decoded en vs @ decoded en ws"
  by (induction vs) (auto split: sum.split)

lemma item_core_simps [simp]:
  "qProcessAfter (item_core item) = qProcessAfter item"
  "qID (item_core item) = qID item" "qData (item_core item) = qData item"
  by (simp_all add: item_core_def)

lemma item_core_stamp [simp]: "item_core (stamp now item) = item_core item"
  by (simp add: item_core_def stamp_def)

lemma item_core_same: "without_metadata item' = without_metadata item \<Longrightarrow> item_core item' = item_core item"
  by (cases item; cases item') (simp add: item_core_def without_metadata_def)

lemma list_ok_simps:
  assumes "list_ok en lst"
  shows "lnLLen en k db = int (length (lst k db))" "lst k (lnRPush en k v db) = lst k db @ [v]"
    "lst k (lnExpire en k d db) = lst k db" "lst k (lnDel en k db) = []"
    "lnLIndex0 en k db = (case lst k db of [] \<Rightarrow> None | v # vs \<Rightarrow> Some v)"
  using assms by (simp_all add: list_ok_def)

lemma lnLPop_cases:
  assumes "list_ok en lst"
  obtains "lst k db = []" "lnLPop en k db = None"
  | v db' where "lst k db = v # lst k db'" "lnLPop en k db = Some (v, db')"
proof (cases "lst k db")
  case Nil
  then show ?thesis using assms that(1) by (simp add: list_ok_def)
next
  case (Cons v vs)
  then obtain db' where "lnLPop en k db = Some (v, db')" "lst k db' = vs"
    using assms unfolding list_ok_def by blast
  with Cons show ?thesis using that(2) by blast
qed

lemma json_decodes:
  "json_ok en \<Longrightarrow> lnMarshal en item = Inr d \<Longrightarrow> decoded en [d] = [item_core item]"
  unfolding json_ok_def by (fastforce dest: item_core_same)

text \<open>An \<^verbatim>\<open>Enqueue\<close> leaves the list alone or appends the item's encoding.\<close>

lemma RQ_Enqueue_cases:
  assumes "list_ok en lst" "RQ_Enqueue en q lks now (Some item) db = (e, db')"
  obtains (rejected) err where "e = Some err" "lst (rqQueueKey q) db' = lst (rqQueueKey q) db"
  | (unsure) err d where "elRPush lks = ReplyLost err" "e = Some (queue_backend_error err)"
      "lnMarshal en (stamp now item) = Inr d" "lst (rqQueueKey q) db' = lst (rqQueueKey q) db @ [d]"
  | (accepted) d where "e = None" "lnMarshal en (stamp now item) = Inr d"
      "lst (rqQueueKey q) db' = lst (rqQueueKey q) db @ [d]"
      "int (length (lst (rqQueueKey q) db)) < rqMaxSize q"
proof -
  let ?n = "int (length (lst (rqQueueKey q) db))" and ?i = "stamp now item"
  note run = assms(2) [unfolded RQ_Enqueue_def Let_def, simplified]
  note l = list_ok_simps [OF assms(1)]
  show thesis
  proof (cases "elLLen lks = LinkUp \<and> \<not> rqMaxSize q \<le> ?n")
    case False
    then show thesis
      using run rejected l(1) by (cases "elLLen lks") (auto simp: run_script_def split: if_splits)
  next
    case True
    show thesis
    proof (cases "lnMarshal en ?i")
      case (Inl err)
      then show thesis using run True rejected l(1) by (auto simp: run_script_def)
    next
      case (Inr d)
      have store: "lst (rqQueueKey q) (snd (run_script lk (\<lambda>db. (Inr (), lnExpire en (rqQueueKey q) x db)) db2))
          = lst (rqQueueKey q) db2" for lk x db2
        using l(3) by (cases lk) (simp_all add: run_script_def)
      show thesis
      proof (cases "elRPush lks")
        case LinkUp
        then have "e = None" "lst (rqQueueKey q) db' = lst (rqQueueKey q) db @ [d]"
          using run True Inr l(1,2) store by auto
        then show thesis using accepted Inr True by simp
      next
        case (NotSent err)
        then show thesis using run True Inr rejected l(1) by (auto simp: run_script_def)
      next
        case (ReplyLost err)
        then show thesis
          using run True Inr l(1,2) unsure [OF ReplyLost _ Inr] by (auto simp: run_script_def)
      qed
    qed
  qed
qed

text \<open>A pop that finds an element, whatever the connection does, takes the head of the list.\<close>

lemma BLPop_cases:
  assumes "list_ok en lst" "BLPop en lk timeout key db = Returns (res, db')"
  obtains (popped) v where "res = Inr [key, v]" "lst key db = v # lst key db'"
  | (failed) err where "res = Inl err" "lst key db' = lst key db"
  | (lost) err v where "res = Inl err" "lst key db = v # lst key db'"
proof (cases rule: lnLPop_cases [OF assms(1), of key db])
  case 1
  then show ?thesis using assms(2) failed by (auto simp: BLPop_def split: link.splits if_splits)
next
  case (2 v db1)
  then show ?thesis using assms(2) popped failed lost by (auto simp: BLPop_def split: link.splits)
qed

section \<open>The contract of the interface\<close>

text \<open>
  \<^verbatim>\<open>Dequeue\<close> over any rounds: the item that it returns, and what is left in the list, come from
  the list.  It may lose items: expired ones, one whose pop lost its reply, and delayed
  ones that it fails to put back.
\<close>

lemma decoded_Inr: "lnUnmarshal en v = Inr item \<Longrightarrow> decoded en [v] = [item_core item]"
  by simp

lemma put_back:
  assumes "list_ok en lst" "json_ok en" "lnUnmarshal en v = Inr item"
    and "lst (rqQueueKey q) db = v # lst (rqQueueKey q) db1"
  shows "mset (decoded en (lst (rqQueueKey q) (snd (RQ_Enqueue en q lks now (Some item) db1))))
    \<subseteq># mset (decoded en (lst (rqQueueKey q) db))"
proof -
  obtain e db2 where run: "RQ_Enqueue en q lks now (Some item) db1 = (e, db2)" by fastforce
  have db: "mset (decoded en (lst (rqQueueKey q) db)) =
      add_mset (item_core item) (mset (decoded en (lst (rqQueueKey q) db1)))"
    using assms(3,4) by simp
  show ?thesis
    using json_decodes [OF assms(2), of "stamp now item"]
    by (cases rule: RQ_Enqueue_cases [OF assms(1) run]) (auto simp: run db)
qed

definition takes_from ::
  "dequeue_round list \<Rightarrow> 'b QueueItem multiset \<Rightarrow> 'b QueueItem multiset \<Rightarrow> 'b dequeue_result \<Rightarrow> bool" where
  "takes_from rs before after res \<longleftrightarrow>
     (case res of
        DqReturns (Inr item) \<Rightarrow>
          add_mset (item_core item) after \<subseteq># before \<and> (\<exists>r \<in> set rs. item_ready (drNow r) item)
      | _ \<Rightarrow> after \<subseteq># before)"

lemma takes_from_mono:
  "takes_from rs before after res \<Longrightarrow> before \<subseteq># before' \<Longrightarrow> takes_from (r # rs) before' after res"
  by (auto simp: takes_from_def split: dequeue_result.splits sum.splits intro: subset_mset.order_trans)

definition round_expired :: "RedisFIFO \<Rightarrow> dequeue_round \<Rightarrow> 'b QueueItem \<Rightarrow> bool" where
  "round_expired q r item \<longleftrightarrow> rqItemTTL q < time_Sub (drSince r) (qEnqueueTime item)"

lemma RQ_Dequeue_popped:
  assumes "BLPop en (drPop r) (dequeue_timeout deadline (drUntil r)) (rqQueueKey q) db = Returns (Inr [k, v], db1)"
    and "lnUnmarshal en v = Inr item"
  shows "RQ_Dequeue en q deadline (r # rs) db =
    (if round_expired q r item then RQ_Dequeue en q deadline rs db1
     else if item_ready (drNow r) item then (DqReturns (Inr item), db1)
     else RQ_Dequeue en q deadline rs
       (snd (RQ_Enqueue en q (drEnqueue r) (drEnqueueNow r) (Some item) db1)))"
  using assms by (simp add: round_expired_def item_ready_def)

lemma RQ_Dequeue_takes:
  assumes "list_ok en lst" "json_ok en"
    and "RQ_Dequeue en q deadline rs db = (res, db')"
  shows "takes_from rs (mset (decoded en (lst (rqQueueKey q) db))) (mset (decoded en (lst (rqQueueKey q) db'))) res"
  using assms(3)
proof (induction rs arbitrary: db)
  case (Cons r rs)
  let ?k = "rqQueueKey q" and ?pop = "BLPop en (drPop r) (dequeue_timeout deadline (drUntil r)) (rqQueueKey q) db"
  show ?case
  proof (cases ?pop)
    case (Returns p)
    obtain popres db1 where p: "p = (popres, db1)" by (cases p)
    note pop = Returns [unfolded p]
    show ?thesis
    proof (cases rule: BLPop_cases [OF assms(1) pop])
      case (1 v)
      show ?thesis
      proof (cases "lnUnmarshal en v")
        case (Inl err)
        then show ?thesis using Cons.prems pop 1 by (auto simp: takes_from_def)
      next
        case (Inr item)
        have sub: "mset (decoded en (lst ?k db1)) \<subseteq># mset (decoded en (lst ?k db))"
          using 1(2) Inr by simp
        let ?db2 = "snd (RQ_Enqueue en q (drEnqueue r) (drEnqueueNow r) (Some item) db1)"
        have sub2: "mset (decoded en (lst ?k ?db2)) \<subseteq># mset (decoded en (lst ?k db))"
          by (rule put_back [OF assms(1,2) Inr 1(2)])
        consider (returned) "res = DqReturns (Inr item)" "db' = db1" "item_ready (drNow r) item"
          | (expired) "RQ_Dequeue en q deadline rs db1 = (res, db')"
          | (delayed) "RQ_Dequeue en q deadline rs ?db2 = (res, db')"
          using Cons.prems RQ_Dequeue_popped [OF pop [unfolded 1(1)] Inr, of rs] by (simp split: if_splits)
        then show ?thesis
        proof cases
          case returned
          then show ?thesis using 1(2) Inr by (simp add: takes_from_def)
        next
          case expired
          have "takes_from rs (mset (decoded en (lst ?k db1))) (mset (decoded en (lst ?k db'))) res"
            by (rule Cons.IH [OF expired])
          then show ?thesis by (rule takes_from_mono [OF _ sub])
        next
          case delayed
          have "takes_from rs (mset (decoded en (lst ?k ?db2))) (mset (decoded en (lst ?k db'))) res"
            by (rule Cons.IH [OF delayed])
          then show ?thesis by (rule takes_from_mono [OF _ sub2])
        qed
      qed
    next
      case 2
      then show ?thesis using Cons.prems pop by (auto simp: takes_from_def)
    next
      case (3 err v)
      then show ?thesis using Cons.prems pop by (auto simp: takes_from_def split: sum.splits)
    qed
  qed (use Cons.prems in \<open>auto simp: takes_from_def\<close>)
qed (simp add: takes_from_def)

text \<open>
  The calls of a run: the state is what becomes of the uses of the connection by the coming
  \<^verbatim>\<open>Enqueue\<close> calls (the push fails or not; its reply is not lost), the rounds of the coming
  \<^verbatim>\<open>Dequeue\<close> calls, and the store.  The clock of a call is the same in all its rounds.
\<close>

type_synonym 'db rq_run = "(link \<times> go_error option \<times> link) list \<times> dequeue_round list list \<times> 'db"

definition push_link :: "go_error option \<Rightarrow> link" where
  "push_link fault = (case fault of None \<Rightarrow> LinkUp | Some err \<Rightarrow> NotSent err)"

definition rq_enq :: "('db, 'b) list_env \<Rightarrow> RedisFIFO \<Rightarrow> ('db rq_run, 'b) enqueue_op" where
  "rq_enq en q now item s =
     (case s of (es, ds, db) \<Rightarrow>
        let (l1, f, l3) = (case es of [] \<Rightarrow> (LinkUp, None, LinkUp) | e # _ \<Rightarrow> e);
            (e, db') = RQ_Enqueue en q \<lparr>elLLen = l1, elRPush = push_link f, elExpire = l3\<rparr> now item db
        in (e, (tl es, ds, db')))"

definition round_at :: "gotime \<Rightarrow> dequeue_round \<Rightarrow> dequeue_round" where
  "round_at now r = r\<lparr>drUntil := now, drSince := now, drNow := now, drEnqueueNow := now\<rparr>"

definition rq_deq :: "('db, 'b) list_env \<Rightarrow> RedisFIFO \<Rightarrow> gotime option \<Rightarrow> ('db rq_run, 'b) dequeue_op" where
  "rq_deq en q deadline now s =
     (case s of (es, ds, db) \<Rightarrow>
        (case RQ_Dequeue en q deadline (map (round_at now) (case ds of [] \<Rightarrow> [] | rs # _ \<Rightarrow> rs)) db of
           (DqReturns r, db') \<Rightarrow> Returns (r, (es, tl ds, db'))
         | _ \<Rightarrow> Blocks))"

definition rq_contents :: "('db, 'b) list_env \<Rightarrow> (string \<Rightarrow> 'db \<Rightarrow> string list) \<Rightarrow> RedisFIFO \<Rightarrow> 'db rq_run \<Rightarrow> 'b QueueItem list" where
  "rq_contents en lst q s = decoded en (lst (rqQueueKey q) (snd (snd s)))"

lemma redis_request_queue:
  fixes en :: "('db, 'b) list_env"
  assumes "list_ok en lst" "json_ok en"
  shows "request_queue (rq_contents en lst q) (rq_enq en q) (rq_deq en q deadline) item_core"
proof unfold_locales
  fix t :: gotime and item :: "'b QueueItem" and i :: "'b QueueItem option" and s s' :: "'db rq_run" and e
  obtain es ds db where s: "s = (es, ds, db)" by (cases s)
  let ?lks = "case (case es of [] \<Rightarrow> (LinkUp, None, LinkUp) | e # _ \<Rightarrow> e) of
    (l1, f, l3) \<Rightarrow> \<lparr>elLLen = l1, elRPush = push_link f, elExpire = l3\<rparr>"
  have no_loss: "elRPush ?lks \<noteq> ReplyLost err" for err
    by (auto simp: push_link_def split: prod.splits option.splits)
  obtain e' db' where run: "RQ_Enqueue en q ?lks t i db = (e', db')" by (metis prod.collapse)
  then have enq: "rq_enq en q t i s = (e', (tl es, ds, db'))"
    by (simp add: rq_enq_def s split: prod.splits)
  show "rq_contents en lst q s' = rq_contents en lst q s @ [item_core (stamp t item)]"
    if acc: "rq_enq en q t (Some item) s = (None, s')"
  proof -
    obtain e1 db1 where r: "RQ_Enqueue en q ?lks t (Some item) db = (e1, db1)" by (metis prod.collapse)
    then have "e1 = None" "s' = (tl es, ds, db1)"
      using acc by (simp_all add: rq_enq_def s split: prod.splits)
    then show ?thesis
      using json_decodes [OF assms(2), of "stamp t item"]
      by (cases rule: RQ_Enqueue_cases [OF assms(1) r]) (simp_all add: rq_contents_def s)
  qed
  show "rq_contents en lst q s' = rq_contents en lst q s" if "rq_enq en q t i s = (Some e, s')"
  proof (cases i)
    case None
    then show ?thesis using that enq run by (simp add: RQ_Enqueue_def rq_contents_def s)
  next
    case (Some it)
    have "e' = Some e" "s' = (tl es, ds, db')" using that enq by simp_all
    show ?thesis
    proof (cases rule: RQ_Enqueue_cases [OF assms(1) run [unfolded Some], case_names rejected unsure accepted])
      case rejected
      then show ?thesis using \<open>s' = (tl es, ds, db')\<close> by (simp add: rq_contents_def s)
    next
      case (unsure err d)
      then show ?thesis using no_loss by blast
    next
      case (accepted d)
      then show ?thesis using \<open>e' = Some e\<close> by simp
    qed
  qed
  show "rq_deq en q deadline t s \<noteq> Panics"
    by (simp add: rq_deq_def s split: prod.split dequeue_result.split)
  obtain res db1 where d:
    "RQ_Dequeue en q deadline (map (round_at t) (case ds of [] \<Rightarrow> [] | rs # _ \<Rightarrow> rs)) db = (res, db1)"
    by fastforce
  note takes = RQ_Dequeue_takes [OF assms d]
  show "item_ready t item \<and> add_mset (item_core item) (mset (rq_contents en lst q s')) \<subseteq># mset (rq_contents en lst q s)"
    if "rq_deq en q deadline t s = Returns (Inr item, s')"
    using takes that
    by (auto simp: rq_deq_def s d rq_contents_def takes_from_def round_at_def split: dequeue_result.splits)
  show "mset (rq_contents en lst q s') \<subseteq># mset (rq_contents en lst q s)"
    if "rq_deq en q deadline t s = Returns (Inl e, s')"
    using takes that
    by (auto simp: rq_deq_def s d rq_contents_def takes_from_def split: dequeue_result.splits)
qed


section \<open>The rounds of Dequeue\<close>

definition round_up :: "dequeue_round \<Rightarrow> bool" where
  "round_up r \<longleftrightarrow> drPop r = LinkUp \<and> elLLen (drEnqueue r) = LinkUp \<and> elRPush (drEnqueue r) = LinkUp"

text \<open>An element that every round finds too early, and one that every round finds ready.\<close>

definition waits_in :: "('db, 'b) list_env \<Rightarrow> RedisFIFO \<Rightarrow> dequeue_round list \<Rightarrow> string \<Rightarrow> bool" where
  "waits_in en q rs v \<longleftrightarrow>
     (case lnUnmarshal en v of
        Inl err \<Rightarrow> False
      | Inr item \<Rightarrow> \<not> IsZero (qEnqueueTime item) \<and>
          (\<forall>r \<in> set rs. \<not> round_expired q r item \<and> \<not> item_ready (drNow r) item))"

definition ready_in :: "('db, 'b) list_env \<Rightarrow> RedisFIFO \<Rightarrow> dequeue_round list \<Rightarrow> string \<Rightarrow> 'b QueueItem \<Rightarrow> bool" where
  "ready_in en q rs v item \<longleftrightarrow>
     lnUnmarshal en v = Inr item \<and> (\<forall>r \<in> set rs. \<not> round_expired q r item \<and> item_ready (drNow r) item)"

text \<open>What was decoded can be encoded again.\<close>

definition json_total :: "('db, 'b) list_env \<Rightarrow> bool" where
  "json_total en \<longleftrightarrow> (\<forall>v item. lnUnmarshal en v = Inr item \<longrightarrow> (\<exists>d. lnMarshal en item = Inr d))"

lemma pop_up:
  assumes "list_ok en lst" "drPop r = LinkUp" "lst k db = v # vs"
  obtains db1 where "BLPop en (drPop r) timeout k db = Returns (Inr [k, v], db1)" "lst k db1 = vs"
proof (cases rule: lnLPop_cases [OF assms(1), of k db])
  case (2 v' db1)
  then show ?thesis using assms(2,3) that [of db1] by (simp add: BLPop_def)
qed (use assms(3) in simp)

lemma put_back_up:
  assumes "list_ok en lst" "json_ok en" "json_total en" "round_up r" "lnUnmarshal en v = Inr item"
    and "\<not> IsZero (qEnqueueTime item)" "int (length (lst (rqQueueKey q) db)) < rqMaxSize q"
  obtains d item' where
    "lst (rqQueueKey q) (snd (RQ_Enqueue en q (drEnqueue r) now (Some item) db)) = lst (rqQueueKey q) db @ [d]"
    "lnUnmarshal en d = Inr item'" "without_metadata item' = without_metadata item"
proof -
  have same: "stamp now item = item" using assms(6) by (simp add: stamp_def)
  obtain d where d: "lnMarshal en item = Inr d"
    using assms(3,5) unfolding json_total_def by blast
  obtain item' where item': "lnUnmarshal en d = Inr item'" "without_metadata item' = without_metadata item"
    using assms(2) d unfolding json_ok_def by blast
  obtain e db' where run: "RQ_Enqueue en q (drEnqueue r) now (Some item) db = (e, db')" by fastforce
  have "e = None"
    using run assms(4,7) d same list_ok_simps(1) [OF assms(1)]
    by (simp add: RQ_Enqueue_def round_up_def not_le [symmetric])
  then show ?thesis
    using that item' d same run
    by (cases rule: RQ_Enqueue_cases [OF assms(1) run]) auto
qed

text \<open>One round with a waiting head moves it to the end.\<close>

lemma waiting_round:
  assumes "list_ok en lst" "json_ok en" "json_total en" "round_up r"
    and "lst (rqQueueKey q) db = v # vs" "waits_in en q (r # rs) v" "int (length (v # vs)) \<le> rqMaxSize q"
  obtains db2 d where "RQ_Dequeue en q deadline (r # rs) db = RQ_Dequeue en q deadline rs db2"
    "lst (rqQueueKey q) db2 = vs @ [d]" "waits_in en q rs d" "decoded en [d] = decoded en [v]"
proof -
  obtain item where item: "lnUnmarshal en v = Inr item" "\<not> IsZero (qEnqueueTime item)"
    "\<forall>r \<in> set (r # rs). \<not> round_expired q r item \<and> \<not> item_ready (drNow r) item"
    using assms(6) by (auto simp: waits_in_def split: sum.splits)
  obtain db1 where db1: "BLPop en (drPop r) (dequeue_timeout deadline (drUntil r)) (rqQueueKey q) db
      = Returns (Inr [rqQueueKey q, v], db1)" "lst (rqQueueKey q) db1 = vs"
    using pop_up [OF assms(1) _ assms(5)] assms(4) unfolding round_up_def by blast
  have room: "int (length (lst (rqQueueKey q) db1)) < rqMaxSize q" using assms(7) db1(2) by simp
  obtain d item' where d:
    "lst (rqQueueKey q) (snd (RQ_Enqueue en q (drEnqueue r) (drEnqueueNow r) (Some item) db1))
      = lst (rqQueueKey q) db1 @ [d]"
    "lnUnmarshal en d = Inr item'" "without_metadata item' = without_metadata item"
    by (rule put_back_up [OF assms(1,2,3,4) item(1,2) room])
  have same: "qEnqueueTime item' = qEnqueueTime item" "qProcessAfter item' = qProcessAfter item"
    using d(3) by (cases item; cases item'; simp add: without_metadata_def)+
  show ?thesis
  proof (rule that)
    show "RQ_Dequeue en q deadline (r # rs) db = RQ_Dequeue en q deadline rs
        (snd (RQ_Enqueue en q (drEnqueue r) (drEnqueueNow r) (Some item) db1))"
      using RQ_Dequeue_popped [where en = en, OF db1(1) item(1)] item(3) by simp
    show "waits_in en q rs d"
      using item(2,3) d(2) same by (simp add: waits_in_def round_expired_def item_ready_def)
    show "decoded en [d] = decoded en [v]"
      using d(2) item(1) item_core_same [OF d(3)] by simp
  qed (use d(1) db1(2) in simp)
qed

lemma waits_in_fewer: "waits_in en q (r # rs) v \<Longrightarrow> waits_in en q rs v"
  by (auto simp: waits_in_def split: sum.splits)



section \<open>Producers on several instances\<close>

text \<open>
  \<^verbatim>\<open>Enqueue\<close> checks the length and pushes in two commands, so clients interleave.  At most
  \<^verbatim>\<open>n\<close> of them are between the two commands; the second component of the state holds what
  they will push.
\<close>

inductive rq_step ::
  "('db, 'b) list_env \<Rightarrow> RedisFIFO \<Rightarrow> nat \<Rightarrow> 'db \<times> string list \<Rightarrow> 'db \<times> string list \<Rightarrow> bool"
  for en q n where
  check_size:
    "lnLLen en (rqQueueKey q) db < rqMaxSize q \<Longrightarrow> length ps < n \<Longrightarrow> lnMarshal en item = Inr d \<Longrightarrow>
     rq_step en q n (db, ps) (db, ps @ [d])"
| push: "rq_step en q n (db, ps1 @ d # ps2) (lnRPush en (rqQueueKey q) d db, ps1 @ ps2)"
| push_fails: "rq_step en q n (db, ps1 @ d # ps2) (db, ps1 @ ps2)"
| set_expiry: "rq_step en q n (db, ps) (lnExpire en (rqQueueKey q) (rqKeyExpiry q) db, ps)"
| pop: "lnLPop en (rqQueueKey q) db = Some (v, db') \<Longrightarrow> rq_step en q n (db, ps) (db', ps)"

text \<open>An uninterrupted \<^verbatim>\<open>Enqueue\<close> is such a sequence of steps.\<close>

lemma RQ_Enqueue_is_steps:
  assumes "RQ_Enqueue en q lks now (Some item) db = (None, db')" "0 < n"
    and "elLLen lks = LinkUp" "elRPush lks = LinkUp" "elExpire lks = LinkUp"
  shows "(rq_step en q n)\<^sup>*\<^sup>* (db, []) (db', [])"
proof -
  obtain d where d: "lnMarshal en (stamp now item) = Inr d" "lnLLen en (rqQueueKey q) db < rqMaxSize q"
    "db' = lnExpire en (rqQueueKey q) (rqKeyExpiry q) (lnRPush en (rqQueueKey q) d db)"
    using assms by (auto simp: RQ_Enqueue_def Let_def split: if_splits sum.splits)
  have "rq_step en q n (db, []) (db, [d])"
    using check_size [OF d(2) _ d(1), of "[]" n] assms(2) by simp
  moreover have "rq_step en q n (db, [d]) (lnRPush en (rqQueueKey q) d db, [])"
    using push [of en q n db "[]" d "[]"] by simp
  ultimately show ?thesis
    using set_expiry [of en q n "lnRPush en (rqQueueKey q) d db" "[]"]
    by (metis (no_types, lifting) d(3) converse_rtranclp_into_rtranclp rtranclp.rtrancl_refl)
qed

text \<open>
  C39: the check of the length does not bound the list by its maximal size
  alone: with at most \<^verbatim>\<open>n\<close> clients at once between check and push, the list holds at most
  \<^verbatim>\<open>n - 1\<close> elements more.
\<close>

theorem redis_queue_overshoot:
  assumes "list_ok en lst" "(rq_step en q n)\<^sup>*\<^sup>* (db, []) (db', ps)" "0 < n"
    and "int (length (lst (rqQueueKey q) db)) \<le> rqMaxSize q"
  shows "int (length (lst (rqQueueKey q) db')) + int (length ps) \<le> rqMaxSize q + int n - 1"
proof -
  have "int (length (lst (rqQueueKey q) (fst s))) + int (length (snd s)) \<le> rqMaxSize q + int n - 1"
    if "(rq_step en q n)\<^sup>*\<^sup>* (db, []) s" for s
    using that
  proof (induction rule: rtranclp_induct)
    case base
    then show ?case using assms(3,4) by simp
  next
    case (step s t)
    from step.hyps(2) step.IH show ?case
    proof (cases rule: rq_step.cases)
      case (pop db1 v db2 ps1)
      with step.IH show ?thesis by (cases rule: lnLPop_cases [OF assms(1), of "rqQueueKey q" db1]) auto
    qed (auto simp: list_ok_simps [OF assms(1)])
  qed
  from this [OF assms(2)] show ?thesis by simp
qed

text \<open>
  A push that Redis carries out, but whose reply is lost, counts as failed: the caller gets an
  error, and the item is in the list all the same.
\<close>

lemma refused_item_is_queued:
  assumes "list_ok en lst" "json_ok en" "elLLen lks = LinkUp" "elRPush lks = ReplyLost err"
    and "int (length (lst (rqQueueKey q) db)) < rqMaxSize q" "lnMarshal en (stamp now item) = Inr d"
    and "RQ_Enqueue en q lks now (Some item) db = (e, db')"
  shows "e = Some (queue_backend_error err)"
    "decoded en (lst (rqQueueKey q) db') = decoded en (lst (rqQueueKey q) db) @ [item_core item]"
proof -
  note l = list_ok_simps [OF assms(1)]
  have run: "e = Some (queue_backend_error err)" "lst (rqQueueKey q) db' = lst (rqQueueKey q) db @ [d]"
    using assms(3-7) l by (auto simp: RQ_Enqueue_def Let_def run_script_def)
  then show "e = Some (queue_backend_error err)"
    "decoded en (lst (rqQueueKey q) db') = decoded en (lst (rqQueueKey q) db) @ [item_core item]"
    using json_decodes [OF assms(2,6)] by simp_all
qed

text \<open>
  On a list that has passed its size, a delayed element that \<^verbatim>\<open>Dequeue\<close> takes is lost: its
  \<^verbatim>\<open>Enqueue\<close> fails with \<^verbatim>\<open>ErrQueueFull\<close>, which \<^verbatim>\<open>Dequeue\<close> ignores.
\<close>

lemma overfull_list_loses_delayed:
  assumes "list_ok en lst" "round_up r" "lst (rqQueueKey q) db = v # vs" "waits_in en q (r # rs) v"
    and "rqMaxSize q < int (length (v # vs))"
  shows "\<exists>db1. RQ_Dequeue en q deadline (r # rs) db = RQ_Dequeue en q deadline rs db1 \<and>
    lst (rqQueueKey q) db1 = vs"
proof -
  obtain item where item: "lnUnmarshal en v = Inr item"
    "\<forall>r \<in> set (r # rs). \<not> round_expired q r item \<and> \<not> item_ready (drNow r) item"
    using assms(4) by (auto simp: waits_in_def split: sum.splits)
  obtain db1 where db1: "BLPop en (drPop r) (dequeue_timeout deadline (drUntil r)) (rqQueueKey q) db
      = Returns (Inr [rqQueueKey q, v], db1)" "lst (rqQueueKey q) db1 = vs"
    using pop_up [OF assms(1) _ assms(3)] assms(2) unfolding round_up_def by blast
  have "RQ_Enqueue en q (drEnqueue r) (drEnqueueNow r) (Some item) db1 = (Some ErrQueueFull, db1)"
    using assms(2,5) db1(2) by (simp add: RQ_Enqueue_def round_up_def list_ok_simps [OF assms(1)] Let_def)
  then have "RQ_Dequeue en q deadline (r # rs) db = RQ_Dequeue en q deadline rs db1"
    using RQ_Dequeue_popped [where en = en, OF db1(1) item(1)] item(2) by simp
  with db1(2) show ?thesis by blast
qed

section \<open>A concrete list\<close>

definition ready_item :: "unit QueueItem" where
  "ready_item = \<lparr>qID = ''r'', qData = (), qMetadata = None, qPriority = 0, qEnqueueTime = 1, qProcessAfter = 0\<rparr>"

definition late_item :: "unit QueueItem" where
  "late_item = ready_item\<lparr>qID := ''l'', qProcessAfter := 100\<rparr>"

definition example_lists :: "(string \<Rightarrow> string list, unit) list_env" where
  "example_lists =
     \<lparr>lnLLen = (\<lambda>k db. int (length (db k))),
      lnRPush = (\<lambda>k v db. db(k := db k @ [v])),
      lnExpire = (\<lambda>k d db. db),
      lnLPop = (\<lambda>k db. case db k of [] \<Rightarrow> None | v # vs \<Rightarrow> Some (v, db(k := vs))),
      lnLIndex0 = (\<lambda>k db. case db k of [] \<Rightarrow> None | v # vs \<Rightarrow> Some v),
      lnDel = (\<lambda>k db. db(k := [])),
      lnMarshal = (\<lambda>item. if item = ready_item then Inr ''r'' else if item = late_item then Inr ''l''
                          else Inl (ErrorNew ''json'')),
      lnUnmarshal = (\<lambda>s. if s = ''r'' then Inr ready_item else if s = ''l'' then Inr late_item
                         else Inl (ErrorNew ''json''))\<rparr>"

lemma example_lists_ok: "list_ok example_lists (\<lambda>k db. db k)"
  by (auto simp: list_ok_def example_lists_def split: list.split)

lemma two_items: "ready_item \<noteq> late_item"
  by (simp add: ready_item_def late_item_def)

lemma example_json_ok: "json_ok example_lists"
  using two_items by (auto simp: json_ok_def example_lists_def split: if_splits)

lemma example_json_total: "json_total example_lists"
  using two_items by (auto simp: json_total_def example_lists_def split: if_splits)

lemma example_unmarshal [simp]:
  "lnUnmarshal example_lists ''r'' = Inr ready_item" "lnUnmarshal example_lists ''l'' = Inr late_item"
  by (simp_all add: example_lists_def)

definition example_rq :: RedisFIFO where
  "example_rq = \<lparr>rqQueueKey = ''queue:fifo'', rqMaxSize = 2, rqItemTTL = hour, rqKeyExpiry = 72 * hour\<rparr>"

lemma example_rq_new:
  "NewRedisQueue \<lparr>qcType = RedisQueue, qcMaxSize = 2, qcItemTTL = hour, qcRedisOptions = None\<rparr> (Some ()) = Inr example_rq"
  by (simp add: NewRedisQueue_def example_rq_def queue_options_def duration_defs)

definition example_round :: dequeue_round where
  "example_round =
     \<lparr>drUntil = 50, drPop = LinkUp, drSince = 50, drNow = 50, drEnqueueNow = 50,
      drEnqueue = \<lparr>elLLen = LinkUp, elRPush = LinkUp, elExpire = NotSent CtxCanceled\<rparr>\<rparr>"

lemma example_round_up: "round_up example_round"
  by (simp add: example_round_def round_up_def)

lemma example_waits: "waits_in example_lists example_rq (replicate n example_round) ''l''"
  by (auto simp: waits_in_def late_item_def ready_item_def IsZero_def round_expired_def item_ready_def
      example_round_def example_rq_def time_Sub_def int64_min_def int64_max_def duration_defs)

lemma example_ready: "ready_in example_lists example_rq (replicate n example_round) ''r'' ready_item"
  by (auto simp: ready_in_def ready_item_def IsZero_def round_expired_def item_ready_def
      example_round_def example_rq_def time_Sub_def int64_min_def int64_max_def duration_defs)

definition example_store :: "string list \<Rightarrow> string \<Rightarrow> string list" where
  "example_store vs = (\<lambda>k. [])(''queue:fifo'' := vs)"

lemma example_store_key [simp]: "example_store vs (rqQueueKey example_rq) = vs" "rqMaxSize example_rq = 2"
  by (simp_all add: example_store_def example_rq_def)




theorem redis_queue_overshoot_witness:
  "(rq_step example_lists example_rq 2)\<^sup>*\<^sup>* (example_store [''r''], [])
     (example_store [''r'', ''r'', ''l''], []) \<and>
   int (length (example_store [''r'', ''r'', ''l''] (rqQueueKey example_rq))) + int (length ([] :: string list)) \<le> 2 + 2 - 1"
proof -
  let ?step = "rq_step example_lists example_rq 2"
  have m: "lnMarshal example_lists ready_item = Inr ''r''" "lnMarshal example_lists late_item = Inr ''l''"
    using two_items by (auto simp: example_lists_def)
  have len: "lnLLen example_lists (rqQueueKey example_rq) (example_store [''r'']) < rqMaxSize example_rq"
    by (simp add: example_lists_def)
  have app: "lnRPush example_lists (rqQueueKey example_rq) v (example_store vs) = example_store (vs @ [v])" for v vs
    by (simp add: example_lists_def example_rq_def example_store_def)
  have "?step (example_store [''r''], []) (example_store [''r''], [''r''])"
    using check_size [OF len _ m(1), of "[]" 2] by simp
  moreover have "?step (example_store [''r''], [''r'']) (example_store [''r''], [''r'', ''l''])"
    using check_size [OF len _ m(2), of "[''r'']" 2] by simp
  moreover have "?step (example_store [''r''], [''r'', ''l'']) (example_store [''r'', ''r''], [''l''])"
    using push [of example_lists example_rq 2 "example_store [''r'']" "[]" "''r''" "[''l'']"] by (simp add: app)
  moreover have "?step (example_store [''r'', ''r''], [''l'']) (example_store [''r'', ''r'', ''l''], [])"
    using push [of example_lists example_rq 2 "example_store [''r'', ''r'']" "[]" "''l''" "[]"] by (simp add: app)
  ultimately have run: "?step\<^sup>*\<^sup>* (example_store [''r''], []) (example_store [''r'', ''r'', ''l''], [])"
    by (meson converse_rtranclp_into_rtranclp rtranclp.rtrancl_refl)
  from redis_queue_overshoot [OF example_lists_ok run] run show ?thesis by simp
qed

end
