(* ===== verification/Server.thy ===== *)
theory Server
  imports Handler Redis_Limiter Redis_Queue
begin

text \<open>
  cmd/server/main.go: how the configuration becomes a running server.  Redis and the HTTP server
  are parameters.
\<close>

section \<open>Construction\<close>

definition main_limiter_config :: "Config \<Rightarrow> LimiterConfig" where
  "main_limiter_config cfg =
     (if UseRedis (RateLimiter cfg) then
        \<lparr>lcType = RedisLimiter,
         lcTokensPerSecond = TokensPerSecond (RateLimiter cfg),
         lcBucketSize = BucketSize (RateLimiter cfg),
         lcRedisOptions = Some \<lparr>lKeyPrefix = KeyPrefix (RateLimiter cfg), lKeyExpiry = 24 * hour,
                               lLuaScriptPath = ''''\<rparr>\<rparr>
      else
        \<lparr>lcType = InMemoryLimiter,
         lcTokensPerSecond = TokensPerSecond (RateLimiter cfg),
         lcBucketSize = BucketSize (RateLimiter cfg),
         lcRedisOptions = None\<rparr>)"

definition main_queue_config :: "Config \<Rightarrow> QueueConfig" where
  "main_queue_config cfg =
     (if UseRedis (RateLimiter cfg) then
        \<lparr>qcType = RedisQueue, qcMaxSize = 10000, qcItemTTL = 24 * hour,
         qcRedisOptions = Some \<lparr>qoKeyPrefix = ''queue:'', qoKeyExpiry = 72 * hour\<rparr>\<rparr>
      else
        \<lparr>qcType = InMemoryQueue, qcMaxSize = 1000, qcItemTTL = hour, qcRedisOptions = None\<rparr>)"

definition main_worker_config :: WorkerConfig where
  "main_worker_config =
     \<lparr>wcPollingInterval = 100 * millisecond, wcMaxConcurrent = 10, wcRetryDelay = 500 * millisecond\<rparr>"

definition port_string :: "Config \<Rightarrow> string" where
  "port_string cfg =
     (let portStr = Port (Server cfg)
      in if \<not> HasPrefix portStr '':'' then '':'' @ portStr else portStr)"

datatype route = QueuedCompletions | DirectCompletions | Health

definition main_routes :: "(string \<times> route) list" where
  "main_routes =
     [(''/api/v1/completions'', QueuedCompletions),
      (''/api/v1/direct/completions'', DirectCompletions),
      (''/health'', Health)]"

record server =
  srAddr :: string
  srReadTimeout :: duration
  srWriteTimeout :: duration
  srIdleTimeout :: duration
  srRoutes :: "(string \<times> route) list"
  srLimiter :: LimiterConfig
  srQueue :: QueueConfig
  srWorker :: WorkerConfig
  srService :: Service
  srLogger :: logger_setup

text \<open>
  The program ends with status 1, or runs.  The arguments are the loading of the configuration
  and the ping of Redis; the constructors of limiter and queue do not fail for these
  configurations.
\<close>

definition main_start ::
  "(string \<Rightarrow> go_error + Config) \<Rightarrow> (Config \<Rightarrow> go_error option) \<Rightarrow> string \<Rightarrow> string + server" where
  "main_start loadConfig pingRedis configPath =
     (case loadConfig configPath of
        Inl err \<Rightarrow> Inl (''Failed to load configuration: '' @ error_text err)
      | Inr cfg \<Rightarrow>
          if UseRedis (RateLimiter cfg) \<and> pingRedis cfg \<noteq> None then Inl ''Failed to connect to Redis''
          else
            case NewService (LLMProvider cfg) of
              Inl err \<Rightarrow> Inl ''Failed to initialize LLM service''
            | Inr llmService \<Rightarrow>
                Inr \<lparr>srAddr = port_string cfg,
                     srReadTimeout = ReadTimeout (Server cfg),
                     srWriteTimeout = WriteTimeout (Server cfg),
                     srIdleTimeout = IdleTimeout (Server cfg),
                     srRoutes = main_routes,
                     srLimiter = main_limiter_config cfg,
                     srQueue = main_queue_config cfg,
                     srWorker = worker_config main_worker_config,
                     srService = llmService,
                     srLogger = fst (InitLogger (Level (Logging cfg)) (Pretty (Logging cfg)))\<rparr>)"

lemma main_constructors_succeed:
  "\<exists>rl. NewRedisTokenBucket (main_limiter_config cfg) (Some client) = Inr rl"
  "\<exists>q. NewQueue (main_queue_config cfg) (Some client) = Inr q"
  by (simp_all add: NewRedisTokenBucket_def NewQueue_def NewRedisQueue_def main_queue_config_def)

text \<open>
  C28: with a configuration that \<^verbatim>\<open>LoadConfig\<close> returns, and Redis reachable if it is
  used, the program starts: the service is well formed, the address has its colon,
  the worker has ten slots, and the limiter and the queue are of the same kind.
\<close>

theorem server_starts:
  assumes "LoadConfig readInConfig unmarshal path = Inr cfg"
    and "UseRedis (RateLimiter cfg) \<longrightarrow> pingRedis cfg = None"
  shows "\<exists>srv. main_start (LoadConfig readInConfig unmarshal) pingRedis path = Inr srv \<and>
    service_ok (srService srv) \<and> (\<exists>p. srAddr srv = CHR '':'' # p) \<and> wcMaxConcurrent (srWorker srv) = 10 \<and>
    (lcType (srLimiter srv) = RedisLimiter \<longleftrightarrow> qcType (srQueue srv) = RedisQueue) \<and>
    (lcType (srLimiter srv) = InMemoryLimiter \<longleftrightarrow> qcType (srQueue srv) = InMemoryQueue)"
proof -
  have valid: "config_valid cfg" by (rule LoadConfig_valid [OF assms(1)])
  obtain s where s: "NewService (LLMProvider cfg) = Inr s"
    using valid by (auto simp: config_valid_def NewService_def Let_def)
  have "\<exists>p. port_string cfg = CHR '':'' # p"
    by (cases "Port (Server cfg)") (auto simp: port_string_def HasPrefix_def Let_def)
  then show ?thesis
    using assms s NewService_ok [OF s]
    by (simp add: main_start_def worker_config_def main_worker_config_def main_limiter_config_def
        main_queue_config_def)
qed

text \<open>With the default write timeout of 60 seconds the queueing handler may wait longer than the connection.\<close>

lemma waits_past_write_timeout:
  assumes "main_start loadConfig pingRedis path = Inr srv" "loadConfig path = Inr cfg"
    and "WriteTimeout (Server cfg) = 60 * second"
  shows "srWriteTimeout srv < wait_limit None" "map_of setDefaults ''server.writeTimeout'' = Some (DString ''60s'')"
  using assms
  by (auto simp: main_start_def wait_limit_def request_timeout_def duration_defs setDefaults_def split: if_splits sum.splits)

theorem server_starts_witness:
  "\<exists>srv. main_start (LoadConfig (\<lambda>v. Inr ()) (\<lambda>u. Inr example_full_config)) (\<lambda>c. None) '''' = Inr srv \<and>
     wcMaxConcurrent (srWorker srv) = 10"
proof -
  have "config_valid example_full_config"
    by (simp add: config_valid_def example_full_config_def example_llm_config_def)
  then have v: "validateConfig example_full_config = None" by (simp only: validateConfig_None)
  then have "LoadConfig (\<lambda>v. Inr ()) (\<lambda>u. Inr example_full_config) '''' = Inr example_full_config"
    by (simp only: LoadConfig_def v sum.case option.case)
  from server_starts [OF this, of "\<lambda>c. None"] show ?thesis by auto
qed

end
