(* ===== verification/Dequeue_Wait.thy ===== *)
theory Dequeue_Wait
  imports Fifo_Queue
begin

text \<open>
  How \<^verbatim>\<open>InMemoryFIFO.Dequeue\<close> waits on an empty queue (file fifo_queue.go): one caller, the
  goroutines that it spawns to watch its context, and the condition variable \<^verbatim>\<open>notEmpty\<close>,
  as a step relation.  A \<^verbatim>\<open>Signal\<close> wakes a parked waiter and is lost when nobody is parked
  (package \<^verbatim>\<open>sync\<close>).  The caller holds the mutex except while it is parked; \<^verbatim>\<open>Signal\<close> needs
  no mutex.
\<close>

section \<open>The machine\<close>

text \<open>
  The caller's program points: at the loop head; with its goroutine spawned but not yet
  parked in \<^verbatim>\<open>Wait\<close>; parked; woken up; and returned, with the context's error or with the
  loop left because there are items.
\<close>

datatype caller_pc = AtLoop | Spawned | Parked | Woken | ReturnedCtxErr | LeftLoop

text \<open>A watcher waits for the context, has signalled, or has closed its \<^verbatim>\<open>done\<close> channel.\<close>

datatype watcher = WaitsCtx | Signalled | ClosedDone

record wait_state =
  pc :: caller_pc
  current :: "watcher option"
  earlier :: nat
  ctxDone :: bool
  queued :: nat

definition wake :: "caller_pc \<Rightarrow> caller_pc" where
  "wake p = (if p = Parked then Woken else p)"

text \<open>
  \<^verbatim>\<open>current\<close> is the watcher of the caller's latest iteration, \<^verbatim>\<open>earlier\<close> the number of
  watchers of earlier iterations that still wait for the context.
\<close>

inductive wait_step :: "wait_state \<Rightarrow> wait_state \<Rightarrow> bool" where
  leave: "pc s = AtLoop \<Longrightarrow> 0 < queued s \<Longrightarrow> wait_step s (s\<lparr>pc := LeftLoop\<rparr>)"
| spawn: "pc s = AtLoop \<Longrightarrow> queued s = 0 \<Longrightarrow>
    wait_step s (s\<lparr>pc := Spawned, current := Some WaitsCtx,
      earlier := earlier s + (if current s = Some WaitsCtx then 1 else 0)\<rparr>)"
| park: "pc s = Spawned \<Longrightarrow> wait_step s (s\<lparr>pc := Parked\<rparr>)"
| check_done: "pc s = Woken \<Longrightarrow> current s = Some ClosedDone \<Longrightarrow> wait_step s (s\<lparr>pc := ReturnedCtxErr\<rparr>)"
| check_default: "pc s = Woken \<Longrightarrow> current s \<noteq> Some ClosedDone \<Longrightarrow> wait_step s (s\<lparr>pc := AtLoop\<rparr>)"
| signal_current: "current s = Some WaitsCtx \<Longrightarrow> ctxDone s \<Longrightarrow>
    wait_step s (s\<lparr>current := Some Signalled, pc := wake (pc s)\<rparr>)"
| signal_earlier: "0 < earlier s \<Longrightarrow> ctxDone s \<Longrightarrow>
    wait_step s (s\<lparr>earlier := earlier s - 1, pc := wake (pc s)\<rparr>)"
| close_done: "current s = Some Signalled \<Longrightarrow> wait_step s (s\<lparr>current := Some ClosedDone\<rparr>)"
| cancel: "wait_step s (s\<lparr>ctxDone := True\<rparr>)"

text \<open>
  An \<^verbatim>\<open>Enqueue\<close> of another goroutine takes the mutex, so it runs while the caller is parked or
  about to take the mutex again.
\<close>

inductive enqueue_step :: "wait_state \<Rightarrow> wait_state \<Rightarrow> bool" where
  enqueue: "pc s \<in> {Parked, Woken} \<Longrightarrow>
    enqueue_step s (s\<lparr>queued := Suc (queued s), pc := wake (pc s)\<rparr>)"

definition wait_start :: wait_state where
  "wait_start = \<lparr>pc = AtLoop, current = None, earlier = 0, ctxDone = False, queued = 0\<rparr>"

inductive wait_reachable :: "wait_state \<Rightarrow> bool" where
  start: "wait_reachable wait_start"
| own_step: "wait_reachable s \<Longrightarrow> wait_step s t \<Longrightarrow> wait_reachable t"
| other_step: "wait_reachable s \<Longrightarrow> enqueue_step s t \<Longrightarrow> wait_reachable t"

inductive_cases wait_stepE: "wait_step s t"

section \<open>Safety\<close>

definition wait_inv :: "wait_state \<Rightarrow> bool" where
  "wait_inv s \<longleftrightarrow>
     (current s \<in> {Some Signalled, Some ClosedDone} \<longrightarrow> ctxDone s) \<and>
     (pc s = ReturnedCtxErr \<longrightarrow> ctxDone s) \<and>
     (pc s = LeftLoop \<longrightarrow> 0 < queued s) \<and>
     (pc s \<in> {Spawned, Parked, Woken} \<longrightarrow> current s \<noteq> None)"

lemma wait_step_inv: "wait_step s t \<Longrightarrow> wait_inv s \<Longrightarrow> wait_inv t"
  by (induction rule: wait_step.induct) (auto simp: wait_inv_def wake_def split: if_splits)

lemma enqueue_step_inv: "enqueue_step s t \<Longrightarrow> wait_inv s \<Longrightarrow> wait_inv t"
  by (induction rule: enqueue_step.induct) (auto simp: wait_inv_def wake_def split: if_splits)

lemma wait_reachable_inv: "wait_reachable s \<Longrightarrow> wait_inv s"
proof (induction rule: wait_reachable.induct)
  case start
  show ?case by (simp add: wait_inv_def wait_start_def)
qed (blast intro: wait_step_inv enqueue_step_inv)+

text \<open>The run in which the watcher signals before the caller is parked.\<close>

definition lost_state :: wait_state where
  "lost_state = \<lparr>pc = Parked, current = Some ClosedDone, earlier = 0, ctxDone = True, queued = 0\<rparr>"

lemma lost_state_reachable: "wait_reachable lost_state"
proof -
  let ?s1 = "wait_start\<lparr>pc := Spawned, current := Some WaitsCtx\<rparr>"
  let ?s2 = "?s1\<lparr>ctxDone := True\<rparr>"
  let ?s3 = "?s2\<lparr>current := Some Signalled\<rparr>"
  let ?s4 = "?s3\<lparr>pc := Parked\<rparr>"
  have "wait_step wait_start ?s1"
    using spawn [of wait_start] by (simp add: wait_start_def)
  from own_step [OF start this] have "wait_reachable ?s1" .
  from own_step [OF this cancel] have "wait_reachable ?s2" .
  moreover have "wait_step ?s2 (?s2\<lparr>current := Some Signalled, pc := wake (pc ?s2)\<rparr>)"
    by (rule signal_current) simp_all
  then have "wait_step ?s2 ?s3" by (simp add: wake_def wait_start_def)
  ultimately have "wait_reachable ?s3" by (rule own_step)
  moreover have "wait_step ?s3 ?s4"
    by (rule park) simp
  ultimately have "wait_reachable ?s4" by (rule own_step)
  moreover have "wait_step ?s4 (?s4\<lparr>current := Some ClosedDone\<rparr>)"
    by (rule close_done) simp
  ultimately have "wait_reachable (?s4\<lparr>current := Some ClosedDone\<rparr>)" by (rule own_step)
  then show ?thesis by (simp add: lost_state_def wait_start_def)
qed

text \<open>
  Dequeue_wait_outcomes: in every reachable state, \<^verbatim>\<open>Dequeue\<close> has returned the context's
  error only if the context is done, and left its waiting loop only if the queue has an
  item.
\<close>

theorem Dequeue_wait_outcomes:
  assumes "wait_reachable s"
  shows "(pc s = ReturnedCtxErr \<longrightarrow> ctxDone s) \<and> (pc s = LeftLoop \<longrightarrow> 0 < queued s)"
  using wait_reachable_inv [OF assms] by (simp add: wait_inv_def)

theorem Dequeue_wait_outcomes_witness:
  "\<exists>s. wait_reachable s \<and> pc s = LeftLoop \<and> 0 < queued s"
proof -
  let ?s1 = "wait_start\<lparr>pc := Spawned, current := Some WaitsCtx\<rparr>"
  let ?s2 = "?s1\<lparr>pc := Parked\<rparr>"
  let ?s3 = "?s2\<lparr>queued := 1, pc := Woken\<rparr>"
  have "wait_step wait_start ?s1"
    using spawn [of wait_start] by (simp add: wait_start_def)
  from own_step [OF start this] have "wait_reachable ?s1" .
  from own_step [OF this park] have "wait_reachable ?s2" by simp
  moreover have "enqueue_step ?s2 ?s3"
    using enqueue [of ?s2] by (simp add: wake_def wait_start_def)
  ultimately have "wait_reachable ?s3" by (rule other_step)
  from own_step [OF this check_default] have "wait_reachable (?s3\<lparr>pc := AtLoop\<rparr>)" by simp
  from own_step [OF this leave] have r: "wait_reachable (?s3\<lparr>pc := LeftLoop\<rparr>)" by simp
  show ?thesis
    using Dequeue_wait_outcomes [OF r] r by (intro exI [of _ "?s3\<lparr>pc := LeftLoop\<rparr>"]) simp
qed

text \<open>
  Dequeue_loses_wakeup: the watcher's \<^verbatim>\<open>Signal\<close> is not ordered with the caller's \<^verbatim>\<open>Wait\<close>: a
  state is reachable in which the context is done, the caller is parked, and no step of the
  caller or of a watcher ever changes anything again; only a later \<^verbatim>\<open>Enqueue\<close> can wake it.
  A worker that shuts down in this state never finishes.
\<close>

theorem Dequeue_loses_wakeup:
  "\<exists>s. wait_reachable s \<and> ctxDone s \<and> pc s = Parked \<and> queued s = 0 \<and>
       {t. wait_step\<^sup>*\<^sup>* s t} = {s}"
proof -
  have stuck: "t = lost_state" if "wait_step lost_state t" for t
    using that by (cases rule: wait_step.cases) (simp_all add: lost_state_def)
  have "t = lost_state" if "wait_step\<^sup>*\<^sup>* lost_state t" for t
    using that by (induction rule: rtranclp_induct) (auto dest: stuck)
  then show ?thesis
    using lost_state_reachable by (intro exI [of _ lost_state]) (auto simp: lost_state_def)
qed

text \<open>
  Dequeue_wakes_when_parked_first: when the context ends while the caller is parked and its
  watcher still waits, the watcher's next steps wake the caller and lead it to return
  the context's error.
\<close>

theorem Dequeue_wakes_when_parked_first:
  assumes "pc s = Parked" "current s = Some WaitsCtx" "ctxDone s"
  shows "\<exists>t. wait_step\<^sup>*\<^sup>* s t \<and> pc t = ReturnedCtxErr"
proof -
  let ?s1 = "s\<lparr>current := Some Signalled, pc := Woken\<rparr>"
  let ?s2 = "?s1\<lparr>current := Some ClosedDone\<rparr>"
  have "wait_step s ?s1"
    using signal_current [of s] assms by (simp add: wake_def)
  moreover have "wait_step ?s1 ?s2"
    by (rule close_done) simp
  moreover have "wait_step ?s2 (?s2\<lparr>pc := ReturnedCtxErr\<rparr>)"
    by (rule check_done) simp_all
  ultimately have "wait_step\<^sup>*\<^sup>* s (?s2\<lparr>pc := ReturnedCtxErr\<rparr>)"
    by (meson converse_rtranclp_into_rtranclp rtranclp.rtrancl_refl)
  moreover have "pc (?s2\<lparr>pc := ReturnedCtxErr\<rparr>) = ReturnedCtxErr" by simp
  ultimately show ?thesis by blast
qed

theorem Dequeue_wakes_when_parked_first_witness:
  "\<exists>t. wait_step\<^sup>*\<^sup>* (lost_state\<lparr>current := Some WaitsCtx\<rparr>) t \<and> pc t = ReturnedCtxErr"
  by (rule Dequeue_wakes_when_parked_first) (simp_all add: lost_state_def)

end
