(* ===== verification/Shutdown.thy ===== *)
theory Shutdown
  imports Server Dequeue_Wait Worker_System
begin

text \<open>
  The end of the program (cmd/server/main.go) on the in-memory queue: \<^verbatim>\<open>main\<close> waits for a signal,
  shuts the HTTP server down, cancels the context and in its deferred call stops the worker,
  while the connections, the worker's loop in its blocking \<^verbatim>\<open>Dequeue\<close> and the goroutines of
  \<^verbatim>\<open>processItem\<close> run on.  Of the items only their number is kept here.
\<close>

section \<open>State\<close>

text \<open>
  \<^verbatim>\<open>main\<close> waits for the signal, is in \<^verbatim>\<open>server.Shutdown\<close>, has cancelled the context and is about to
  close \<^verbatim>\<open>stopCh\<close>, waits for the worker's \<^verbatim>\<open>done\<close>, or has returned.
\<close>

datatype main_pc = AwaitSignal | ShuttingDown | StopsWorker | AwaitsWorker | Exited

text \<open>
  Connections without a request, with a request that is not yet queued, and with one that waits
  for its response; goroutines that may still put their item back, that are past that and
  hold their semaphore slot, and that have released it.  The state of \<^verbatim>\<open>Dequeue\<close> has the context
  and the number of items.
\<close>

record prog =
  pgMain :: main_pc
  pgListening :: bool
  pgSignal :: bool
  pgStopped :: bool
  pgIdle :: nat
  pgHandlers :: nat
  pgReplies :: nat
  pgLoop :: loop_pc
  pgWait :: wait_state
  pgWorking :: nat
  pgAnswering :: nat
  pgReleased :: nat

definition prog_running :: prog where
  "prog_running =
     \<lparr>pgMain = AwaitSignal, pgListening = True, pgSignal = False, pgStopped = False,
      pgIdle = 0, pgHandlers = 0, pgReplies = 0, pgLoop = LoopTop,
      pgWait = \<lparr>pc = LeftLoop, current = None, earlier = 0, ctxDone = False, queued = 0\<rparr>,
      pgWorking = 0, pgAnswering = 0, pgReleased = 0\<rparr>"

definition end_context :: "prog \<Rightarrow> prog" where
  "end_context s = s\<lparr>pgWait := (pgWait s)\<lparr>ctxDone := True\<rparr>\<rparr>"

text \<open>
  The queue's mutex is held by the loop inside \<^verbatim>\<open>Dequeue\<close>, except before it takes it and in
  \<^verbatim>\<open>notEmpty.Wait\<close>.
\<close>

definition mutex_free :: "prog \<Rightarrow> bool" where
  "mutex_free s \<longleftrightarrow>
     (pgLoop s = LoopHasSlot \<longrightarrow>
        pc (pgWait s) \<in> {Parked, Woken} \<or> pc (pgWait s) = AtLoop \<and> current (pgWait s) = None)"

text \<open>\<^verbatim>\<open>Enqueue\<close>: one item more, and a \<^verbatim>\<open>Signal\<close>.\<close>

definition put_item :: "prog \<Rightarrow> prog" where
  "put_item s = s\<lparr>pgWait := (pgWait s)\<lparr>queued := Suc (queued (pgWait s)), pc := wake (pc (pgWait s))\<rparr>\<rparr>"

text \<open>A new call of \<^verbatim>\<open>Dequeue\<close>; the watchers of earlier calls are still there.\<close>

definition call_Dequeue :: "wait_state \<Rightarrow> wait_state" where
  "call_Dequeue w =
     w\<lparr>pc := AtLoop, current := None, earlier := earlier w + (if current w = Some WaitsCtx then 1 else 0)\<rparr>"

section \<open>Steps\<close>

text \<open>
  The end of \<^verbatim>\<open>main\<close>, with its listening goroutine, which cancels the context when it fails.
  \<^verbatim>\<open>Shutdown\<close> closes the listeners at once and returns when the connections are idle or
  its time is over.
\<close>

inductive main_step :: "prog \<Rightarrow> prog \<Rightarrow> bool" where
  listen_fails: "pgListening s \<Longrightarrow> main_step s (end_context (s\<lparr>pgListening := False\<rparr>))"
| signal_arrives: "main_step s (s\<lparr>pgSignal := True\<rparr>)"
| signal_taken: "pgMain s = AwaitSignal \<Longrightarrow> pgSignal s \<Longrightarrow> main_step s (s\<lparr>pgMain := ShuttingDown\<rparr>)"
| listeners_closed: "pgMain s = ShuttingDown \<Longrightarrow> main_step s (s\<lparr>pgListening := False\<rparr>)"
| shutdown_returns:
    "pgMain s = ShuttingDown \<Longrightarrow> \<not> pgListening s \<Longrightarrow> main_step s (end_context (s\<lparr>pgMain := StopsWorker\<rparr>))"

text \<open>The deferred \<^verbatim>\<open>worker.Stop()\<close>.\<close>

inductive stop_step :: "prog \<Rightarrow> prog \<Rightarrow> bool" where
  stop_called: "pgMain s = StopsWorker \<Longrightarrow> stop_step s (s\<lparr>pgMain := AwaitsWorker, pgStopped := True\<rparr>)"
| stop_returns: "pgMain s = AwaitsWorker \<Longrightarrow> pgLoop s = LoopDone \<Longrightarrow> stop_step s (s\<lparr>pgMain := Exited\<rparr>)"

text \<open>
  Connections.  A request is queued or refused; after its response the connection is kept,
  unless the server shuts down.
\<close>

inductive http_step :: "prog \<Rightarrow> prog \<Rightarrow> bool" where
  connects: "pgListening s \<Longrightarrow> http_step s (s\<lparr>pgIdle := Suc (pgIdle s)\<rparr>)"
| closes: "pgIdle s = Suc k \<Longrightarrow> http_step s (s\<lparr>pgIdle := k\<rparr>)"
| requests: "pgIdle s = Suc k \<Longrightarrow> http_step s (s\<lparr>pgIdle := k, pgHandlers := Suc (pgHandlers s)\<rparr>)"
| queues:
    "pgHandlers s = Suc k \<Longrightarrow> mutex_free s \<Longrightarrow>
     http_step s (put_item (s\<lparr>pgHandlers := k, pgReplies := Suc (pgReplies s)\<rparr>))"
| refused: "pgHandlers s = Suc k \<Longrightarrow> http_step s (s\<lparr>pgHandlers := k, pgReplies := Suc (pgReplies s)\<rparr>)"
| replied:
    "pgReplies s = Suc k \<Longrightarrow>
     http_step s (s\<lparr>pgReplies := k, pgIdle := pgIdle s + (if pgMain s = AwaitSignal then 1 else 0)\<rparr>)"
| hangs_up: "pgReplies s = Suc k \<Longrightarrow> http_step s (s\<lparr>pgReplies := k\<rparr>)"

text \<open>The worker's loop; the waiting inside \<^verbatim>\<open>Dequeue\<close> is that of \<^verbatim>\<open>Dequeue_Wait\<close>.\<close>

inductive loop_step :: "prog \<Rightarrow> prog \<Rightarrow> bool" where
  loop_ends:
    "pgLoop s = LoopTop \<Longrightarrow> ctxDone (pgWait s) \<or> pgStopped s \<Longrightarrow> loop_step s (s\<lparr>pgLoop := LoopWaiting\<rparr>)"
| loop_slot:
    "pgLoop s = LoopTop \<Longrightarrow> \<not> ctxDone (pgWait s) \<Longrightarrow> \<not> pgStopped s \<Longrightarrow>
     int (pgWorking s + pgAnswering s) < wcMaxConcurrent (worker_config main_worker_config) \<Longrightarrow>
     loop_step s (s\<lparr>pgLoop := LoopHasSlot, pgWait := call_Dequeue (pgWait s)\<rparr>)"
| loop_takes:
    "pgLoop s = LoopHasSlot \<Longrightarrow> pc (pgWait s) = LeftLoop \<Longrightarrow> queued (pgWait s) = Suc k \<Longrightarrow>
     loop_step s (s\<lparr>pgLoop := LoopTop, pgWait := (pgWait s)\<lparr>queued := k\<rparr>, pgWorking := Suc (pgWorking s)\<rparr>)"
| loop_none_ready:
    "pgLoop s = LoopHasSlot \<Longrightarrow> pc (pgWait s) = LeftLoop \<Longrightarrow> loop_step s (s\<lparr>pgLoop := LoopTop\<rparr>)"
| loop_ctx_error:
    "pgLoop s = LoopHasSlot \<Longrightarrow> pc (pgWait s) = ReturnedCtxErr \<Longrightarrow> loop_step s (s\<lparr>pgLoop := LoopTop\<rparr>)"
| loop_returns:
    "pgLoop s = LoopWaiting \<Longrightarrow> pgWorking s = 0 \<Longrightarrow> pgAnswering s = 0 \<Longrightarrow> pgReleased s = 0 \<Longrightarrow>
     loop_step s (s\<lparr>pgLoop := LoopDone\<rparr>)"

text \<open>
  A goroutine of \<^verbatim>\<open>processItem\<close> puts its item back or goes past that, and then, deferred, releases
  its slot and calls \<^verbatim>\<open>wg.Done\<close>.  The clean-up of the queue drops items under the mutex.
\<close>

inductive job_step :: "prog \<Rightarrow> prog \<Rightarrow> bool" where
  job_requeues:
    "pgWorking s = Suc k \<Longrightarrow> mutex_free s \<Longrightarrow>
     job_step s (put_item (s\<lparr>pgWorking := k, pgAnswering := Suc (pgAnswering s)\<rparr>))"
| job_passes: "pgWorking s = Suc k \<Longrightarrow> job_step s (s\<lparr>pgWorking := k, pgAnswering := Suc (pgAnswering s)\<rparr>)"
| job_releases: "pgAnswering s = Suc k \<Longrightarrow> job_step s (s\<lparr>pgAnswering := k, pgReleased := Suc (pgReleased s)\<rparr>)"
| job_done: "pgReleased s = Suc k \<Longrightarrow> job_step s (s\<lparr>pgReleased := k\<rparr>)"
| cleanup: "mutex_free s \<Longrightarrow> k \<le> queued (pgWait s) \<Longrightarrow> job_step s (s\<lparr>pgWait := (pgWait s)\<lparr>queued := k\<rparr>\<rparr>)"

inductive prog_step :: "prog \<Rightarrow> prog \<Rightarrow> bool" where
  by_main: "main_step s t \<Longrightarrow> prog_step s t"
| by_stop: "stop_step s t \<Longrightarrow> prog_step s t"
| by_http: "http_step s t \<Longrightarrow> prog_step s t"
| by_loop: "loop_step s t \<Longrightarrow> prog_step s t"
| by_job: "job_step s t \<Longrightarrow> prog_step s t"
| by_wait: "wait_step (pgWait s) w \<Longrightarrow> ctxDone w = ctxDone (pgWait s) \<Longrightarrow> prog_step s (s\<lparr>pgWait := w\<rparr>)"

lemmas prog_intros = main_step.intros [THEN by_main] stop_step.intros [THEN by_stop]
  http_step.intros [THEN by_http] loop_step.intros [THEN by_loop] job_step.intros [THEN by_job]

abbreviation prog_run :: "prog \<Rightarrow> prog \<Rightarrow> bool" where
  "prog_run \<equiv> prog_step\<^sup>*\<^sup>*"

section \<open>What every state keeps\<close>

definition wait_fine :: "bool \<Rightarrow> wait_state \<Rightarrow> bool" where
  "wait_fine inside w \<longleftrightarrow>
     (current w \<in> {Some Signalled, Some ClosedDone} \<longrightarrow> ctxDone w) \<and>
     (pc w \<in> {Spawned, Parked, Woken} \<longrightarrow> current w \<noteq> None) \<and>
     (\<not> inside \<longrightarrow> pc w \<in> {LeftLoop, ReturnedCtxErr})"

lemma wait_fine_step: "wait_step w w' \<Longrightarrow> wait_fine inside w \<Longrightarrow> wait_fine inside w'"
  by (induction rule: wait_step.induct) (auto simp: wait_fine_def wake_def split: if_splits)

lemma wait_fine_updates:
  "wait_fine inside w \<Longrightarrow> wait_fine inside (w\<lparr>ctxDone := True\<rparr>)"
  "wait_fine inside w \<Longrightarrow> wait_fine inside (w\<lparr>queued := k\<rparr>)"
  "wait_fine False w \<Longrightarrow> wait_fine True (call_Dequeue w)" "ctxDone (call_Dequeue w) = ctxDone w"
  "wait_fine True w \<Longrightarrow> pc w = ReturnedCtxErr \<Longrightarrow> wait_fine False w"
  "wait_fine True w \<Longrightarrow> pc w = LeftLoop \<Longrightarrow> wait_fine False w"
  "wait_fine True w \<Longrightarrow> pc w = LeftLoop \<Longrightarrow> wait_fine False (w\<lparr>queued := k\<rparr>)"
  "wait_fine inside w \<Longrightarrow> wait_fine inside (w\<lparr>queued := k, pc := wake (pc w)\<rparr>)"
  by (auto simp: wait_fine_def call_Dequeue_def wake_def)

definition prog_inv :: "prog \<Rightarrow> bool" where
  "prog_inv s \<longleftrightarrow>
     (pgMain s \<noteq> AwaitSignal \<longrightarrow> pgSignal s) \<and>
     (pgMain s \<in> {StopsWorker, AwaitsWorker, Exited} \<longrightarrow> ctxDone (pgWait s) \<and> \<not> pgListening s) \<and>
     (pgMain s \<in> {AwaitsWorker, Exited} \<longrightarrow> pgStopped s) \<and>
     (pgMain s = Exited \<longrightarrow> pgLoop s = LoopDone) \<and>
     (pgLoop s = LoopDone \<longrightarrow> pgWorking s = 0 \<and> pgAnswering s = 0 \<and> pgReleased s = 0) \<and>
     (pgLoop s \<in> {LoopWaiting, LoopDone} \<longrightarrow> ctxDone (pgWait s) \<or> pgStopped s) \<and>
     (pgListening s \<or> pgMain s = ShuttingDown \<or> ctxDone (pgWait s)) \<and>
     wait_fine (pgLoop s = LoopHasSlot) (pgWait s) \<and>
     int (pgWorking s + pgAnswering s) + (if pgLoop s = LoopHasSlot then 1 else 0) \<le> wcMaxConcurrent (worker_config main_worker_config)"

lemmas prog_defs = end_context_def put_item_def wait_fine_updates

lemma prog_inv_start: "prog_inv prog_running"
  by (simp add: prog_inv_def wait_fine_def prog_running_def worker_config_def main_worker_config_def)

text \<open>The connections do not matter for it, nor does the number of items.\<close>

lemma prog_inv_http [simp]:
  "prog_inv (s\<lparr>pgIdle := k\<rparr>) = prog_inv s" "prog_inv (s\<lparr>pgHandlers := k\<rparr>) = prog_inv s"
  "prog_inv (s\<lparr>pgReplies := k\<rparr>) = prog_inv s" "mutex_free (s\<lparr>pgIdle := k\<rparr>) = mutex_free s"
  "mutex_free (s\<lparr>pgHandlers := k\<rparr>) = mutex_free s" "mutex_free (s\<lparr>pgReplies := k\<rparr>) = mutex_free s"
  "mutex_free (s\<lparr>pgWorking := k\<rparr>) = mutex_free s" "mutex_free (s\<lparr>pgAnswering := k\<rparr>) = mutex_free s"
  by (simp_all add: prog_inv_def mutex_free_def)

lemma prog_inv_put:
  assumes "prog_inv s"
  shows "prog_inv (put_item s)"
  using assms by (simp add: prog_inv_def prog_defs)

lemma prog_inv_passes:
  "prog_inv s \<Longrightarrow> pgWorking s = Suc k \<Longrightarrow> prog_inv (s\<lparr>pgWorking := k, pgAnswering := Suc (pgAnswering s)\<rparr>)"
  by (cases "pgLoop s"; simp add: prog_inv_def)

lemma prog_inv_step:
  assumes "prog_step s t" "prog_inv s"
  shows "prog_inv t"
  using assms(1)
proof cases
  case by_main
  then show ?thesis
    using assms(2) by (cases rule: main_step.cases; simp add: prog_inv_def prog_defs; fastforce?)
next
  case by_stop
  then show ?thesis
    using assms(2) by (cases rule: stop_step.cases; simp add: prog_inv_def prog_defs)
next
  case by_http
  then show ?thesis
    using assms(2) by (cases rule: http_step.cases; simp add: prog_inv_put)
next
  case by_loop
  then show ?thesis
    using assms(2) by (cases rule: loop_step.cases; simp add: prog_inv_def prog_defs; fastforce?)
next
  case by_job
  then show ?thesis
  proof cases
    case (job_requeues k)
    then show ?thesis using assms(2) prog_inv_put prog_inv_passes by simp
  next
    case (job_passes k)
    then show ?thesis using assms(2) prog_inv_passes by simp
  qed (use assms(2) in \<open>simp_all add: prog_inv_def prog_defs\<close>)
next
  case (by_wait w)
  then show ?thesis using assms(2) wait_fine_step [OF by_wait(2)] by (simp add: prog_inv_def)
qed

lemma prog_inv_run: "prog_run s t \<Longrightarrow> prog_inv s \<Longrightarrow> prog_inv t"
  by (induction rule: rtranclp_induct) (auto intro: prog_inv_step)

section \<open>How the program can end\<close>

definition can :: "prog \<Rightarrow> (prog \<Rightarrow> bool) \<Rightarrow> bool" where
  "can s P \<longleftrightarrow> (\<exists>t. prog_run s t \<and> P t)"

lemma can_now: "P s \<Longrightarrow> can s P"
  by (auto simp: can_def)

lemma can_step: "prog_step s t \<Longrightarrow> can t P \<Longrightarrow> can s P"
  by (auto simp: can_def intro: converse_rtranclp_into_rtranclp)

lemma can_then: "can s Q \<Longrightarrow> (\<And>t. prog_run s t \<Longrightarrow> Q t \<Longrightarrow> can t P) \<Longrightarrow> can s P"
  unfolding can_def by (meson rtranclp_trans)

text \<open>\<^verbatim>\<open>main\<close> always gets as far as waiting for the worker, whatever the loop does.\<close>

lemma main_progress:
  assumes "prog_inv s" "pgMain s \<noteq> Exited"
  shows "can s (\<lambda>t. pgMain t = AwaitsWorker \<and> pgLoop t = pgLoop s \<and> pc (pgWait t) = pc (pgWait s) \<and>
    current (pgWait t) = current (pgWait s))" (is "can s (?P s)")
proof -
  have stops: "can t (?P t)" if "pgMain t = StopsWorker" for t
    by (rule can_step [OF by_stop [OF stop_called [OF that]] can_now]) simp
  have shut: "can t (?P t)" if "pgMain t = ShuttingDown" for t
  proof -
    let ?t1 = "t\<lparr>pgListening := False\<rparr>"
    let ?t2 = "end_context (?t1\<lparr>pgMain := StopsWorker\<rparr>)"
    have "prog_step t ?t1" "prog_step ?t1 ?t2"
      using that by (auto intro!: by_main listeners_closed shutdown_returns)
    moreover have "can ?t2 (?P t)" using stops [of ?t2] by (simp add: end_context_def)
    ultimately show ?thesis by (blast intro: can_step)
  qed
  show ?thesis
  proof (cases "pgMain s")
    case AwaitSignal
    let ?t1 = "s\<lparr>pgSignal := True\<rparr>"
    let ?t2 = "?t1\<lparr>pgMain := ShuttingDown\<rparr>"
    have "prog_step s ?t1" "prog_step ?t1 ?t2"
      using AwaitSignal by (auto intro!: by_main signal_arrives signal_taken)
    moreover have "can ?t2 (?P s)" using shut [of ?t2] by simp
    ultimately show ?thesis by (blast intro: can_step)
  next
    case AwaitsWorker
    then show ?thesis by (intro can_now) simp
  qed (use assms(2) stops shut in auto)
qed

text \<open>The goroutines run to their ends, and the loop returns.\<close>

lemma drain_and_exit:
  "pgMain s = AwaitsWorker \<Longrightarrow> pgLoop s = LoopWaiting \<Longrightarrow> can s (\<lambda>t. pgMain t = Exited)"
proof (induction "3 * pgWorking s + 2 * pgAnswering s + pgReleased s" arbitrary: s rule: less_induct)
  case less
  consider k where "pgWorking s = Suc k" | k where "pgAnswering s = Suc k" | k where "pgReleased s = Suc k"
    | "pgWorking s = 0" "pgAnswering s = 0" "pgReleased s = 0"
    by (meson not0_implies_Suc)
  then show ?case
  proof cases
    case (1 k)
    show ?thesis
      by (rule can_step [OF by_job [OF job_passes [OF 1]] less.hyps]) (use less.prems 1 in simp_all)
  next
    case (2 k)
    show ?thesis
      by (rule can_step [OF by_job [OF job_releases [OF 2]] less.hyps]) (use less.prems 2 in simp_all)
  next
    case (3 k)
    show ?thesis
      by (rule can_step [OF by_job [OF job_done [OF 3]] less.hyps]) (use less.prems 3 in simp_all)
  next
    case 4
    let ?t = "s\<lparr>pgLoop := LoopDone\<rparr>"
    have a: "prog_step s ?t" using less.prems(2) 4 by (blast intro: by_loop loop_returns)
    have b: "prog_step ?t (?t\<lparr>pgMain := Exited\<rparr>)"
      using less.prems(1) by (intro by_stop stop_returns) simp_all
    show ?thesis by (rule can_step [OF a can_step [OF b can_now]]) simp
  qed
qed

lemma free_loop_exits:
  assumes "prog_inv s" "pgLoop s \<noteq> LoopHasSlot"
  shows "can s (\<lambda>t. pgMain t = Exited)"
proof (cases "pgMain s = Exited")
  case False
  show ?thesis
  proof (rule can_then [OF main_progress [OF assms(1) False]])
    fix t assume t: "prog_run s t"
      "pgMain t = AwaitsWorker \<and> pgLoop t = pgLoop s \<and> pc (pgWait t) = pc (pgWait s) \<and> current (pgWait t) = current (pgWait s)"
    have inv: "prog_inv t" by (rule prog_inv_run [OF t(1) assms(1)])
    show "can t (\<lambda>t. pgMain t = Exited)"
    proof (cases "pgLoop t")
      case LoopTop
      have "prog_step t (t\<lparr>pgLoop := LoopWaiting\<rparr>)"
        using inv t(2) LoopTop by (intro by_loop loop_ends) (auto simp: prog_inv_def)
      moreover have "can (t\<lparr>pgLoop := LoopWaiting\<rparr>) (\<lambda>t. pgMain t = Exited)"
        using t(2) by (intro drain_and_exit) simp_all
      ultimately show ?thesis by (rule can_step)
    next
      case LoopDone
      then show ?thesis
        using t(2) by (intro can_step [OF by_stop [OF stop_returns] can_now]) simp_all
    qed (use t(2) assms(2) drain_and_exit in auto)
  qed
qed (simp add: can_now)

lemma returned_Dequeue_exits:
  assumes "prog_inv s" "pgLoop s = LoopHasSlot" "pc (pgWait s) \<in> {LeftLoop, ReturnedCtxErr}"
  shows "can s (\<lambda>t. pgMain t = Exited)"
proof -
  have step: "prog_step s (s\<lparr>pgLoop := LoopTop\<rparr>)"
    using assms(2,3) by (auto intro: by_loop loop_none_ready loop_ctx_error)
  show ?thesis
    by (rule can_step [OF step free_loop_exits]) (use prog_inv_step [OF step assms(1)] in simp_all)
qed

text \<open>One step of \<^verbatim>\<open>Dequeue\<close>.\<close>

lemma can_wait:
  assumes "prog_inv s" "wait_step (pgWait s) w" "ctxDone w = ctxDone (pgWait s)"
    and "prog_inv (s\<lparr>pgWait := w\<rparr>) \<Longrightarrow> can (s\<lparr>pgWait := w\<rparr>) P"
  shows "can s P"
  using by_wait [OF assms(2,3)] prog_inv_step [OF _ assms(1)] assms(4) by (blast intro: can_step)

lemma woken_by_context_exits:
  assumes "prog_inv s" "pgLoop s = LoopHasSlot" "pc (pgWait s) = Woken"
    and "current (pgWait s) \<in> {Some Signalled, Some ClosedDone}"
  shows "can s (\<lambda>t. pgMain t = Exited)"
proof -
  have closed: "can t (\<lambda>t. pgMain t = Exited)"
    if "prog_inv t" "pgLoop t = LoopHasSlot" "pc (pgWait t) = Woken" "current (pgWait t) = Some ClosedDone" for t
    by (rule can_wait [OF that(1) check_done [OF that(3,4)]])
      (use that in \<open>auto intro: returned_Dequeue_exits\<close>)
  show ?thesis
  proof (cases "current (pgWait s) = Some Signalled")
    case True
    show ?thesis
      by (rule can_wait [OF assms(1) close_done [OF True]]) (use assms in \<open>auto intro: closed\<close>)
  qed (use closed assms in auto)
qed

lemma parked_with_watcher_exits:
  assumes "prog_inv s" "pgLoop s = LoopHasSlot" "pc (pgWait s) \<in> {Spawned, Parked}"
    and "current (pgWait s) = Some WaitsCtx"
  shows "can s (\<lambda>t. pgMain t = Exited)"
proof -
  have parked: "can t (\<lambda>t. pgMain t = Exited)"
    if "prog_inv t" "pgLoop t = LoopHasSlot" "pc (pgWait t) = Parked" "current (pgWait t) = Some WaitsCtx"
      "ctxDone (pgWait t)" for t
    by (rule can_wait [OF that(1) signal_current [OF that(4,5)]])
      (use that in \<open>auto simp: wake_def intro: woken_by_context_exits\<close>)
  have "pgMain s \<noteq> Exited" using assms(1,2) by (auto simp: prog_inv_def)
  then show ?thesis
  proof (rule can_then [OF main_progress [OF assms(1)]])
    fix t assume t: "prog_run s t"
      "pgMain t = AwaitsWorker \<and> pgLoop t = pgLoop s \<and> pc (pgWait t) = pc (pgWait s) \<and> current (pgWait t) = current (pgWait s)"
    have inv: "prog_inv t" by (rule prog_inv_run [OF t(1) assms(1)])
    then have ctx: "ctxDone (pgWait t)" using t(2) by (simp add: prog_inv_def)
    show "can t (\<lambda>t. pgMain t = Exited)"
    proof (cases "pc (pgWait t) = Spawned")
      case True
      show ?thesis
        by (rule can_wait [OF inv park [OF True]]) (use t(2) assms ctx in \<open>auto intro: parked\<close>)
    qed (use parked [OF inv] t(2) assms ctx in auto)
  qed
qed

lemma at_loop_exits:
  assumes "prog_inv s" "pgLoop s = LoopHasSlot" "pc (pgWait s) = AtLoop"
  shows "can s (\<lambda>t. pgMain t = Exited)"
proof (cases "queued (pgWait s) = 0")
  case True
  show ?thesis
    by (rule can_wait [OF assms(1) spawn [OF assms(3) True]])
      (use assms in \<open>auto intro: parked_with_watcher_exits\<close>)
next
  case False
  then have "0 < queued (pgWait s)" by simp
  then show ?thesis
    by (rule can_wait [OF assms(1) leave [OF assms(3)]]) (use assms in \<open>auto intro: returned_Dequeue_exits\<close>)
qed

lemma woken_exits:
  assumes "prog_inv s" "pgLoop s = LoopHasSlot" "pc (pgWait s) = Woken"
  shows "can s (\<lambda>t. pgMain t = Exited)"
proof (cases "current (pgWait s) = Some ClosedDone")
  case True
  then show ?thesis using assms by (intro woken_by_context_exits) simp_all
next
  case False
  show ?thesis
    by (rule can_wait [OF assms(1) check_default [OF assms(3) False]]) (use assms in \<open>auto intro: at_loop_exits\<close>)
qed

text \<open>Who may still put an item into the queue, and so wake the loop.\<close>

definition may_enqueue :: "prog \<Rightarrow> bool" where
  "may_enqueue s \<longleftrightarrow>
     pgListening s \<or> 0 < pgIdle s \<or> 0 < pgHandlers s \<or> 0 < pgWorking s \<or>
     (0 < pgReplies s \<and> pgMain s = AwaitSignal)"

text \<open>
  The loop is lost: it is in \<^verbatim>\<open>notEmpty.Wait\<close>, or bound to be, all its watchers have already
  signalled, and nobody can put in an item.
\<close>

definition lost :: "prog \<Rightarrow> bool" where
  "lost s \<longleftrightarrow>
     pgLoop s = LoopHasSlot \<and> pc (pgWait s) \<in> {Spawned, Parked} \<and> current (pgWait s) \<noteq> Some WaitsCtx \<and>
     earlier (pgWait s) = 0 \<and> \<not> may_enqueue s"

lemma parked_with_enqueuer_exits:
  assumes "prog_inv s" "pgLoop s = LoopHasSlot" "pc (pgWait s) = Parked" "may_enqueue s"
  shows "can s (\<lambda>t. pgMain t = Exited)"
proof -
  let ?parked = "\<lambda>t. prog_inv t \<and> pgLoop t = LoopHasSlot \<and> pc (pgWait t) = Parked"
  let ?exits = "\<lambda>t. can t (\<lambda>t. pgMain t = Exited)"
  have put: "?exits t" if "?parked s'" "prog_step s' t" "t = put_item r" "pgWait r = pgWait s'" "pgLoop r = pgLoop s'" for t s' r
    using that prog_inv_step [OF that(2)] by (intro woken_exits) (simp_all add: put_item_def wake_def)
  have free: "mutex_free t" if "?parked t" for t using that by (simp add: mutex_free_def)
  have handler: "?exits t" if "?parked t" "pgHandlers t = Suc k" for t k
  proof -
    note step = by_http [OF queues [OF that(2) free [OF that(1)]]]
    show ?thesis
      by (rule can_step [OF step put [OF that(1) step refl]]) simp_all
  qed
  have idle: "?exits t" if "?parked t" "pgIdle t = Suc k" for t k
    by (rule can_step [OF by_http [OF requests [OF that(2)]] handler]) (use that in simp_all)
  consider "pgListening s" | k where "pgIdle s = Suc k" | k where "pgHandlers s = Suc k" | k where "pgWorking s = Suc k"
    | k where "pgReplies s = Suc k" "pgMain s = AwaitSignal"
    using assms(4) by (auto simp: may_enqueue_def gr0_conv_Suc)
  then show ?thesis
  proof cases
    case 1
    show ?thesis
      by (rule can_step [OF by_http [OF connects [OF 1]] idle]) (use assms in simp_all)
  next
    case (4 k)
    have step: "prog_step s (put_item (s\<lparr>pgWorking := k, pgAnswering := Suc (pgAnswering s)\<rparr>))"
      using free [of s] assms by (intro by_job job_requeues [OF 4]) simp
    show ?thesis
      by (rule can_step [OF step put [OF _ step refl]]) (use assms in simp_all)
  next
    case (5 k)
    show ?thesis
      by (rule can_step [OF by_http [OF replied [OF 5(1)]] idle]) (use assms 5 in simp_all)
  qed (use idle handler assms in auto)
qed

lemma not_lost_exits:
  assumes "prog_inv s" "\<not> lost s"
  shows "can s (\<lambda>t. pgMain t = Exited)"
proof (cases "pgLoop s = LoopHasSlot \<and> pc (pgWait s) \<in> {Spawned, Parked} \<and> current (pgWait s) \<noteq> Some WaitsCtx")
  case True
  then have fine: "wait_fine True (pgWait s)" "pc (pgWait s) \<in> {Spawned, Parked, Woken}"
    "current (pgWait s) \<noteq> Some WaitsCtx"
    using assms(1) by (auto simp: prog_inv_def)
  then obtain x where x: "current (pgWait s) = Some x" "x \<noteq> WaitsCtx" by (auto simp: wait_fine_def)
  then have ctx: "ctxDone (pgWait s)" using fine(1) by (cases x) (simp_all add: wait_fine_def)
  have parked: "can t (\<lambda>t. pgMain t = Exited)"
    if "prog_inv t" "pgLoop t = LoopHasSlot" "pc (pgWait t) = Parked" "ctxDone (pgWait t)"
      "0 < earlier (pgWait t) \<or> may_enqueue t" for t
  proof (cases "0 < earlier (pgWait t)")
    case True
    show ?thesis
      by (rule can_wait [OF that(1) signal_earlier [OF True that(4)]])
        (use that in \<open>auto simp: wake_def intro: woken_exits\<close>)
  qed (use that parked_with_enqueuer_exits in auto)
  have rescue: "0 < earlier (pgWait s) \<or> may_enqueue s" using True assms(2) by (auto simp: lost_def)
  show ?thesis
  proof (cases "pc (pgWait s) = Spawned")
    case spawned: True
    show ?thesis
      by (rule can_wait [OF assms(1) park [OF spawned]])
        (use True ctx rescue in \<open>auto simp: may_enqueue_def intro!: parked\<close>)
  qed (use parked [OF assms(1)] True ctx rescue in auto)
next
  case False
  show ?thesis
  proof (cases "pgLoop s = LoopHasSlot")
    case True
    then show ?thesis
      using False assms(1) returned_Dequeue_exits parked_with_watcher_exits at_loop_exits woken_exits
      by (cases "pc (pgWait s)") auto
  qed (use assms(1) free_loop_exits in auto)
qed

lemma lost_step:
  assumes "prog_step s t" "lost s"
  shows "lost t"
  using assms(1)
proof cases
  case by_main
  then show ?thesis
    using assms(2) by (cases rule: main_step.cases; simp add: lost_def may_enqueue_def end_context_def)
next
  case by_stop
  then show ?thesis
    using assms(2) by (cases rule: stop_step.cases; simp add: lost_def may_enqueue_def)
next
  case by_http
  then show ?thesis
    using assms(2) by (cases rule: http_step.cases; simp add: lost_def may_enqueue_def)
next
  case by_loop
  then show ?thesis
    using assms(2) by (cases rule: loop_step.cases; auto simp: lost_def)
next
  case by_job
  then show ?thesis
    using assms(2) by (cases rule: job_step.cases; simp add: lost_def may_enqueue_def)
next
  case (by_wait w)
  from by_wait(2) show ?thesis
    using assms(2) unfolding by_wait(1)
    by (cases rule: wait_step.cases; auto simp: lost_def may_enqueue_def)
qed

lemma lost_run: "prog_run s t \<Longrightarrow> lost s \<Longrightarrow> lost t"
  by (induction rule: rtranclp_induct) (auto intro: lost_step)

lemma lost_not_exited: "prog_inv s \<Longrightarrow> lost s \<Longrightarrow> pgMain s \<noteq> Exited"
  by (auto simp: prog_inv_def lost_def)

lemma lost_never_exits: "prog_inv s \<Longrightarrow> lost s \<Longrightarrow> \<not> can s (\<lambda>t. pgMain t = Exited)"
  unfolding can_def by (blast dest: lost_run prog_inv_run lost_not_exited)

section \<open>Properties\<close>

text \<open>
  C10: when the program has exited, a signal had arrived, the server no longer
  listens, the context is cancelled, and the worker is at its end: its loop has returned and
  no goroutine of \<^verbatim>\<open>processItem\<close> is left.
\<close>

theorem exit_is_graceful:
  assumes "prog_run prog_running s" "pgMain s = Exited"
  shows "pgSignal s \<and> \<not> pgListening s \<and> ctxDone (pgWait s) \<and> pgStopped s \<and> pgLoop s = LoopDone \<and>
    pgWorking s = 0 \<and> pgAnswering s = 0 \<and> pgReleased s = 0"
  using prog_inv_run [OF assms(1) prog_inv_start] assms(2) by (simp add: prog_inv_def)

text \<open>
  C8: the program can still exit from a state exactly when its loop
  is not lost in \<^verbatim>\<open>notEmpty.Wait\<close>: all watchers of the context have signalled before the loop was
  parked, and no connection and no goroutine is left that could put in an item.
\<close>

theorem program_can_exit_unless_lost:
  assumes "prog_run prog_running s"
  shows "(\<exists>t. prog_run s t \<and> pgMain t = Exited) \<longleftrightarrow> \<not> lost s"
  using prog_inv_run [OF assms prog_inv_start] not_lost_exits lost_never_exits unfolding can_def by blast

text \<open>The run in which the watcher of the context signals before the loop is parked.\<close>

definition hung_prog :: prog where
  "hung_prog = prog_running
     \<lparr>pgMain := AwaitsWorker, pgListening := False, pgSignal := True, pgStopped := True, pgLoop := LoopHasSlot,
      pgWait := \<lparr>pc = Spawned, current = Some Signalled, earlier = 0, ctxDone = True, queued = 0\<rparr>\<rparr>"

lemma hung_prog_reached: "prog_run prog_running hung_prog"
proof -
  let ?w = "\<lparr>pc = AtLoop, current = None, earlier = 0, ctxDone = False, queued = 0\<rparr>"
  let ?s1 = "prog_running\<lparr>pgLoop := LoopHasSlot, pgWait := ?w\<rparr>"
  let ?s2 = "?s1\<lparr>pgWait := ?w\<lparr>pc := Spawned, current := Some WaitsCtx\<rparr>\<rparr>"
  let ?s3 = "?s2\<lparr>pgSignal := True\<rparr>"
  let ?s4 = "?s3\<lparr>pgMain := ShuttingDown\<rparr>"
  let ?s5 = "?s4\<lparr>pgListening := False\<rparr>"
  let ?s6 = "end_context (?s5\<lparr>pgMain := StopsWorker\<rparr>)"
  let ?s7 = "?s6\<lparr>pgMain := AwaitsWorker, pgStopped := True\<rparr>"
  have "prog_step prog_running ?s1"
    using by_loop [OF loop_slot [of prog_running]]
    by (simp add: prog_running_def call_Dequeue_def worker_config_def main_worker_config_def)
  moreover have "prog_step ?s1 ?s2"
    using by_wait [OF spawn [of "pgWait ?s1"]] by simp
  moreover have "prog_step ?s2 ?s3" by (intro by_main signal_arrives)
  moreover have "prog_step ?s3 ?s4"
    by (intro by_main signal_taken) (simp_all add: prog_running_def)
  moreover have "prog_step ?s4 ?s5" by (intro by_main listeners_closed) simp
  moreover have "prog_step ?s5 ?s6" by (intro by_main shutdown_returns) simp_all
  moreover have "prog_step ?s6 ?s7" by (intro by_stop stop_called) (simp add: end_context_def)
  moreover have "prog_step ?s7 hung_prog"
    using by_wait [OF signal_current [of "pgWait ?s7"]]
    by (simp add: hung_prog_def end_context_def wake_def prog_running_def)
  ultimately show ?thesis by (meson rtranclp.rtrancl_refl rtranclp.rtrancl_into_rtrancl)
qed

lemma AwaitsWorker_step:
  "prog_step s t \<Longrightarrow> pgMain s = AwaitsWorker \<Longrightarrow> pgMain t \<in> {AwaitsWorker, Exited}"
  by (elim prog_step.cases main_step.cases stop_step.cases http_step.cases loop_step.cases job_step.cases)
    (simp_all add: prog_defs)

text \<open>
  C9: a state is reachable in which a signal has arrived, the server and the
  context have ended and \<^verbatim>\<open>main\<close> waits for the worker, and from which it waits for ever,
  whatever runs: the wake-up of the loop in \<^verbatim>\<open>Dequeue\<close> was lost.
\<close>

theorem shutdown_can_hang:
  "\<exists>s. prog_run prog_running s \<and> pgSignal s \<and> ctxDone (pgWait s) \<and> pgMain s = AwaitsWorker \<and>
     pgMain ` {t. prog_run s t} = {AwaitsWorker}"
proof -
  have l: "lost hung_prog" "pgMain hung_prog = AwaitsWorker" "pgSignal hung_prog" "ctxDone (pgWait hung_prog)"
    by (simp_all add: hung_prog_def lost_def may_enqueue_def prog_running_def)
  have inv: "prog_inv hung_prog" by (rule prog_inv_run [OF hung_prog_reached prog_inv_start])
  have "pgMain t = AwaitsWorker" if "prog_run hung_prog t" for t
    using that
  proof (induction rule: rtranclp_induct)
    case (step t u)
    have "pgMain u \<noteq> Exited"
      using lost_never_exits [OF inv l(1)] step.hyps unfolding can_def
      by (meson rtranclp.rtrancl_into_rtrancl)
    then show ?case using AwaitsWorker_step [OF step.hyps(2) step.IH] by simp
  qed (rule l(2))
  then have "pgMain ` {t. prog_run hung_prog t} = {AwaitsWorker}" using l(2) by (auto simp: image_iff)
  then show ?thesis using l hung_prog_reached by blast
qed

lemma not_listening_step: "prog_step s t \<Longrightarrow> \<not> pgListening s \<Longrightarrow> \<not> pgListening t"
  by (elim prog_step.cases main_step.cases stop_step.cases http_step.cases loop_step.cases job_step.cases)
    (simp_all add: prog_defs)

text \<open>
  C29: when the server cannot listen, for example because
  the port is taken, the context ends and the worker stops, but the program goes on without
  listening and waits for a signal: without one it never exits, whatever happens.
\<close>

theorem listen_failure_leaves_a_dead_process:
  "\<exists>s. prog_run prog_running s \<and> \<not> pgListening s \<and> pgLoop s = LoopDone \<and> \<not> pgSignal s \<and>
     {t. prog_run s t} \<subseteq> {t. \<not> pgListening t \<and> (pgMain t = AwaitSignal \<or> pgSignal t)}"
proof -
  let ?s1 = "end_context (prog_running\<lparr>pgListening := False\<rparr>)"
  let ?s2 = "?s1\<lparr>pgLoop := LoopWaiting\<rparr>"
  let ?s3 = "?s2\<lparr>pgLoop := LoopDone\<rparr>"
  have "prog_step prog_running ?s1" by (intro by_main listen_fails) (simp add: prog_running_def)
  moreover have "prog_step ?s1 ?s2"
    by (intro by_loop loop_ends) (simp_all add: end_context_def prog_running_def)
  moreover have "prog_step ?s2 ?s3"
    by (intro by_loop loop_returns) (simp_all add: end_context_def prog_running_def)
  ultimately have run: "prog_run prog_running ?s3"
    by (meson rtranclp.rtrancl_refl rtranclp.rtrancl_into_rtrancl)
  have s3: "\<not> pgListening ?s3" "pgLoop ?s3 = LoopDone" "\<not> pgSignal ?s3"
    by (simp_all add: end_context_def prog_running_def)
  have "\<not> pgListening t \<and> (pgMain t = AwaitSignal \<or> pgSignal t)" if t: "prog_run ?s3 t" for t
  proof
    show "\<not> pgListening t"
      using t by (induction rule: rtranclp_induct) (use s3(1) in \<open>auto dest: not_listening_step\<close>)
    have "prog_inv t" using prog_inv_run [OF t prog_inv_run [OF run prog_inv_start]] .
    then show "pgMain t = AwaitSignal \<or> pgSignal t" by (auto simp: prog_inv_def)
  qed
  then show ?thesis using run s3 by (intro exI [of _ ?s3]) blast
qed

theorem exit_is_graceful_witness:
  "\<exists>s. prog_run prog_running s \<and> pgMain s = Exited \<and> pgSignal s \<and> pgLoop s = LoopDone"
proof -
  have "can prog_running (\<lambda>t. pgMain t = Exited)"
    by (rule not_lost_exits [OF prog_inv_start]) (simp add: lost_def prog_running_def)
  then obtain s where "prog_run prog_running s" "pgMain s = Exited" by (auto simp: can_def)
  with exit_is_graceful [OF this] show ?thesis by blast
qed

theorem program_can_exit_unless_lost_witness:
  "\<exists>t. prog_run prog_running t \<and> pgMain t = Exited"
  using program_can_exit_unless_lost [OF rtranclp.rtrancl_refl] by (simp add: lost_def prog_running_def)

end
