(* ===== verification/Redis_Limiter_System.thy ===== *)
theory Redis_Limiter_System
  imports Redis_Limiter
begin

text \<open>
  The Redis limiter under concurrency: several instances of the program share one store; their
  calls, the goroutines of their reservations and cancellations interleave, and every use of
  the connection may fail.  Every call reads a clock of its own before its script runs, so the
  scripts see times in any order.
\<close>

section \<open>The system\<close>

record 'db rsys =
  rsDb :: 'db
  rsInst :: "nat \<Rightarrow> RedisTokenBucket"
  rsTasks :: "(nat \<times> redisTask) list"

text \<open>A clock shows some instant between two whole seconds.\<close>

definition reads :: "int \<Rightarrow> int \<Rightarrow> gotime \<Rightarrow> bool" where
  "reads lo hi now \<longleftrightarrow> lo \<le> Unix now \<and> Unix now \<le> hi"

text \<open>
  The label of a step is its key and the number of tokens that it takes from the bucket for a
  caller.  A script changes only the store, a section under \<^verbatim>\<open>waitersMu\<close> only the tables of one
  instance, so the two sections of \<^verbatim>\<open>ReserveN\<close> and of a goroutine are one step.
\<close>

inductive r_step ::
  "'db redis_env \<Rightarrow> int \<Rightarrow> int \<Rightarrow> 'db rsys \<Rightarrow> string \<Rightarrow> int \<Rightarrow> 'db rsys \<Rightarrow> bool"
  for re lo hi where
  r_allow:
    "reads lo hi now \<Longrightarrow> Redis_AllowN re lk (rsInst s i) k c now (rsDb s) = (r, db) \<Longrightarrow>
     r_step re lo hi s k (if r = Inr True then c else 0) (s\<lparr>rsDb := db\<rparr>)"
| r_get:
    "reads lo hi now \<Longrightarrow> Redis_GetTokensAvailableN re lk (rsInst s i) k now (rsDb s) = (r, db) \<Longrightarrow>
     r_step re lo hi s k 0 (s\<lparr>rsDb := db\<rparr>)"
| r_reserve_now:
    "reads lo hi now \<Longrightarrow>
     Redis_ReserveN re lk k c now now' newID (rsInst s i) (rsDb s) = (Inr (r, None), rl, db) \<Longrightarrow>
     r_step re lo hi s k c (s\<lparr>rsDb := db, rsInst := (rsInst s)(i := rl)\<rparr>)"
| r_reserve_wait:
    "reads lo hi now \<Longrightarrow>
     Redis_ReserveN re lk k c now now' newID (rsInst s i) (rsDb s) = (Inr (r, Some g), rl, db) \<Longrightarrow>
     r_step re lo hi s k 0 (s\<lparr>rsDb := db, rsInst := (rsInst s)(i := rl), rsTasks := (i, g) # rsTasks s\<rparr>)"
| r_reserve_fails:
    "reads lo hi now \<Longrightarrow>
     Redis_ReserveN re lk k c now now' newID (rsInst s i) (rsDb s) = (Inl err, rl, db) \<Longrightarrow>
     r_step re lo hi s k 0 (s\<lparr>rsDb := db, rsInst := (rsInst s)(i := rl)\<rparr>)"
| r_wake:
    "(i, g) \<in> set (rsTasks s) \<Longrightarrow> reads lo hi now \<Longrightarrow>
     Redis_AllowN re lk (rsInst s i) (rkKey g) (rkTokenCost g) now (rsDb s) = (r, db') \<Longrightarrow>
     redis_wake re lk g now (rsInst s i) (rsDb s) = Returns (rl, db) \<Longrightarrow>
     r_step re lo hi s (rkKey g) (if r = Inr True then rkTokenCost g else 0)
       (s\<lparr>rsDb := db, rsInst := (rsInst s)(i := rl), rsTasks := remove1 (i, g) (rsTasks s)\<rparr>)"
| r_cancel:
    "Redis_CancelAt now r (rsInst s i) = (r', rl) \<Longrightarrow>
     r_step re lo hi s (rrKey r) 0 (s\<lparr>rsInst := (rsInst s)(i := rl)\<rparr>)"

text \<open>A run from a system: the tokens it took for every key, and the number of its steps.\<close>

inductive r_run ::
  "'db redis_env \<Rightarrow> int \<Rightarrow> int \<Rightarrow> 'db rsys \<Rightarrow> (string \<Rightarrow> int) \<Rightarrow> nat \<Rightarrow> 'db rsys \<Rightarrow> bool"
  for re lo hi s where
  r_run_start: "r_run re lo hi s (\<lambda>k. 0) 0 s"
| r_run_step:
    "r_run re lo hi s spent n s' \<Longrightarrow> r_step re lo hi s' k c s'' \<Longrightarrow>
     r_run re lo hi s (spent(k := spent k + c)) (Suc n) s''"

text \<open>All instances are configured alike and start with empty tables.\<close>

definition initial_rsys :: "RedisTokenBucket \<Rightarrow> 'db \<Rightarrow> 'db rsys" where
  "initial_rsys rl db = \<lparr>rsDb = db, rsInst = (\<lambda>i. rl), rsTasks = []\<rparr>"

section \<open>Levels under clocks that disagree\<close>

text \<open>
  A refill by a product \<^verbatim>\<open>d\<close> of rate and time that may be negative: what float64 adds to the
  exact sum, in terms of the bucket size \<^verbatim>\<open>B\<close> and of a bound \<^verbatim>\<open>P\<close> on the products.
\<close>

lemma rnd_between: "x - \<bar>x\<bar> / 2 ^ 53 \<le> f64_rnd x" "f64_rnd x \<le> x + \<bar>x\<bar> / 2 ^ 53"
  using f64_rnd_error [of x] by linarith+

lemma skew_sum:
  assumes "0 \<le> B" "\<bar>d\<bar> \<le> P" "\<bar>l\<bar> \<le> B + 2 * P"
  shows "f64_rnd (l + f64_rnd d) \<le> l + d + (B + 5 * P) / 2 ^ 53"
    "l + d - (B + 5 * P) / 2 ^ 53 \<le> f64_rnd (l + f64_rnd d)"
proof -
  let ?a = "f64_rnd d"
  have P: "0 \<le> P" using assms(2) by linarith
  have e: "\<bar>d\<bar> / 2 ^ 53 \<le> P / 2 ^ 53" using assms(2) by (intro divide_right_mono) simp_all
  have "P / 2 ^ 53 \<le> P" using P by simp
  then have a: "\<bar>?a\<bar> \<le> 2 * P" using rnd_between [of d] e assms(2) by linarith
  have "\<bar>l + ?a\<bar> \<le> B + 4 * P" using a assms(3) by linarith
  then have "\<bar>l + ?a\<bar> / 2 ^ 53 \<le> (B + 4 * P) / 2 ^ 53" by (intro divide_right_mono) simp_all
  moreover have "(B + 5 * P) / 2 ^ 53 = (B + 4 * P) / 2 ^ 53 + P / 2 ^ 53" by (simp add: add_divide_distrib)
  ultimately show "f64_rnd (l + ?a) \<le> l + d + (B + 5 * P) / 2 ^ 53"
    "l + d - (B + 5 * P) / 2 ^ 53 \<le> f64_rnd (l + ?a)"
    using rnd_between [of "l + ?a"] rnd_between [of d] e by linarith+
qed

text \<open>The rounding of one script, for a bucket size and a product of rate and window.\<close>

definition skew_unit :: "rat \<Rightarrow> rat \<Rightarrow> rat" where
  "skew_unit B P = 5 * (B + P) / 2 ^ 53"

lemma skew_unit_split:
  assumes "0 \<le> B" "0 \<le> P"
  shows "(B + 5 * P) / 2 ^ 53 + B / 2 ^ 53 \<le> skew_unit B P" "0 \<le> skew_unit B P"
  using assms by (simp_all add: skew_unit_def flip: add_divide_distrib)

lemma skew_total:
  assumes "0 \<le> B" "0 \<le> P" "n \<le> 2 ^ 50"
  shows "of_nat n * skew_unit B P \<le> B + P"
proof -
  have "(of_nat n :: rat) \<le> of_nat (2 ^ 50)" using assms(3) by (simp only: of_nat_le_iff)
  then have "of_nat n * skew_unit B P \<le> of_nat (2 ^ 50) * skew_unit B P"
    by (intro mult_right_mono skew_unit_split assms)
  also have "\<dots> = 5 / 8 * (B + P)" by (simp add: skew_unit_def)
  also have "\<dots> \<le> B + P" using assms by simp
  finally show ?thesis .
qed

text \<open>What a script leaves as level, and what it grants: from the level that the refill gave.\<close>

definition takes :: "rat \<Rightarrow> int \<Rightarrow> rat \<Rightarrow> bool" where
  "takes L g l' \<longleftrightarrow>
     l' = L \<and> g = 0 \<or>
     (\<exists>c > 0. f64_of_int c \<le> L \<and> l' = f64_sub L (f64_of_int c) \<and> (g = c \<or> g = 0))"

lemma takes_bounds:
  assumes "takes L g l'" "L \<le> of_int cap" "0 \<le> cap" "cap < 2 ^ 53"
  shows "l' + of_int g \<le> L + of_int cap / 2 ^ 53" "l' \<le> of_int cap" "0 \<le> l' \<or> l' = L" "g \<noteq> 0 \<Longrightarrow> 0 \<le> l'"
    "0 \<le> g"
proof -
  have cap: "0 \<le> (of_int cap :: rat) / 2 ^ 53" using assms(3) by simp
  have *: "l' + of_int g \<le> L + of_int cap / 2 ^ 53 \<and> l' \<le> of_int cap \<and> (0 \<le> l' \<or> l' = L) \<and>
      (g \<noteq> 0 \<longrightarrow> 0 \<le> l') \<and> 0 \<le> g"
  proof (cases "l' = L \<and> g = 0")
    case True
    then show ?thesis using cap assms(2) by simp
  next
    case False
    then obtain c where c: "0 < c" "f64_of_int c \<le> L" "l' = f64_sub L (f64_of_int c)" "g = c \<or> g = 0"
      using assms(1) unfolding takes_def by blast
    have eq: "f64_of_int c = of_int c"
      using c(1,2) assms(2,4) by (intro cost_exact(2) [of c cap]) auto
    let ?y = "L - of_int c"
    have y: "0 \<le> ?y" "?y \<le> of_int cap" "(0::rat) < of_int c" using c(1,2) assms(2) eq by simp_all
    have "f64_rnd ?y \<le> ?y + ?y / 2 ^ 53" by (rule f64_rnd_upper_add [OF y(1)])
    moreover have "?y / 2 ^ 53 \<le> of_int cap / 2 ^ 53" using y(2) by (intro divide_right_mono) simp_all
    moreover have "f64_rnd ?y \<le> of_int cap"
      using y(2) assms(3,4) by (intro f64_rnd_le_iff_bound is_f64_of_int) simp_all
    moreover have l': "l' = f64_rnd ?y" using c(3) eq by (simp add: f64_sub_def)
    ultimately have "l' + of_int c \<le> L + of_int cap / 2 ^ 53" "l' \<le> of_int cap" by linarith+
    moreover from this have "l' \<le> L + of_int cap / 2 ^ 53" using y(3) by linarith
    moreover have "0 \<le> l'" unfolding l' by (rule f64_rnd_nonneg [OF y(1)])
    ultimately show ?thesis
      using c(1,4) by (elim disjE) (simp_all only: of_int_0 add_0_right simp_thms)
  qed
  then show "l' + of_int g \<le> L + of_int cap / 2 ^ 53" "l' \<le> of_int cap" "0 \<le> l' \<or> l' = L" "g \<noteq> 0 \<Longrightarrow> 0 \<le> l'"
    "0 \<le> g"
    by auto
qed

text \<open>What a step on a key does to the store: nothing, or a level and the time of its clock.\<close>

definition store_step ::
  "'db redis_env \<Rightarrow> RedisTokenBucket \<Rightarrow> string \<Rightarrow> int \<Rightarrow> int \<Rightarrow> 'db \<Rightarrow> 'db \<Rightarrow> bool" where
  "store_step re rl k u g db db' \<longleftrightarrow>
     db' = db \<and> g = 0 \<or> (\<exists>l'. written re rl k u l' db db' \<and> takes (redis_level re rl k u db) g l')"

text \<open>
  The invariant of a key after \<^verbatim>\<open>n\<close> steps that granted \<^verbatim>\<open>G\<close> tokens, for readings between \<^verbatim>\<open>lo\<close>
  and \<^verbatim>\<open>hi\<close>.  The level may be negative: a script with an early time takes away what the next
  one with a late time gives back.  Level and grants together stay below the bucket size and
  the refill since \<^verbatim>\<open>lo\<close>.
\<close>

definition window :: "RedisTokenBucket \<Rightarrow> int \<Rightarrow> int \<Rightarrow> rat" where
  "window rl lo hi = rlTokensPerSecond rl * of_int (hi - lo)"

definition slack :: "RedisTokenBucket \<Rightarrow> int \<Rightarrow> int \<Rightarrow> nat \<Rightarrow> rat" where
  "slack rl lo hi n = of_nat n * skew_unit (of_int (rlBucketSize rl)) (window rl lo hi)"

definition skew_level :: "RedisTokenBucket \<Rightarrow> int \<Rightarrow> int \<Rightarrow> nat \<Rightarrow> int \<Rightarrow> int \<Rightarrow> rat \<Rightarrow> bool" where
  "skew_level rl lo hi n G u l \<longleftrightarrow>
     lo \<le> u \<and> u \<le> hi \<and> l \<le> of_int (rlBucketSize rl) \<and>
     - window rl u hi - slack rl lo hi n \<le> l \<and>
     of_int G + l \<le> of_int (rlBucketSize rl) + window rl lo u + slack rl lo hi n"

definition skew_ok :: "'db redis_env \<Rightarrow> RedisTokenBucket \<Rightarrow> int \<Rightarrow> int \<Rightarrow> nat \<Rightarrow> string \<Rightarrow> int \<Rightarrow> 'db \<Rightarrow> bool" where
  "skew_ok re rl lo hi n k G db \<longleftrightarrow>
     of_int G \<le> of_int (rlBucketSize rl) + window rl lo hi + slack rl lo hi n \<and>
     (reGet re (getTimestampKey rl k) db = None \<and> reGet re (getBucketKey rl k) db = None \<and> G = 0 \<or>
      (\<exists>u l. reGet re (getTimestampKey rl k) db = Some (of_int u) \<and>
             reGet re (getBucketKey rl k) db = Some l \<and> skew_level rl lo hi n G u l))"

lemma window_add: "window rl a b + window rl b c = window rl a c"
  by (simp add: window_def algebra_simps)

lemma window_nonneg: "rl_ok rl \<Longrightarrow> a \<le> b \<Longrightarrow> 0 \<le> window rl a b"
  by (simp add: window_def rl_ok_def)

lemma window_mono: "rl_ok rl \<Longrightarrow> b \<le> c \<Longrightarrow> window rl a b \<le> window rl a c"
  using window_add [of rl a b c] window_nonneg [of rl b c] by linarith

lemma slack_Suc: "slack rl lo hi (Suc n) = slack rl lo hi n + skew_unit (of_int (rlBucketSize rl)) (window rl lo hi)"
  by (simp add: slack_def distrib_right)

lemma slack_facts:
  assumes "rl_ok rl" "lo \<le> hi"
  shows "0 \<le> slack rl lo hi n" "slack rl lo hi n \<le> slack rl lo hi (Suc n)"
    "n \<le> 2 ^ 50 \<Longrightarrow> slack rl lo hi n \<le> of_int (rlBucketSize rl) + window rl lo hi"
proof -
  have B: "(0::rat) \<le> of_int (rlBucketSize rl)" "0 \<le> window rl lo hi"
    using assms window_nonneg by (simp_all add: rl_ok_def)
  show "0 \<le> slack rl lo hi n" "slack rl lo hi n \<le> slack rl lo hi (Suc n)"
    using skew_unit_split(2) [OF B] by (simp_all add: slack_Suc) (simp add: slack_def)
  show "n \<le> 2 ^ 50 \<Longrightarrow> slack rl lo hi n \<le> of_int (rlBucketSize rl) + window rl lo hi"
    using skew_total [OF B] by (simp add: slack_def)
qed

text \<open>The refill by a script with any time in the window, from any level in the invariant.\<close>

lemma skew_refill:
  assumes "rl_ok rl" "skew_level rl lo hi n G u l" "lo \<le> u'" "u' \<le> hi" "n \<le> 2 ^ 50"
    and "L = min (of_int (rlBucketSize rl)) (f64_rnd (l + f64_rnd (window rl u u')))"
    and "e = (of_int (rlBucketSize rl) + 5 * window rl lo hi) / 2 ^ 53"
  shows "L \<le> of_int (rlBucketSize rl)" "of_int G + L \<le> of_int (rlBucketSize rl) + window rl lo u' + slack rl lo hi n + e"
    "- window rl u' hi - slack rl lo hi n - e \<le> L"
proof -
  let ?B = "of_int (rlBucketSize rl) :: rat" and ?P = "window rl lo hi" and ?d = "window rl u u'"
  have B: "0 \<le> ?B" using assms(1) by (simp add: rl_ok_def)
  have u: "lo \<le> u" "u \<le> hi" "lo \<le> hi" using assms(2,3,4) by (simp_all add: skew_level_def)
  note sl = slack_facts [OF assms(1) u(3), of n]
  have h: "0 \<le> window rl u' hi" "0 \<le> window rl lo u'" "0 \<le> window rl lo u" "0 \<le> window rl u hi"
    using assms(1,3,4) u window_nonneg by blast+
  have split: "window rl lo u + window rl u hi = ?P" "window rl lo u' + window rl u' hi = ?P"
    "window rl lo u + ?d = window rl lo u'" "?d + window rl u' hi = window rl u hi"
    by (simp_all add: window_add)
  have d: "\<bar>?d\<bar> \<le> ?P" using h split by linarith
  have l: "\<bar>l\<bar> \<le> ?B + 2 * ?P"
    using assms(2) sl(3) [OF assms(5)] h split B unfolding skew_level_def abs_le_iff by linarith
  have s: "f64_rnd (l + f64_rnd ?d) \<le> l + ?d + e" "l + ?d - e \<le> f64_rnd (l + f64_rnd ?d)"
    unfolding assms(7) by (rule skew_sum [OF B d l])+
  have "0 \<le> e" unfolding assms(7) using B h split by simp
  with s show "L \<le> ?B" "of_int G + L \<le> ?B + window rl lo u' + slack rl lo hi n + e"
    "- window rl u' hi - slack rl lo hi n - e \<le> L"
    using assms(2) split h B sl(1) unfolding assms(6) skew_level_def by linarith+
qed

lemma skew_absent:
  assumes "rl_ok rl" "reGet re (getTimestampKey rl k) db = None" "reGet re (getBucketKey rl k) db = None"
  shows "redis_level re rl k u db = of_int (rlBucketSize rl)"
  using assms f64_rnd_of_int [of "rlBucketSize rl"]
  by (simp add: redis_level_def lua_refill_def f64_sub_def f64_mul_def f64_add_def rl_ok_def)

lemma skew_present:
  assumes "rl_ok rl" "reGet re (getTimestampKey rl k) db = Some (of_int u)"
    "reGet re (getBucketKey rl k) db = Some l" "small u" "small u'"
  shows "redis_level re rl k u' db = min (of_int (rlBucketSize rl)) (f64_rnd (l + f64_rnd (window rl u u')))"
proof -
  have "f64_sub (of_int u') (of_int u) = of_int (u' - u)"
    using f64_rnd_of_int [of "u' - u"] assms(4,5) by (simp add: f64_sub_def small_def)
  then show ?thesis
    using assms(1-3) small_exact [OF assms(5)]
    by (simp add: redis_level_def lua_refill_def f64_mul_def f64_add_def window_def mult.commute rl_ok_def)
qed

text \<open>The level that a script of the window finds.\<close>

lemma skew_found:
  assumes "rl_ok rl" "skew_ok re rl lo hi n k G db" "lo \<le> u" "u \<le> hi" "small lo" "small hi" "n \<le> 2 ^ 50"
    and "L = redis_level re rl k u db" "e = (of_int (rlBucketSize rl) + 5 * window rl lo hi) / 2 ^ 53"
  shows "L \<le> of_int (rlBucketSize rl)" "of_int G + L \<le> of_int (rlBucketSize rl) + window rl lo u + slack rl lo hi n + e"
    "- window rl u hi - slack rl lo hi n - e \<le> L"
proof -
  have "small u" using assms(3-6) by (auto simp: small_def)
  have "L \<le> of_int (rlBucketSize rl) \<and> of_int G + L \<le> of_int (rlBucketSize rl) + window rl lo u + slack rl lo hi n + e \<and>
    - window rl u hi - slack rl lo hi n - e \<le> L"
    using assms(2) unfolding skew_ok_def
  proof (elim conjE disjE exE)
    assume "reGet re (getTimestampKey rl k) db = None" "reGet re (getBucketKey rl k) db = None" "G = 0"
    then have "L = of_int (rlBucketSize rl)" "G = 0" using skew_absent [OF assms(1)] assms(8) by simp_all
    moreover have "lo \<le> hi" using assms(3,4) by simp
    moreover have "0 \<le> (of_int (rlBucketSize rl) :: rat)" using assms(1) by (simp add: rl_ok_def)
    moreover from this have "0 \<le> e" using window_nonneg [OF assms(1) \<open>lo \<le> hi\<close>] assms(9) by simp
    ultimately show ?thesis
      using slack_facts(1) [OF assms(1), of lo hi n] window_nonneg [OF assms(1,3)] window_nonneg [OF assms(1,4)]
      by simp
  next
    fix u0 l
    assume l: "reGet re (getTimestampKey rl k) db = Some (of_int u0)" "reGet re (getBucketKey rl k) db = Some l"
      "skew_level rl lo hi n G u0 l"
    then have "small u0" using assms(5,6) by (auto simp: skew_level_def small_def)
    from skew_refill [OF assms(1) l(3) assms(3,4,7) _ assms(9)] skew_present [OF assms(1) l(1,2) this \<open>small u\<close>]
    show ?thesis unfolding assms(8) by blast
  qed
  then show "L \<le> of_int (rlBucketSize rl)" "of_int G + L \<le> of_int (rlBucketSize rl) + window rl lo u + slack rl lo hi n + e"
    "- window rl u hi - slack rl lo hi n - e \<le> L"
    by blast+
qed

lemma skew_ok_idle:
  assumes "rl_ok rl" "lo \<le> hi" "skew_ok re rl lo hi n k G db"
    and "reGet re (getTimestampKey rl k) db' = reGet re (getTimestampKey rl k) db"
    and "reGet re (getBucketKey rl k) db' = reGet re (getBucketKey rl k) db"
  shows "skew_ok re rl lo hi (Suc n) k G db'"
proof -
  note sl = slack_facts(2) [OF assms(1,2), of n]
  have "skew_level rl lo hi (Suc n) G u l" if "skew_level rl lo hi n G u l" for u l
    using that sl unfolding skew_level_def by linarith
  then show ?thesis
    using assms(3-5) sl unfolding skew_ok_def by auto
qed

lemma skew_step:
  assumes "rl_ok rl" "skew_ok re rl lo hi n k G db" "lo \<le> u" "u \<le> hi" "small lo" "small hi" "n \<le> 2 ^ 50"
    and "store_step re rl k u g db db'"
  shows "skew_ok re rl lo hi (Suc n) k (G + g) db'"
  using assms(8) unfolding store_step_def
proof (elim disjE conjE exE)
  assume "db' = db" "g = 0"
  then show ?thesis using skew_ok_idle [OF assms(1) _ assms(2)] assms(3,4) by simp
next
  fix l'
  assume w: "written re rl k u l' db db'" and tk: "takes (redis_level re rl k u db) g l'"
  let ?L = "redis_level re rl k u db" and ?B = "of_int (rlBucketSize rl) :: rat"
  let ?e = "(?B + 5 * window rl lo hi) / 2 ^ 53"
  note L = skew_found [OF assms(1-7) refl refl]
  have B: "0 \<le> ?B" "0 \<le> rlBucketSize rl" "rlBucketSize rl < 2 ^ 53" and lohi: "lo \<le> hi"
    using assms(1,3,4) by (simp_all add: rl_ok_def)
  note t = takes_bounds [OF tk L(1) B(2,3)]
  have W: "0 \<le> window rl lo hi" "0 \<le> window rl lo u" "0 \<le> window rl u hi"
    "window rl lo u \<le> window rl lo hi"
    using window_nonneg window_mono assms(1,3,4) lohi by blast+
  have S: "slack rl lo hi n + ?e + ?B / 2 ^ 53 \<le> slack rl lo hi (Suc n)" "0 \<le> slack rl lo hi n" "0 \<le> ?B / 2 ^ 53"
    "0 \<le> ?e"
    using skew_unit_split(1) [OF B(1) W(1)] slack_facts(1) [OF assms(1) lohi, of n] B(1) W(1)
    by (simp_all add: slack_Suc)
  have level: "skew_level rl lo hi (Suc n) (G + g) u l'"
    using assms(3,4) t(1-3) L W S unfolding skew_level_def of_int_add
    by (intro conjI) (assumption | linarith)+
  moreover have "of_int (G + g) \<le> ?B + window rl lo hi + slack rl lo hi (Suc n)"
  proof (cases "g = 0")
    case True
    have "of_int G \<le> ?B + window rl lo hi + slack rl lo hi n" using assms(2) by (simp add: skew_ok_def)
    with True show ?thesis using slack_facts(2) [OF assms(1) lohi, of n] by simp
  next
    case False
    then show ?thesis using t(4) level W(4) unfolding skew_level_def by linarith
  qed
  ultimately show ?thesis
    using w unfolding skew_ok_def written_def by blast
qed

section \<open>What the steps do to the store\<close>

text \<open>The operations read only the configuration of an instance, never its tables.\<close>

definition config_of :: "RedisTokenBucket \<Rightarrow> rat \<times> int \<times> string \<times> duration" where
  "config_of rl = (rlTokensPerSecond rl, rlBucketSize rl, rlKeyPrefix rl, rlKeyExpiry rl)"

lemma alike:
  assumes "config_of rl' = config_of rl"
  shows "store_step re rl' k u g db db' = store_step re rl k u g db db'" "rl_ok rl' = rl_ok rl"
  using assms
  by (simp_all add: config_of_def store_step_def written_def redis_level_def getBucketKey_def
      getTimestampKey_def rl_ok_def key_expiry_seconds_def)

lemma takes_after_cost: "0 < c \<Longrightarrow> g = (if f64_of_int c \<le> L then c else 0) \<or> g = 0 \<Longrightarrow> takes L g (after_cost L c)"
  by (auto simp: takes_def after_cost_def)

lemma AllowN_store_step:
  assumes "redis_ok re" "rl_ok rl" "small (Unix now)" "Redis_AllowN re lk rl k c now db = (r, db')"
  shows "store_step re rl k (Unix now) (if r = Inr True then c else 0) db db'"
proof (cases "0 < c")
  case True
  show ?thesis
    by (cases rule: Redis_AllowN_effect [OF assms(1-3) True, where lk = lk and k = k and db = db])
      (use assms(4) True in \<open>auto simp: store_step_def intro!: takes_after_cost\<close>)
qed (use assms(4) in \<open>auto simp: Redis_AllowN_def store_step_def\<close>)

lemma GetTokensAvailableN_store_step:
  assumes "redis_ok re" "rl_ok rl" "small (Unix now)"
    and "Redis_GetTokensAvailableN re lk rl k now db = (r, db')"
  shows "store_step re rl k (Unix now) 0 db db'"
proof -
  have "0 < key_expiry_seconds rl" using assms(2) by (simp add: rl_ok_def)
  then have "getAvailableScript re (getBucketKey rl k) (getTimestampKey rl k) (f64_of_int (rlBucketSize rl))
      (rlTokensPerSecond rl) (f64_of_int (Unix now)) (key_expiry_seconds rl) db =
      (Inr (redis_level re rl k (Unix now) db),
       script_writes re rl k (Unix now) (redis_level re rl k (Unix now) db) db)"
    by (simp add: getAvailableScript_def redis_level_def [symmetric] Let_def redis_SET_def script_writes_def)
  moreover note script_writes_written [OF assms(1,3), of rl k "redis_level re rl k (Unix now) db" db]
  ultimately show ?thesis
    using assms(4)
    by (cases lk) (auto simp: Redis_GetTokensAvailableN_def store_step_def takes_def split: if_splits)
qed

text \<open>A reservation is served at once only when the script took the cost.\<close>

lemma wait_text_not_zero:
  assumes "redis_ok re" "0 < rate" "\<not> f64_of_int c \<le> l"
  shows "ParseInt (reToString re (of_int (wait_ms rate c l))) \<noteq> Inr 0"
  using assms(1) wait_ms_pos [OF assms(3,2)] by (simp add: redis_ok_def)

lemma ReserveN_store_step:
  assumes "redis_ok re" "rl_ok rl" "small (Unix now)"
    and "Redis_ReserveN re lk k c now now' newID rl db = (res, rl', db')"
  shows "store_step re rl k (Unix now) (case res of Inr (r, None) \<Rightarrow> c | _ \<Rightarrow> 0) db db'"
proof (cases "0 < c")
  case True
  have "0 < rlTokensPerSecond rl" using assms(2) by (simp add: rl_ok_def)
  then show ?thesis
    using assms(4) True script_writes_written [OF assms(1,3), of rl k "after_cost (redis_level re rl k (Unix now) db) c" db]
      wait_text_not_zero [OF assms(1), of "rlTokensPerSecond rl" c "redis_level re rl k (Unix now) db"]
    by (cases lk)
      (auto simp: Redis_ReserveN_def run_script_def reserveScript_eq [OF assms(2)] store_step_def Let_def
        intro!: takes_after_cost split: sum.splits if_splits)
qed (use assms(4) in \<open>auto simp: Redis_ReserveN_def store_step_def\<close>)

lemma wake_effect:
  assumes "redis_wake re lk g now rl db = Returns (rl', db')"
  shows "db' = snd (Redis_AllowN re lk rl (rkKey g) (rkTokenCost g) now db)"
    "rl' = rl \<or> redis_close g rl = Returns rl'"
  using assms
  by (cases "redis_close g rl"; auto simp: redis_wake_def split: prod.splits sum.splits if_splits)+

text \<open>No operation changes the configuration.\<close>

lemma config_kept:
  "Redis_ReserveN re lk k c now now' newID rl db = (res, rl', db') \<Longrightarrow> config_of rl' = config_of rl"
  "redis_close g rl = Returns rl' \<Longrightarrow> config_of rl' = config_of rl"
  "Redis_CancelAt now r rl = (r', rl') \<Longrightarrow> config_of rl' = config_of rl"
  by (auto simp: Redis_ReserveN_def redis_close_def Redis_CancelAt_def config_of_def Let_def
      split: if_splits prod.splits sum.splits option.splits)

section \<open>The waiter tables\<close>

text \<open>The registered channels are open and allocated, and no channel is registered twice.\<close>

definition redis_waiters_ok :: "RedisTokenBucket \<Rightarrow> bool" where
  "redis_waiters_ok rl \<longleftrightarrow>
     (\<forall>ch \<in> set (rlChanClosed rl). ch < rlChanNext rl) \<and>
     (\<forall>k ch. rlWaiters rl k = Some ch \<longrightarrow> ch < rlChanNext rl \<and> ch \<notin> set (rlChanClosed rl)) \<and>
     (\<forall>k k' ch. rlWaiters rl k = Some ch \<longrightarrow> rlWaiters rl k' = Some ch \<longrightarrow> k = k')"

lemma redis_waiters_ok_register:
  "redis_waiters_ok rl \<Longrightarrow>
   redis_waiters_ok (rl\<lparr>rlWaiters := (rlWaiters rl)(w \<mapsto> rlChanNext rl), rlWaitersByID := i,
     rlChanNext := Suc (rlChanNext rl)\<rparr>)"
  unfolding redis_waiters_ok_def by (auto simp: less_Suc_eq split: if_splits)

lemma redis_waiters_ok_remove:
  "redis_waiters_ok rl \<Longrightarrow> redis_waiters_ok (rl\<lparr>rlWaiters := (rlWaiters rl)(w := None), rlWaitersByID := i\<rparr>)"
  by (auto simp: redis_waiters_ok_def)

lemma redis_waiters_ok_close:
  assumes "redis_waiters_ok rl" "rlWaiters rl w = Some ch"
  shows "redis_waiters_ok (rl\<lparr>rlChanClosed := ch # rlChanClosed rl, rlWaiters := (rlWaiters rl)(w := None),
    rlWaitersByID := i\<rparr>)"
  using assms unfolding redis_waiters_ok_def by (simp split: if_split_asm) metis

lemma redis_close_returns:
  assumes "redis_waiters_ok rl"
  obtains rl' where "redis_close g rl = Returns rl'" "redis_waiters_ok rl'"
proof (cases "rlWaiters rl (rkWaiterKey g)")
  case None
  with assms that show ?thesis by (simp add: redis_close_def)
next
  case (Some ch)
  then have "ch \<notin> set (rlChanClosed rl)" using assms by (simp add: redis_waiters_ok_def)
  with Some that redis_waiters_ok_close [OF assms Some] show ?thesis by (simp add: redis_close_def)
qed

lemma redis_wake_returns:
  assumes "redis_waiters_ok rl"
  shows "\<exists>rl' db'. redis_wake re lk g now rl db = Returns (rl', db')"
proof -
  obtain rl' where "redis_close g rl = Returns rl'" by (rule redis_close_returns [OF assms])
  then show ?thesis by (simp add: redis_wake_def split: prod.split sum.split)
qed

lemma waiters_kept:
  assumes "redis_waiters_ok rl"
  shows "Redis_ReserveN re lk k c now now' newID rl db = (res, rl', db') \<Longrightarrow> redis_waiters_ok rl'"
    "redis_close g rl = Returns rl' \<Longrightarrow> redis_waiters_ok rl'"
    "Redis_CancelAt now r rl = (r', rl') \<Longrightarrow> redis_waiters_ok rl'"
proof -
  show "Redis_ReserveN re lk k c now now' newID rl db = (res, rl', db') \<Longrightarrow> redis_waiters_ok rl'"
    using assms redis_waiters_ok_register [OF assms]
    by (auto simp: Redis_ReserveN_def Let_def split: if_splits prod.splits sum.splits)
  show "redis_close g rl = Returns rl' \<Longrightarrow> redis_waiters_ok rl'"
    using redis_close_returns [OF assms, of g] by (metis outcome.inject)
  show "Redis_CancelAt now r rl = (r', rl') \<Longrightarrow> redis_waiters_ok rl'"
    using assms redis_waiters_ok_remove [OF assms]
    by (auto simp: Redis_CancelAt_def split: if_splits option.splits)
qed

section \<open>Steps and runs\<close>

definition inst_ok :: "RedisTokenBucket \<Rightarrow> 'db rsys \<Rightarrow> bool" where
  "inst_ok rl s \<longleftrightarrow> (\<forall>i. config_of (rsInst s i) = config_of rl \<and> redis_waiters_ok (rsInst s i))"

lemma inst_ok_update:
  "inst_ok rl s \<Longrightarrow> config_of rl' = config_of (rsInst s i) \<Longrightarrow> redis_waiters_ok rl' \<Longrightarrow>
   rsInst s' = (rsInst s)(i := rl') \<Longrightarrow> inst_ok rl s'"
  by (simp add: inst_ok_def)

lemma reads_small: "reads lo hi now \<Longrightarrow> small lo \<Longrightarrow> small hi \<Longrightarrow> small (Unix now)"
  by (auto simp: reads_def small_def)

text \<open>Every step keeps the instances in order and writes the store as its label says.\<close>

lemma r_step_ok:
  assumes "r_step re lo hi s k g s'" "redis_ok re" "rl_ok rl" "small lo" "small hi" "inst_ok rl s"
  shows "inst_ok rl s' \<and>
    (rsDb s' = rsDb s \<and> g = 0 \<or> (\<exists>u. lo \<le> u \<and> u \<le> hi \<and> store_step re rl k u g (rsDb s) (rsDb s')))"
proof -
  have alike: "store_step re (rsInst s i) k u g db db' = store_step re rl k u g db db'" "rl_ok (rsInst s i)"
    "redis_waiters_ok (rsInst s i)" for i u k g db db'
    using assms(3,6) alike [of "rsInst s i" rl] by (simp_all add: inst_ok_def)
  show ?thesis
    using assms(1)
  proof cases
    case (r_allow now lk i c r db)
    note st = AllowN_store_step [OF assms(2) alike(2) reads_small [OF r_allow(3) assms(4,5)] r_allow(4)]
    show ?thesis
      using assms(6) st r_allow(1-3) by (auto simp: inst_ok_def alike(1) reads_def)
  next
    case (r_get now lk i r db)
    note st = GetTokensAvailableN_store_step [OF assms(2) alike(2) reads_small [OF r_get(3) assms(4,5)] r_get(4)]
    show ?thesis
      using assms(6) st r_get(1-3) by (auto simp: inst_ok_def alike(1) reads_def)
  next
    case (r_reserve_now now lk now' newID i r rl' db)
    note st = ReserveN_store_step [OF assms(2) alike(2) reads_small [OF r_reserve_now(2) assms(4,5)] r_reserve_now(3)]
    have "inst_ok rl s'"
      by (rule inst_ok_update [OF assms(6) config_kept(1) [OF r_reserve_now(3)] waiters_kept(1) [OF alike(3) r_reserve_now(3)]])
        (simp add: r_reserve_now(1))
    then show ?thesis using st r_reserve_now(1,2) by (auto simp: alike(1) reads_def)
  next
    case (r_reserve_wait now lk c now' newID i r gt rl' db)
    note st = ReserveN_store_step [OF assms(2) alike(2) reads_small [OF r_reserve_wait(3) assms(4,5)] r_reserve_wait(4)]
    have "inst_ok rl s'"
      by (rule inst_ok_update [OF assms(6) config_kept(1) [OF r_reserve_wait(4)] waiters_kept(1) [OF alike(3) r_reserve_wait(4)]])
        (simp add: r_reserve_wait(2))
    then show ?thesis using st r_reserve_wait(1-3) by (auto simp: alike(1) reads_def)
  next
    case (r_reserve_fails now lk c now' newID i err rl' db)
    note st = ReserveN_store_step [OF assms(2) alike(2) reads_small [OF r_reserve_fails(3) assms(4,5)] r_reserve_fails(4)]
    have "inst_ok rl s'"
      by (rule inst_ok_update [OF assms(6) config_kept(1) [OF r_reserve_fails(4)] waiters_kept(1) [OF alike(3) r_reserve_fails(4)]])
        (simp add: r_reserve_fails(2))
    then show ?thesis using st r_reserve_fails(1-3) by (auto simp: alike(1) reads_def)
  next
    case (r_wake i gt now lk r db' rl' db)
    note st = AllowN_store_step [OF assms(2) alike(2) reads_small [OF r_wake(5) assms(4,5)] r_wake(6)]
    have db: "db = db'" using wake_effect(1) [OF r_wake(7)] r_wake(6) by simp
    have "config_of rl' = config_of (rsInst s i)" "redis_waiters_ok rl'"
      using wake_effect(2) [OF r_wake(7)] config_kept(2) waiters_kept(2) [OF alike(3)] alike(3) by metis+
    then have "inst_ok rl s'"
      by (rule inst_ok_update [OF assms(6)]) (simp add: r_wake(3))
    then show ?thesis using st r_wake(1-3,5) by (auto simp: alike(1) reads_def db)
  next
    case (r_cancel now r i r' rl')
    have "inst_ok rl s'"
      by (rule inst_ok_update [OF assms(6) config_kept(3) [OF r_cancel(4)] waiters_kept(3) [OF alike(3) r_cancel(4)]])
        (simp add: r_cancel(3))
    then show ?thesis using r_cancel by simp
  qed
qed

text \<open>The store at the start: fresh keys, and keys that were last used within the window.\<close>

definition stamps_within :: "'db redis_env \<Rightarrow> RedisTokenBucket \<Rightarrow> int \<Rightarrow> int \<Rightarrow> 'db \<Rightarrow> bool" where
  "stamps_within re rl lo hi db \<longleftrightarrow>
     (\<forall>k. lo \<le> r_clock re rl lo k db \<and> r_clock re rl lo k db \<le> hi)"

lemma initial_skew_ok:
  assumes "rl_ok rl" "db_ok re rl db" "stamps_within re rl lo hi db"
  shows "skew_ok re rl lo hi 0 k 0 db"
proof -
  have u: "lo \<le> r_clock re rl lo k db" "r_clock re rl lo k db \<le> hi" using assms(3) by (simp_all add: stamps_within_def)
  then have W: "0 \<le> window rl lo hi" using assms(1) by (intro window_nonneg) simp_all
  have B: "0 \<le> (of_int (rlBucketSize rl) :: rat)" using assms(1) by (simp add: rl_ok_def)
  have "skew_level rl lo hi 0 0 u l"
    if "reGet re (getTimestampKey rl k) db = Some (of_int u)" "level_ok (rlBucketSize rl) l" for u l
  proof -
    have ul: "lo \<le> u" "u \<le> hi" using u that(1) by (simp_all add: r_clock_def)
    then show ?thesis
      using that(2) B window_nonneg [OF assms(1) ul(1)] window_nonneg [OF assms(1) ul(2)]
      by (simp add: skew_level_def level_ok_def slack_def)
  qed
  then show ?thesis
    using assms(2) B W unfolding skew_ok_def db_ok_def by (auto simp: slack_def dest!: spec [of _ k])
qed

lemma initial_inst_ok: "rlWaiters rl = Map.empty \<Longrightarrow> rlChanClosed rl = [] \<Longrightarrow> inst_ok rl (initial_rsys rl db)"
  by (simp add: inst_ok_def initial_rsys_def redis_waiters_ok_def)

lemma r_step_other_key:
  assumes "store_step re rl k u g db db'" "k' \<noteq> k"
  shows "reGet re (getTimestampKey rl k') db' = reGet re (getTimestampKey rl k') db"
    "reGet re (getBucketKey rl k') db' = reGet re (getBucketKey rl k') db"
  using assms by (auto simp: store_step_def written_def)

lemma r_run_ok:
  assumes "r_run re lo hi s spent n s'" "redis_ok re" "rl_ok rl" "lo \<le> hi" "small lo" "small hi" "inst_ok rl s"
    and "\<forall>k. skew_ok re rl lo hi 0 k 0 (rsDb s)" "n \<le> 2 ^ 50"
  shows "inst_ok rl s' \<and> (\<forall>k. skew_ok re rl lo hi n k (spent k) (rsDb s'))"
  using assms(1,9)
proof induction
  case r_run_start
  then show ?case using assms(7,8) by simp
next
  case (r_run_step spent n s' k c s'')
  then have IH: "inst_ok rl s'" "\<And>k. skew_ok re rl lo hi n k (spent k) (rsDb s')" and n: "n \<le> 2 ^ 50"
    by simp_all
  note st = r_step_ok [OF r_run_step.hyps(2) assms(2,3,5,6) IH(1)]
  have "skew_ok re rl lo hi (Suc n) k' ((spent(k := spent k + c)) k') (rsDb s'')" for k'
    using st
  proof (elim conjE disjE exE)
    assume "rsDb s'' = rsDb s'" "c = 0"
    then show ?thesis using skew_ok_idle [OF assms(3,4) IH(2)] by simp
  next
    fix u
    assume u: "lo \<le> u" "u \<le> hi" "store_step re rl k u c (rsDb s') (rsDb s'')"
    show ?thesis
    proof (cases "k' = k")
      case True
      then show ?thesis using skew_step [OF assms(3) IH(2) u(1,2) assms(5,6) n u(3)] by simp
    next
      case False
      then show ?thesis
        using skew_ok_idle [OF assms(3,4) IH(2) r_step_other_key [OF u(3) False]] by simp
    qed
  qed
  with st show ?case by blast
qed

lemma r_run_bound:
  assumes "redis_ok re" "rl_ok rl" "rlWaiters rl = Map.empty" "rlChanClosed rl = []"
    and "lo \<le> hi" "small lo" "small hi" "db_ok re rl db" "stamps_within re rl lo hi db"
    and "r_run re lo hi (initial_rsys rl db) spent n s" "n \<le> 2 ^ 50"
  shows "of_int (spent k) \<le> of_int (rlBucketSize rl) + rlTokensPerSecond rl * of_int (hi - lo)
    + of_nat n * (5 * (of_int (rlBucketSize rl) + rlTokensPerSecond rl * of_int (hi - lo)) / 2 ^ 53)"
proof -
  have "\<forall>k. skew_ok re rl lo hi 0 k 0 (rsDb (initial_rsys rl db))"
    using initial_skew_ok [OF assms(2,8,9)] by (simp add: initial_rsys_def)
  from r_run_ok [OF assms(10,1,2,5,6,7) initial_inst_ok [OF assms(3,4)] this assms(11)]
  have "skew_ok re rl lo hi n k (spent k) (rsDb s)" by blast
  then show ?thesis by (simp only: skew_ok_def slack_def skew_unit_def window_def)
qed

section \<open>Properties\<close>


text \<open>
  C32: in every state that the instances reach, every registered channel of
  every instance is open, and no goroutine of a reservation panics, whatever the connection
  does: it never closes a channel twice.
\<close>

theorem redis_system_safe:
  assumes "redis_ok re" "rl_ok rl" "rlWaiters rl = Map.empty" "rlChanClosed rl = []" "small lo" "small hi"
    and "r_run re lo hi (initial_rsys rl db) spent n s"
  shows "(\<forall>w ch. rlWaiters (rsInst s i) w = Some ch \<longrightarrow> ch \<notin> set (rlChanClosed (rsInst s i))) \<and>
    redis_wake re lk g now (rsInst s i) (rsDb s) \<noteq> Panics \<and>
    redis_wake re lk g now (rsInst s i) (rsDb s) \<noteq> Blocks"
proof -
  have "inst_ok rl s"
    using assms(7)
  proof induction
    case r_run_start
    show ?case by (rule initial_inst_ok [OF assms(3,4)])
  next
    case (r_run_step spent n s' k c s'')
    then show ?case using r_step_ok [OF r_run_step.hyps(2) assms(1,2,5,6)] by blast
  qed
  then have w: "redis_waiters_ok (rsInst s i)" by (simp add: inst_ok_def)
  then show ?thesis
    using redis_wake_returns [OF w, of re lk g now "rsDb s"] by (auto simp: redis_waiters_ok_def)
qed

text \<open>
  Two instances with clocks two seconds apart: the first takes two of the three tokens at
  second 100, the second asks at its second 99.
\<close>

lemma example_stamps: "stamps_within map_redis example_rl 99 101 example_db"
proof -
  have "r_clock map_redis example_rl 99 k Map.empty = 99" for k
    by (simp add: r_clock_def map_redis_def)
  then have "r_clock map_redis example_rl 99 k example_db = (if k = ''k'' then 100 else 99)" for k
    using written_other [OF example_db_written, of k 99] by simp
  then show ?thesis by (simp add: stamps_within_def)
qed

lemma example_r_run:
  "\<exists>s. r_run map_redis 99 101 (initial_rsys example_rl example_db) (\<lambda>k. if k = ''k'' then 2 else 0) 2 s"
proof -
  obtain db1 where a: "Redis_AllowN map_redis LinkUp example_rl ''k'' 2 (at_unix 100) example_db = (Inr True, db1)"
    using Redis_AllowN_up [OF example_rl_ok, of 2 map_redis "''k''" "at_unix 100" example_db] by (simp add: example_level)
  obtain r2 db2 where b: "Redis_GetTokensAvailableN map_redis LinkUp example_rl ''k'' (at_unix 99) db1 = (r2, db2)"
    by (rule that [OF prod.collapse [symmetric]])
  let ?s0 = "initial_rsys example_rl example_db"
  have s1: "r_step map_redis 99 101 ?s0 ''k'' 2 (?s0\<lparr>rsDb := db1\<rparr>)"
    using r_allow [of 99 101 "at_unix 100" map_redis LinkUp ?s0 0 "''k''" 2 "Inr True" db1] a
    by (simp add: reads_def initial_rsys_def)
  have s2: "r_step map_redis 99 101 (?s0\<lparr>rsDb := db1\<rparr>) ''k'' 0 (?s0\<lparr>rsDb := db1, rsDb := db2\<rparr>)"
    using r_get [of 99 101 "at_unix 99" map_redis LinkUp "?s0\<lparr>rsDb := db1\<rparr>" 1 "''k''" r2 db2] b
    by (simp add: reads_def initial_rsys_def)
  have "((\<lambda>k::string. 0::int)(''k'' := 0 + 2))(''k'' := 2 + 0) = (\<lambda>k. if k = ''k'' then 2 else 0)"
    by (simp add: fun_eq_iff)
  with r_run_step [OF r_run_step [OF r_run_start s1] s2] show ?thesis
    by (auto simp: numeral_2_eq_2)
qed


theorem redis_system_safe_witness:
  "\<exists>s. r_run map_redis 99 101 (initial_rsys example_rl example_db) (\<lambda>k. if k = ''k'' then 2 else 0) 2 s \<and>
    redis_wake map_redis LinkUp
      \<lparr>rkWaitMs = 250, rkTokenCost = 5, rkKey = ''k'', rkWaiterKey = ''k:a'', rkReservationID = ''a''\<rparr>
      (at_unix 100) (rsInst s 1) (rsDb s) \<noteq> Panics"
proof -
  obtain s where run: "r_run map_redis 99 101 (initial_rsys example_rl example_db) (\<lambda>k. if k = ''k'' then 2 else 0) 2 s"
    using example_r_run by blast
  from redis_system_safe [OF map_redis_ok example_rl_ok _ _ _ _ this, of 1 LinkUp _ "at_unix 100"] run
  show ?thesis by (auto simp: small_def example_rl_def)
qed

end
