(* ===== verification/Worker_Cluster.thy ===== *)
theory Worker_Cluster
  imports Worker_System Redis_Limiter_System Redis_Queue
begin

text \<open>
  Several instances of the program on one Redis: each has its worker, its registry and its
  clients' channels; the list of queued items and the buckets are shared.  The goroutines, the
  calls of \<^verbatim>\<open>EnqueueRequest\<close>, the rounds of \<^verbatim>\<open>Dequeue\<close> and the clients of all instances
  interleave, the clocks of the instances disagree and every use of the connection may fail.
\<close>

section \<open>State\<close>

text \<open>What the instances have in common.\<close>

record ('q, 'l, 'b) cluster_env =
  ceLists :: "('q, 'b) list_env"
  ceQueue :: RedisFIFO
  ceRedis :: "'l redis_env"
  ceLimiter :: RedisTokenBucket
  ceEncode :: "QueuedRequest \<Rightarrow> go_error + 'b"
  ceDecode :: "'b \<Rightarrow> go_error + QueuedRequest"
  ceConfig :: WorkerConfig
  ceService :: Service

text \<open>
  The list and the buckets, and of every instance its registry, its channels, its goroutines,
  its calls of \<^verbatim>\<open>EnqueueRequest\<close>, its loop, its semaphore, and whether its context has ended or its
  worker was stopped.  The last five fields record the history: the request behind
  every id that was handed out, the request that a channel was made for, the tokens granted,
  those of the requests passed on to the service, and the number of calls of the limiter.
\<close>

record ('q, 'l, 'b) cluster =
  clList :: 'q
  clStore :: 'l
  clRegs :: "nat \<Rightarrow> ChannelRegistry"
  clChans :: "nat \<Rightarrow> chan_store"
  clTasks :: "(nat \<times> 'b task) list"
  clSubs :: "(nat \<times> submission) list"
  clLoop :: "nat \<Rightarrow> loop_pc"
  clSem :: "nat \<Rightarrow> nat"
  clStop :: "nat \<Rightarrow> bool"
  clIssued :: "string \<rightharpoonup> QueuedRequest"
  clAsked :: "nat \<times> chan \<rightharpoonup> QueuedRequest"
  clGranted :: int
  clDispatched :: int
  clCalls :: nat

definition initial_cluster :: "'q \<Rightarrow> 'l \<Rightarrow> ('q, 'l, 'b) cluster" where
  "initial_cluster list store =
     \<lparr>clList = list, clStore = store, clRegs = (\<lambda>n. NewChannelRegistry), clChans = (\<lambda>n. no_chans),
      clTasks = [], clSubs = [], clLoop = (\<lambda>n. LoopTop), clSem = (\<lambda>n. 0), clStop = (\<lambda>n. False), clIssued = Map.empty, clAsked = Map.empty,
      clGranted = 0, clDispatched = 0, clCalls = 0\<rparr>"

text \<open>One instance with the shared stores, for some behaviour of the connection.\<close>

definition instance_env ::
  "('q, 'l, 'b) cluster_env \<Rightarrow> enqueue_links \<Rightarrow> link \<Rightarrow> ('q, 'l, 'b) worker_env" where
  "instance_env ce lks lk =
     \<lparr>weEnqueue = RQ_Enqueue (ceLists ce) (ceQueue ce) lks,
      weAllow = (\<lambda>c t. Redis_Allow (ceRedis ce) lk (ceLimiter ce) c t),
      weEncode = ceEncode ce, weDecode = ceDecode ce, weConfig = worker_config (ceConfig ce)\<rparr>"

definition inst_world :: "nat \<Rightarrow> ('q, 'l, 'b) cluster \<Rightarrow> ('q, 'l) world" where
  "inst_world n s =
     \<lparr>woQueue = clList s, woLimiter = clStore s, woRegistry = clRegs s n, woChans = clChans s n\<rparr>"

definition put_world :: "nat \<Rightarrow> ('q, 'l) world \<Rightarrow> ('q, 'l, 'b) cluster \<Rightarrow> ('q, 'l, 'b) cluster" where
  "put_world n w s =
     s\<lparr>clList := woQueue w, clStore := woLimiter w, clRegs := (clRegs s)(n := woRegistry w),
       clChans := (clChans s)(n := woChans w)\<rparr>"

section \<open>Steps\<close>

fun record_task :: "'b task \<Rightarrow> 'b task \<Rightarrow> ('q, 'l, 'b) cluster \<Rightarrow> ('q, 'l, 'b) cluster" where
  "record_task (TAllow item q req ch) t' s =
     s\<lparr>clCalls := Suc (clCalls s),
       clGranted := (if t' = TProcess q req ch then clGranted s + qrTokenCost q else clGranted s)\<rparr>"
| "record_task (TProcess q req ch) t' s = s\<lparr>clDispatched := clDispatched s + qrTokenCost q\<rparr>"
| "record_task t t' s = s"

text \<open>
  An id is new in the whole cluster.  The loop is that of \<^verbatim>\<open>Worker_System\<close>, except that one step of
  \<^verbatim>\<open>Dequeue\<close> is one of its rounds, which returns an item, or an error, or goes on.
\<close>

inductive cl_step ::
  "('q, 'l, 'b) cluster_env \<Rightarrow> int \<Rightarrow> int \<Rightarrow> ('q, 'l, 'b) cluster \<Rightarrow> ('q, 'l, 'b) cluster \<Rightarrow> bool"
  for ce lo hi where
  cl_register:
    "clIssued s i = None \<Longrightarrow> plain_id i \<Longrightarrow> make_chan 1 (clChans s n) = (c, cs) \<Longrightarrow> q = new_request i req cost t \<Longrightarrow>
     cl_step ce lo hi s
       (s\<lparr>clRegs := (clRegs s)(n := Register i c (clRegs s n)), clChans := (clChans s)(n := cs),
          clSubs := (n, SubRegistered q req) # clSubs s,
          clIssued := (clIssued s)(i \<mapsto> q), clAsked := (clAsked s)((n, c) \<mapsto> q)\<rparr>)"
| cl_submit:
    "clSubs s = pre @ (n, SubRegistered q req) # post \<Longrightarrow>
     submit (instance_env ce lks lk) q req t1 t2 (clList s) = (e, list) \<Longrightarrow>
     cl_step ce lo hi s
       (s\<lparr>clList := list,
          clSubs := pre @ (if e = None then [] else [(n, SubFailed (qrRequestID q))]) @ post\<rparr>)"
| cl_cleanup:
    "clSubs s = pre @ (n, SubFailed i) # post \<Longrightarrow>
     cl_step ce lo hi s (s\<lparr>clRegs := (clRegs s)(n := Remove i (clRegs s n)), clSubs := pre @ post\<rparr>)"
| cl_receive:
    "chan_receive c (clChans s n) = Some (resp, cs) \<Longrightarrow>
     cl_step ce lo hi s (s\<lparr>clChans := (clChans s)(n := cs)\<rparr>)"
| cl_stop: "cl_step ce lo hi s (s\<lparr>clStop := (clStop s)(n := True)\<rparr>)"
| cl_loop_stop:
    "clLoop s n = LoopTop \<Longrightarrow> clStop s n \<Longrightarrow> cl_step ce lo hi s (s\<lparr>clLoop := (clLoop s)(n := LoopWaiting)\<rparr>)"
| cl_acquire:
    "clLoop s n = LoopTop \<Longrightarrow> \<not> clStop s n \<Longrightarrow>
     int (clSem s n) < wcMaxConcurrent (worker_config (ceConfig ce)) \<Longrightarrow>
     cl_step ce lo hi s
       (s\<lparr>clSem := (clSem s)(n := Suc (clSem s n)), clLoop := (clLoop s)(n := LoopHasSlot)\<rparr>)"
| cl_take:
    "clLoop s n = LoopHasSlot \<Longrightarrow>
     RQ_Dequeue (ceLists ce) (ceQueue ce) deadline [r] (clList s) = (DqReturns (Inr item), list) \<Longrightarrow>
     cl_step ce lo hi s
       (s\<lparr>clList := list, clTasks := (n, TDecode item) # clTasks s, clLoop := (clLoop s)(n := LoopTop)\<rparr>)"
| cl_no_item:
    "clLoop s n = LoopHasSlot \<Longrightarrow>
     RQ_Dequeue (ceLists ce) (ceQueue ce) deadline [r] (clList s) = (DqReturns (Inl err), list) \<Longrightarrow>
     cl_step ce lo hi s
       (s\<lparr>clList := list, clSem := (clSem s)(n := clSem s n - 1), clLoop := (clLoop s)(n := LoopTop)\<rparr>)"
| cl_round:
    "clLoop s n = LoopHasSlot \<Longrightarrow>
     RQ_Dequeue (ceLists ce) (ceQueue ce) deadline [r] (clList s) = (DqRuns, list) \<Longrightarrow>
     cl_step ce lo hi s (s\<lparr>clList := list\<rparr>)"
| cl_finish:
    "clLoop s n = LoopWaiting \<Longrightarrow> (\<forall>t. (n, t) \<notin> set (clTasks s)) \<Longrightarrow>
     cl_step ce lo hi s (s\<lparr>clLoop := (clLoop s)(n := LoopDone)\<rparr>)"
| cl_task:
    "clTasks s = pre @ (n, t) # post \<Longrightarrow> t \<notin> {TRelease, TDone} \<Longrightarrow> reads lo hi (ttAllow tt) \<Longrightarrow>
     task_step (instance_env ce lks lk) tt (reply_for env (ceService ce) t) t (inst_world n s) = Returns (t', w) \<Longrightarrow>
     cl_step ce lo hi s (record_task t t' (put_world n w (s\<lparr>clTasks := pre @ (n, t') # post\<rparr>)))"
| cl_release:
    "clTasks s = pre @ (n, TRelease) # post \<Longrightarrow>
     cl_step ce lo hi s (s\<lparr>clSem := (clSem s)(n := clSem s n - 1), clTasks := pre @ (n, TDone) # post\<rparr>)"
| cl_done:
    "clTasks s = pre @ (n, TDone) # post \<Longrightarrow> cl_step ce lo hi s (s\<lparr>clTasks := pre @ post\<rparr>)"

inductive cl_reach ::
  "('q, 'l, 'b) cluster_env \<Rightarrow> int \<Rightarrow> int \<Rightarrow> ('q, 'l, 'b) cluster \<Rightarrow> ('q, 'l, 'b) cluster \<Rightarrow> bool"
  for ce lo hi s0 where
  cl_start: "cl_reach ce lo hi s0 s0"
| cl_next: "cl_reach ce lo hi s0 s \<Longrightarrow> cl_step ce lo hi s s' \<Longrightarrow> cl_reach ce lo hi s0 s'"

lemma record_task_simps [simp]:
  "clList (record_task t t' s) = clList s" "clStore (record_task t t' s) = clStore s"
  "clRegs (record_task t t' s) = clRegs s" "clChans (record_task t t' s) = clChans s"
  "clTasks (record_task t t' s) = clTasks s" "clSubs (record_task t t' s) = clSubs s"
  "clIssued (record_task t t' s) = clIssued s" "clAsked (record_task t t' s) = clAsked s"
  by (cases t; simp)+

lemma put_world_simps [simp]:
  "clList (put_world n w s) = woQueue w" "clStore (put_world n w s) = woLimiter w"
  "clRegs (put_world n w s) = (clRegs s)(n := woRegistry w)"
  "clChans (put_world n w s) = (clChans s)(n := woChans w)"
  "clTasks (put_world n w s) = clTasks s" "clSubs (put_world n w s) = clSubs s"
  "clIssued (put_world n w s) = clIssued s" "clAsked (put_world n w s) = clAsked s"
  "clGranted (put_world n w s) = clGranted s" "clDispatched (put_world n w s) = clDispatched s"
  "clCalls (put_world n w s) = clCalls s"
  by (simp_all add: put_world_def)

lemma inst_world_simps [simp]:
  "woQueue (inst_world n s) = clList s" "woLimiter (inst_world n s) = clStore s"
  "woRegistry (inst_world n s) = clRegs s n" "woChans (inst_world n s) = clChans s n"
  by (simp_all add: inst_world_def)

section \<open>The cluster uses the limiter as one of its instances\<close>

text \<open>
  The tokens granted are those of the requests passed on and of those about to be; the store
  of the buckets is one that the calls of the limiter have reached.
\<close>

definition limiter_run :: "('q, 'l, 'b) cluster_env \<Rightarrow> int \<Rightarrow> int \<Rightarrow> 'l \<Rightarrow> int \<Rightarrow> nat \<Rightarrow> 'l \<Rightarrow> bool" where
  "limiter_run ce lo hi store g n store' \<longleftrightarrow>
     (\<exists>spent rs. r_run (ceRedis ce) lo hi (initial_rsys (ceLimiter ce) store) spent n rs \<and>
        rsDb rs = store' \<and> rsInst rs = (\<lambda>i. ceLimiter ce) \<and> spent ''default'' = g)"

lemma limiter_run_start: "limiter_run ce lo hi store 0 0 store"
  unfolding limiter_run_def by (auto simp: initial_rsys_def intro!: exI r_run_start)

lemma limiter_run_step:
  assumes "limiter_run ce lo hi store g n store'" "reads lo hi now"
    and "Redis_AllowN (ceRedis ce) lk (ceLimiter ce) ''default'' c now store' = (r, store'')"
  shows "limiter_run ce lo hi store (g + (if r = Inr True then c else 0)) (Suc n) store''"
proof -
  obtain spent rs where run: "r_run (ceRedis ce) lo hi (initial_rsys (ceLimiter ce) store) spent n rs"
    "rsDb rs = store'" "rsInst rs = (\<lambda>i. ceLimiter ce)" "spent ''default'' = g"
    using assms(1) by (auto simp: limiter_run_def)
  have "r_step (ceRedis ce) lo hi rs ''default'' (if r = Inr True then c else 0) (rs\<lparr>rsDb := store''\<rparr>)"
    by (rule r_allow [OF assms(2), where lk = lk and i = 0]) (simp add: run(2,3) assms(3))
  note run' = r_run_step [OF run(1) this]
  show ?thesis
    unfolding limiter_run_def
    by (rule exI [of _ "spent(''default'' := spent ''default'' + (if r = Inr True then c else 0))"],
        rule exI [of _ "rs\<lparr>rsDb := store''\<rparr>"])
      (use run' in \<open>simp add: run(3,4)\<close>)
qed

definition cluster_acct ::
  "('q, 'l, 'b) cluster_env \<Rightarrow> int \<Rightarrow> int \<Rightarrow> 'l \<Rightarrow> ('q, 'l, 'b) cluster \<Rightarrow> bool" where
  "cluster_acct ce lo hi store s \<longleftrightarrow>
     (\<forall>(n, t) \<in> set (clTasks s). 0 \<le> task_cost t) \<and>
     clDispatched s + sum_list (map (task_cost \<circ> snd) (clTasks s)) = clGranted s \<and>
     limiter_run ce lo hi store (clGranted s) (clCalls s) (clStore s)"

lemma reply_or_release_cost [simp]: "task_cost (reply_or_release ch i resp) = 0"
  "reply_or_release ch i resp \<noteq> TProcess q req ch'"
  by (simp_all add: reply_or_release_def split: option.split)

lemma allow_step:
  assumes "task_step (instance_env ce lks lk) tt reply (TAllow item q req ch) (inst_world n s) = Returns (t', w)"
  obtains r where
    "Redis_AllowN (ceRedis ce) lk (ceLimiter ce) ''default'' (qrTokenCost q) (ttAllow tt) (clStore s) = (r, woLimiter w)"
    "t' = TProcess q req ch \<longleftrightarrow> r = Inr True" "task_cost t' = (if r = Inr True then qrTokenCost q else 0)"
    "r = Inr True \<Longrightarrow> 0 < qrTokenCost q" "woQueue w = clList s"
    "woRegistry w = clRegs s n" "woChans w = clChans s n"
proof -
  obtain r l where a: "Redis_AllowN (ceRedis ce) lk (ceLimiter ce) ''default'' (qrTokenCost q) (ttAllow tt) (clStore s) = (r, l)"
    by (metis prod.collapse)
  have cost: "r = Inr True \<Longrightarrow> 0 < qrTokenCost q"
    using a by (auto simp: Redis_AllowN_def split: if_splits)
  show ?thesis
    using assms a cost that [of r] by (auto simp: instance_env_def Redis_Allow_def split: sum.splits if_splits)
qed

text \<open>The other steps of a goroutine leave the buckets alone.\<close>

lemma other_step:
  assumes "task_step we tt reply t w = Returns (t', w')" "\<forall>item q req ch. t \<noteq> TAllow item q req ch"
  shows "woLimiter w' = woLimiter w" "task_cost t' = 0"
  using assms
  by (cases t; auto simp: bind_outcome_Returns split: sum.splits option.splits prod.splits)+

lemma cluster_acct_step:
  assumes "cl_step ce lo hi s s'" "cluster_acct ce lo hi store s"
  shows "cluster_acct ce lo hi store s'"
  using assms(1)
proof cases
  case (cl_task pre n t post tt lks lk env t' w)
  show ?thesis
  proof (cases "\<exists>item q req ch. t = TAllow item q req ch")
    case True
    then obtain item q req ch where t: "t = TAllow item q req ch" by blast
    obtain r where r: "Redis_AllowN (ceRedis ce) lk (ceLimiter ce) ''default'' (qrTokenCost q) (ttAllow tt) (clStore s)
        = (r, woLimiter w)" "t' = TProcess q req ch \<longleftrightarrow> r = Inr True"
      "task_cost t' = (if r = Inr True then qrTokenCost q else 0)" "r = Inr True \<Longrightarrow> 0 < qrTokenCost q"
      using allow_step [OF cl_task(5) [unfolded t]] by metis
    have "limiter_run ce lo hi store (clGranted s + (if r = Inr True then qrTokenCost q else 0)) (Suc (clCalls s)) (woLimiter w)"
      using assms(2) by (intro limiter_run_step [OF _ cl_task(4) r(1)]) (simp add: cluster_acct_def)
    then show ?thesis
      using assms(2) r(2-4) by (auto simp: cluster_acct_def cl_task(1,2) t)
  next
    case False
    then show ?thesis
      using assms(2) other_step [OF cl_task(5)] unfolding cluster_acct_def cl_task(1)
      by (cases t) (auto simp: cl_task(2))
  qed
qed (use assms(2) in \<open>auto simp: cluster_acct_def\<close>)

lemma cl_reach_acct:
  assumes "cl_reach ce lo hi (initial_cluster list store) s"
  shows "cluster_acct ce lo hi store s"
  using assms
proof induction
  case cl_start
  show ?case by (simp add: cluster_acct_def initial_cluster_def limiter_run_start)
next
  case (cl_next s s')
  then show ?case by (blast intro: cluster_acct_step)
qed

section \<open>Requests and answers\<close>

text \<open>An answer to a queued request: what the service gives for it in some environment, or an error.\<close>

definition answers :: "Service \<Rightarrow> QueuedRequest \<Rightarrow> Response \<Rightarrow> bool" where
  "answers svc q resp \<longleftrightarrow>
     (\<exists>req. qrRequest q = Some req \<and>
        ((\<exists>err. resp = error_response req err) \<or>
         (\<exists>env req'. service_reply env svc req = (Inr (Some resp), req')) \<or>
         (\<exists>env err req'. service_reply env svc req = (Inl err, req') \<and> resp = error_response req' err)))"

text \<open>
  What the cluster keeps.  An item carries the encoding of the request that was issued with its
  id; a goroutine works on what that encoding decodes to, and a channel that it holds was made
  for that very request; so is every registered channel, and every response in a channel
  answers the request that the channel was made for, as it went through the queue.
\<close>

definition issued_data :: "('q, 'l, 'b) cluster_env \<Rightarrow> (string \<rightharpoonup> QueuedRequest) \<Rightarrow> 'b \<Rightarrow> bool" where
  "issued_data ce iss d \<longleftrightarrow> (\<exists>q. iss (qrRequestID q) = Some q \<and> ceEncode ce q = Inr d)"

definition sent_as :: "('q, 'l, 'b) cluster_env \<Rightarrow> QueuedRequest \<Rightarrow> QueuedRequest \<Rightarrow> bool" where
  "sent_as ce q q' \<longleftrightarrow> (\<exists>d. ceEncode ce q = Inr d \<and> ceDecode ce d = Inr q')"

definition answered :: "('q, 'l, 'b) cluster_env \<Rightarrow> QueuedRequest \<Rightarrow> Response \<Rightarrow> bool" where
  "answered ce q resp \<longleftrightarrow> (\<exists>q'. sent_as ce q q' \<and> answers (ceService ce) q' resp)"

definition own_channel ::
  "('q, 'l, 'b) cluster_env \<Rightarrow> (nat \<times> chan \<rightharpoonup> QueuedRequest) \<Rightarrow> nat \<Rightarrow> chan option \<Rightarrow> QueuedRequest \<Rightarrow> bool" where
  "own_channel ce asked n ch q' \<longleftrightarrow> (\<forall>c. ch = Some c \<longrightarrow> (\<exists>q. asked (n, c) = Some q \<and> sent_as ce q q'))"

definition works_on ::
  "('q, 'l, 'b) cluster_env \<Rightarrow> (string \<rightharpoonup> QueuedRequest) \<Rightarrow> 'b QueueItem \<Rightarrow> QueuedRequest \<Rightarrow> Request \<Rightarrow> bool" where
  "works_on ce iss item q req \<longleftrightarrow>
     issued_data ce iss (qData item) \<and> ceDecode ce (qData item) = Inr q \<and> qrRequest q = Some req"

fun task_fine ::
  "('q, 'l, 'b) cluster_env \<Rightarrow> (string \<rightharpoonup> QueuedRequest) \<Rightarrow> (nat \<times> chan \<rightharpoonup> QueuedRequest) \<Rightarrow> nat \<Rightarrow> 'b task \<Rightarrow> bool" where
  "task_fine ce iss asked n (TDecode item) \<longleftrightarrow> issued_data ce iss (qData item)"
| "task_fine ce iss asked n (TGet item q req) \<longleftrightarrow> works_on ce iss item q req"
| "task_fine ce iss asked n (TAllow item q req ch) \<longleftrightarrow> works_on ce iss item q req \<and> own_channel ce asked n ch q"
| "task_fine ce iss asked n (TReenqueue item q req ch) \<longleftrightarrow>
     works_on ce iss item q req \<and> own_channel ce asked n ch q"
| "task_fine ce iss asked n (TProcess q req ch) \<longleftrightarrow> qrRequest q = Some req \<and> own_channel ce asked n ch q"
| "task_fine ce iss asked n (TSend c i resp) \<longleftrightarrow> (\<exists>q. asked (n, c) = Some q \<and> answered ce q resp)"
| "task_fine ce iss asked n t \<longleftrightarrow> True"

definition sub_fine :: "(string \<rightharpoonup> QueuedRequest) \<Rightarrow> submission \<Rightarrow> bool" where
  "sub_fine iss sub \<longleftrightarrow>
     (case sub of SubRegistered q req \<Rightarrow> iss (qrRequestID q) = Some q | SubFailed i \<Rightarrow> True)"

definition list_fine ::
  "('q, 'l, 'b) cluster_env \<Rightarrow> (string \<Rightarrow> 'q \<Rightarrow> string list) \<Rightarrow> (string \<rightharpoonup> QueuedRequest) \<Rightarrow> 'q \<Rightarrow> bool" where
  "list_fine ce lst iss list \<longleftrightarrow>
     (\<forall>x \<in> set (decoded (ceLists ce) (lst (rqQueueKey (ceQueue ce)) list)). issued_data ce iss (qData x))"

definition regs_fine :: "(string \<rightharpoonup> QueuedRequest) \<Rightarrow> (nat \<times> chan \<rightharpoonup> QueuedRequest) \<Rightarrow> nat \<Rightarrow> ChannelRegistry \<Rightarrow> bool" where
  "regs_fine iss asked n reg \<longleftrightarrow>
     (\<forall>i c. Get i reg = Some c \<longrightarrow> (\<exists>q. asked (n, c) = Some q \<and> iss i = Some q \<and> qrRequestID q = i))"

definition chans_fine ::
  "('q, 'l, 'b) cluster_env \<Rightarrow> (nat \<times> chan \<rightharpoonup> QueuedRequest) \<Rightarrow> nat \<Rightarrow> chan_store \<Rightarrow> bool" where
  "chans_fine ce asked n cs \<longleftrightarrow>
     (\<forall>c q. asked (n, c) = Some q \<longrightarrow> c < chNext cs \<and> chCap cs c = 1 \<and> length (chBuf cs c) \<le> 1) \<and>
     (\<forall>c. \<forall>resp \<in> set (chBuf cs c). \<exists>q. asked (n, c) = Some q \<and> answered ce q resp)"

definition cluster_fine ::
  "('q, 'l, 'b) cluster_env \<Rightarrow> (string \<Rightarrow> 'q \<Rightarrow> string list) \<Rightarrow> ('q, 'l, 'b) cluster \<Rightarrow> bool" where
  "cluster_fine ce lst s \<longleftrightarrow>
     list_fine ce lst (clIssued s) (clList s) \<and>
     (\<forall>i q. clIssued s i = Some q \<longrightarrow> qrRequest q \<noteq> None \<and> plain_id i \<and> qrRequestID q = i) \<and>
     (\<forall>n. regs_fine (clIssued s) (clAsked s) n (clRegs s n) \<and> chans_fine ce (clAsked s) n (clChans s n)) \<and>
     (\<forall>(n, t) \<in> set (clTasks s). task_fine ce (clIssued s) (clAsked s) n t) \<and>
     (\<forall>(n, sub) \<in> set (clSubs s). sub_fine (clIssued s) sub)"

text \<open>All of it survives a new id and a new channel.\<close>

lemma map_leD: "m \<subseteq>\<^sub>m m' \<Longrightarrow> m k = Some v \<Longrightarrow> m' k = Some v"
  by (metis domI map_le_def)

lemma issued_data_mono: "issued_data ce iss d \<Longrightarrow> iss \<subseteq>\<^sub>m iss' \<Longrightarrow> issued_data ce iss' d"
  unfolding issued_data_def by (metis map_leD)

lemma works_on_mono: "works_on ce iss item q req \<Longrightarrow> iss \<subseteq>\<^sub>m iss' \<Longrightarrow> works_on ce iss' item q req"
  by (auto simp: works_on_def intro: issued_data_mono)

lemma own_channel_mono: "own_channel ce asked n ch q \<Longrightarrow> asked \<subseteq>\<^sub>m asked' \<Longrightarrow> own_channel ce asked' n ch q"
  unfolding own_channel_def by (metis map_leD)

lemma task_fine_mono:
  assumes "task_fine ce iss asked n t" "iss \<subseteq>\<^sub>m iss'" "asked \<subseteq>\<^sub>m asked'"
  shows "task_fine ce iss' asked' n t"
proof -
  note m = issued_data_mono [OF _ assms(2)] works_on_mono [OF _ assms(2)] own_channel_mono [OF _ assms(3)]
    map_leD [OF assms(3)]
  show ?thesis
    using assms(1) by (cases t; simp) (blast intro: m)+
qed

lemma list_fine_mono: "list_fine ce lst iss list \<Longrightarrow> iss \<subseteq>\<^sub>m iss' \<Longrightarrow> list_fine ce lst iss' list"
  unfolding list_fine_def by (blast intro: issued_data_mono)

lemma regs_fine_mono:
  assumes "regs_fine iss asked n reg" "iss \<subseteq>\<^sub>m iss'" "asked \<subseteq>\<^sub>m asked'"
  shows "regs_fine iss' asked' n reg"
  using assms(1) map_leD [OF assms(2)] map_leD [OF assms(3)] unfolding regs_fine_def by meson

lemma sub_fine_failed [simp]: "sub_fine iss (SubFailed i)"
  by (simp add: sub_fine_def)

lemma regs_fine_register:
  "regs_fine iss asked n reg \<Longrightarrow> asked (n, c) = Some q \<Longrightarrow> iss i = Some q \<Longrightarrow> qrRequestID q = i \<Longrightarrow>
   regs_fine iss asked n (Register i c reg)"
  by (simp add: regs_fine_def registry.get_register)

lemma sub_fine_mono: "sub_fine iss sub \<Longrightarrow> iss \<subseteq>\<^sub>m iss' \<Longrightarrow> sub_fine iss' sub"
  by (auto simp: sub_fine_def map_leD split: submission.splits)

text \<open>The list: what \<^verbatim>\<open>Enqueue\<close> appends and what a round of \<^verbatim>\<open>Dequeue\<close> takes or puts back.\<close>

lemma list_fine_Enqueue:
  assumes "list_ok (ceLists ce) lst" "json_ok (ceLists ce)" "list_fine ce lst iss list"
    and "RQ_Enqueue (ceLists ce) (ceQueue ce) lks now (Some item) list = (e, list')"
    and "issued_data ce iss (qData item)"
  shows "list_fine ce lst iss list'"
proof -
  have "decoded (ceLists ce) [d] = [item_core item]" if "lnMarshal (ceLists ce) (stamp now item) = Inr d" for d
    using json_decodes [OF assms(2) that] by simp
  then show ?thesis
    using assms(3,5)
    by (cases rule: RQ_Enqueue_cases [OF assms(1,4)]) (auto simp: list_fine_def)
qed

lemma list_fine_Dequeue:
  assumes "list_ok (ceLists ce) lst" "json_ok (ceLists ce)" "list_fine ce lst iss list"
    and "RQ_Dequeue (ceLists ce) (ceQueue ce) deadline rs list = (res, list')"
  shows "list_fine ce lst iss list'" "res = DqReturns (Inr item) \<Longrightarrow> issued_data ce iss (qData item)"
proof -
  let ?K = "rqQueueKey (ceQueue ce)" and ?en = "ceLists ce"
  have t: "takes_from rs (mset (decoded ?en (lst ?K list))) (mset (decoded ?en (lst ?K list'))) res"
    by (rule RQ_Dequeue_takes [OF assms(1,2,4)])
  have sub: "mset (decoded ?en (lst ?K list')) \<subseteq># mset (decoded ?en (lst ?K list))"
    using t by (auto simp: takes_from_def split: dequeue_result.splits sum.splits dest: mset_subset_eq_insertD
        intro: subset_mset.less_imp_le)
  then show "list_fine ce lst iss list'"
    using assms(3) set_mset_mono [OF sub] by (auto simp: list_fine_def)
  assume "res = DqReturns (Inr item)"
  with t have "item_core item \<in># mset (decoded ?en (lst ?K list))"
    by (auto simp: takes_from_def dest: mset_subset_eq_insertD)
  then show "issued_data ce iss (qData item)"
    using assms(3) by (fastforce simp: list_fine_def)
qed

lemma answers_error: "qrRequest q = Some req \<Longrightarrow> answers svc q (error_response req err)"
  by (auto simp: answers_def)

lemma fine_reply:
  "own_channel ce asked n ch q \<Longrightarrow> answers (ceService ce) q resp \<Longrightarrow>
   task_fine ce iss asked n (reply_or_release ch (qrRequestID q) resp)"
  by (auto simp: reply_or_release_def own_channel_def answered_def split: option.split) blast

lemma fine_error:
  "own_channel ce asked n ch q \<Longrightarrow> qrRequest q = Some req \<Longrightarrow>
   task_fine ce iss asked n (reply_or_release ch (qrRequestID q) (error_response req err))"
  by (rule fine_reply [OF _ answers_error])

definition issued_ok :: "(string \<rightharpoonup> QueuedRequest) \<Rightarrow> bool" where
  "issued_ok iss \<longleftrightarrow> (\<forall>i q. iss i = Some q \<longrightarrow> qrRequest q \<noteq> None \<and> plain_id i \<and> qrRequestID q = i)"

text \<open>What an issued encoding decodes to has the id and a request.\<close>

lemma codec_okD:
  "codec_ok enc dec \<Longrightarrow> plain_id (qrRequestID q) \<Longrightarrow> enc q = Inr d \<Longrightarrow>
   \<exists>q'. dec d = Inr q' \<and> qrRequestID q' = qrRequestID q \<and> qrTokenCost q' = qrTokenCost q \<and>
     (qrRequest q' = None \<longleftrightarrow> qrRequest q = None)"
  by (simp add: codec_ok_def)

lemma issued_decodes:
  assumes "codec_ok (ceEncode ce) (ceDecode ce)" "issued_ok iss" "issued_data ce iss d"
  obtains q q' where "iss (qrRequestID q) = Some q" "ceEncode ce q = Inr d" "ceDecode ce d = Inr q'"
    "qrRequestID q' = qrRequestID q" "qrRequest q' \<noteq> None"
proof -
  obtain q where q: "iss (qrRequestID q) = Some q" "ceEncode ce q = Inr d"
    using assms(3) unfolding issued_data_def by (elim exE conjE) (rule that)
  then have p: "plain_id (qrRequestID q)" "qrRequest q \<noteq> None" using assms(2) unfolding issued_ok_def by blast+
  obtain q' where "ceDecode ce d = Inr q'" "qrRequestID q' = qrRequestID q" "qrRequest q' = None \<longleftrightarrow> qrRequest q = None"
    using codec_okD [OF assms(1) p(1) q(2)] by (elim exE conjE) (rule that)
  with q p(2) show ?thesis by (intro that [of q q']) simp_all
qed

lemma own_registered:
  assumes "codec_ok (ceEncode ce) (ceDecode ce)" "issued_ok iss" "regs_fine iss asked n reg" "works_on ce iss item q req"
  shows "own_channel ce asked n (Get (qrRequestID q) reg) q"
proof -
  have d: "issued_data ce iss (qData item)" "ceDecode ce (qData item) = Inr q"
    using assms(4) by (simp_all add: works_on_def)
  obtain p q' where p: "iss (qrRequestID p) = Some p" "ceEncode ce p = Inr (qData item)"
    "ceDecode ce (qData item) = Inr q'" "qrRequestID q' = qrRequestID p"
    by (rule issued_decodes [OF assms(1,2) d(1)])
  then have "sent_as ce p q" "qrRequestID q = qrRequestID p" using d(2) by (auto simp: sent_as_def)
  moreover have "asked (n, c) = Some p" if "Get (qrRequestID p) reg = Some c" for c
    using assms(3) p(1) that unfolding regs_fine_def by force
  ultimately show ?thesis by (auto simp: own_channel_def)
qed

lemma chans_fine_send:
  assumes "chans_fine ce asked n cs" "chan_send c resp cs = Returns cs'" "asked (n, c) = Some q" "answered ce q resp"
  shows "chans_fine ce asked n cs'"
  using assms by (fastforce simp: chans_fine_def chan_send_def split: if_splits)

lemma chans_fine_receive:
  assumes "chans_fine ce asked n cs" "chan_receive c cs = Some (resp, cs')"
  shows "chans_fine ce asked n cs'"
proof -
  obtain rest where r: "chBuf cs c = resp # rest" "cs' = cs\<lparr>chBuf := (chBuf cs)(c := rest)\<rparr>"
    using assms(2) by (auto simp: chan_receive_def split: list.splits)
  have sub: "set (chBuf cs' c') \<subseteq> set (chBuf cs c')" for c' using r by auto
  have nxt: "chNext cs' = chNext cs" "chCap cs' = chCap cs" "length (chBuf cs' c') \<le> length (chBuf cs c')" for c'
    using r by auto
  show ?thesis
    unfolding chans_fine_def nxt(1,2)
    using assms(1) subsetD [OF sub] le_trans [OF nxt(3)] unfolding chans_fine_def by blast
qed

lemma task_fine_process:
  assumes "task_step we tt (service_reply env svc req) (TProcess q req ch) w = Returns (t', w')"
    and "qrRequest q = Some req" "own_channel ce asked n ch q" "svc = ceService ce"
  shows "task_fine ce iss asked n t' \<and> w' = w"
proof -
  obtain r req' where reply: "service_reply env svc req = (r, req')" by fastforce
  show ?thesis
  proof (cases r)
    case (Inl err)
    then have "answers svc q (error_response req' err)"
      using reply assms(2) unfolding answers_def by blast
    then show ?thesis using assms(1,3,4) reply Inl fine_reply by auto
  next
    case (Inr response)
    show ?thesis
    proof (cases ch)
      case None
      then show ?thesis using assms(1) reply Inr by auto
    next
      case (Some c)
      then obtain resp where resp: "response = Some resp" "t' = TSend c (qrRequestID q) resp" "w' = w"
        using assms(1) reply Inr by (auto split: option.splits)
      then have "answers svc q resp"
        using reply assms(2) Inr unfolding answers_def by blast
      then show ?thesis using assms(3,4) resp Some by (auto simp: own_channel_def answered_def)
    qed
  qed
qed

lemma task_fine_step:
  fixes ce :: "('q, 'l, 'b) cluster_env"
  assumes env: "list_ok (ceLists ce) lst" "json_ok (ceLists ce)" "codec_ok (ceEncode ce) (ceDecode ce)" "issued_ok iss"
    and fine: "list_fine ce lst iss (woQueue w)" "regs_fine iss asked n (woRegistry w)"
      "chans_fine ce asked n (woChans w)" "task_fine ce iss asked n t"
    and step: "task_step (instance_env ce lks lk) tt (reply_for env (ceService ce) t) t w = Returns (t', w')"
  shows "list_fine ce lst iss (woQueue w') \<and> regs_fine iss asked n (woRegistry w') \<and>
    chans_fine ce asked n (woChans w') \<and> task_fine ce iss asked n t'"
proof (cases t)
  case (TDecode item)
  then have d: "issued_data ce iss (qData item)" using fine(4) by simp
  obtain q where "ceDecode ce (qData item) = Inr q"
    using issued_decodes [OF env(3,4) d] by metis
  then show ?thesis
    using step fine d by (auto simp: TDecode instance_env_def works_on_def split: option.splits)
next
  case (TGet item q req)
  then show ?thesis using step fine own_registered [OF env(3,4) fine(2)] by auto
next
  case (TAllow item q req ch)
  then show ?thesis
    using step fine fine_error
    by (auto simp: instance_env_def works_on_def split: sum.splits prod.splits)
next
  case (TReenqueue item q req ch)
  obtain e list' where run: "RQ_Enqueue (ceLists ce) (ceQueue ce) lks (ttQueue tt)
      (Some (delayed_item (wcRetryDelay (worker_config (ceConfig ce))) tt item)) (woQueue w) = (e, list')" by fastforce
  have "list_fine ce lst iss list'"
    using fine(4) by (intro list_fine_Enqueue [OF env(1,2) fine(1) run]) (simp add: TReenqueue delayed_item_def works_on_def)
  then show ?thesis
    using step fine run fine_error
    by (auto simp: TReenqueue instance_env_def works_on_def split: option.splits)
next
  case (TProcess q req ch)
  then show ?thesis
    using task_fine_process [where ce = ce, OF step [unfolded TProcess reply_for.simps]] fine by auto
next
  case (TSend c i resp)
  then show ?thesis
    using step fine by (auto simp: bind_outcome_Returns intro: chans_fine_send)
next
  case (TRemove i)
  then show ?thesis
    using step fine by (auto simp: regs_fine_def registry.get_remove split: if_splits)
qed (use step fine in auto)

lemma submit_list_fine:
  fixes ce :: "('q, 'l, 'b) cluster_env"
  assumes "list_ok (ceLists ce) lst" "json_ok (ceLists ce)" "list_fine ce lst iss list" "iss (qrRequestID q) = Some q"
    and "submit (instance_env ce lks lk) q req t1 t2 list = (e, list')"
  shows "list_fine ce lst iss list'"
proof (cases "ceEncode ce q")
  case (Inl err)
  then show ?thesis using assms(3,5) by (simp add: submit_def instance_env_def)
next
  case (Inr data)
  obtain e' l' where run: "RQ_Enqueue (ceLists ce) (ceQueue ce) lks t2 (Some (new_item q req data t1)) list = (e', l')"
    by fastforce
  have "list_fine ce lst iss l'"
    using assms(4) Inr
    by (intro list_fine_Enqueue [OF assms(1-3) run]) (auto simp: issued_data_def new_item_def)
  then show ?thesis
    using assms(5) Inr run by (simp add: submit_def instance_env_def split: option.splits)
qed

lemma cluster_fine_step:
  fixes ce :: "('q, 'l, 'b) cluster_env"
  assumes "list_ok (ceLists ce) lst" "json_ok (ceLists ce)" "codec_ok (ceEncode ce) (ceDecode ce)"
    and "cl_step ce lo hi s s'" "cluster_fine ce lst s"
  shows "cluster_fine ce lst s'"
proof -
  have fine: "list_fine ce lst (clIssued s) (clList s)"
    "regs_fine (clIssued s) (clAsked s) n (clRegs s n)" "chans_fine ce (clAsked s) n (clChans s n)"
    "(n, t) \<in> set (clTasks s) \<Longrightarrow> task_fine ce (clIssued s) (clAsked s) n t"
    "(n, sub) \<in> set (clSubs s) \<Longrightarrow> sub_fine (clIssued s) sub"
    "issued_ok (clIssued s)" for n t sub
    using assms(5) by (auto simp: cluster_fine_def issued_ok_def)
  show ?thesis
    using assms(4)
  proof cases
    case (cl_register i n c cs q req cost t)
    have q: "qrRequestID q = i" "qrRequest q \<noteq> None" by (simp_all add: cl_register(5) new_request_def)
    have c: "c = chNext (clChans s n)" "chBuf cs = (chBuf (clChans s n))(c := [])" "chNext cs = Suc c"
      "chCap cs = (chCap (clChans s n))(c := 1)"
      using cl_register(4) by (auto simp: make_chan_def)
    have new: "clAsked s (n, c) = None"
      using fine(3) [of n] c(1) by (cases "clAsked s (n, c)") (auto simp: chans_fine_def)
    have iss: "clIssued s \<subseteq>\<^sub>m (clIssued s)(i \<mapsto> q)" and asked: "clAsked s \<subseteq>\<^sub>m (clAsked s)((n, c) \<mapsto> q)"
      using cl_register(2) new by (auto simp: map_le_def)
    have regs: "regs_fine ((clIssued s)(i \<mapsto> q)) ((clAsked s)((n, c) \<mapsto> q)) m (((clRegs s)(n := Register i c (clRegs s n))) m)" for m
      using regs_fine_mono [OF fine(2) [of m] iss asked] q by (cases "m = n") (simp_all add: regs_fine_register)
    have chans: "chans_fine ce ((clAsked s)((n, c) \<mapsto> q)) m (((clChans s)(n := cs)) m)" for m
      using fine(3) [of m] c new by (fastforce simp: chans_fine_def)
    have "sub_fine ((clIssued s)(i \<mapsto> q)) (SubRegistered q req)" by (simp add: sub_fine_def q)
    then show ?thesis
      using list_fine_mono [OF fine(1) iss] regs chans task_fine_mono [OF fine(4) iss asked]
        sub_fine_mono [OF fine(5) iss] fine(6) q cl_register(3)
      by (auto simp: cluster_fine_def cl_register(1) issued_ok_def)
  next
    case (cl_submit pre n q req post lks lk t1 t2 e list)
    have "clIssued s (qrRequestID q) = Some q"
      using fine(5) [of n "SubRegistered q req"] cl_submit(2) by (simp add: sub_fine_def)
    note l = submit_list_fine [OF assms(1,2) fine(1) this cl_submit(3)]
    show ?thesis using l assms(5) cl_submit(2) by (auto simp: cluster_fine_def cl_submit(1) split: if_splits)
  next
    case (cl_cleanup pre n i post)
    then show ?thesis
      using assms(5) by (auto simp: cluster_fine_def regs_fine_def registry.get_remove)
  next
    case (cl_receive c n resp cs)
    have "chans_fine ce (clAsked s) n cs"
      by (rule chans_fine_receive [OF fine(3) cl_receive(2)])
    then show ?thesis using assms(5) by (auto simp: cluster_fine_def cl_receive(1))
  next
    case (cl_take n deadline r item list)
    note l = list_fine_Dequeue [OF assms(1,2) fine(1) cl_take(3)]
    show ?thesis using l assms(5) by (auto simp: cluster_fine_def cl_take(1))
  next
    case (cl_no_item n deadline r err list)
    note l = list_fine_Dequeue(1) [OF assms(1,2) fine(1) cl_no_item(3)]
    show ?thesis using l assms(5) by (auto simp: cluster_fine_def cl_no_item(1))
  next
    case (cl_round n deadline r list)
    note l = list_fine_Dequeue(1) [OF assms(1,2) fine(1) cl_round(3)]
    show ?thesis using l assms(5) by (auto simp: cluster_fine_def cl_round(1))
  next
    case (cl_task pre n t post tt lks lk env t' w)
    have "task_fine ce (clIssued s) (clAsked s) n t" using fine(4) [of n t] cl_task(2) by simp
    then have "list_fine ce lst (clIssued s) (woQueue w) \<and> regs_fine (clIssued s) (clAsked s) n (woRegistry w) \<and>
        chans_fine ce (clAsked s) n (woChans w) \<and> task_fine ce (clIssued s) (clAsked s) n t'"
      by (intro task_fine_step [OF assms(1-3) fine(6) _ _ _ _ cl_task(5)]) (use fine in simp_all)
    then show ?thesis using assms(5) cl_task(2) by (auto simp: cluster_fine_def cl_task(1))
  qed (use assms(5) in \<open>auto simp: cluster_fine_def\<close>)
qed

lemma cl_reach_fine:
  fixes ce :: "('q, 'l, 'b) cluster_env"
  assumes "list_ok (ceLists ce) lst" "json_ok (ceLists ce)" "codec_ok (ceEncode ce) (ceDecode ce)"
    and "lst (rqQueueKey (ceQueue ce)) list = []" "cl_reach ce lo hi (initial_cluster list store) s"
  shows "cluster_fine ce lst s"
  using assms(5)
proof induction
  case cl_start
  show ?case
    using assms(4)
    by (simp add: cluster_fine_def initial_cluster_def list_fine_def regs_fine_def chans_fine_def
        registry.get_empty no_chans_def)
next
  case (cl_next s s')
  then show ?case by (blast intro: cluster_fine_step [OF assms(1-3)])
qed

lemma fine_task_no_panic:
  fixes ce :: "('q, 'l, 'b) cluster_env"
  assumes "codec_ok (ceEncode ce) (ceDecode ce)" "issued_ok iss" "task_fine ce iss asked n t"
  shows "task_step (instance_env ce lks lk) tt (reply_for env (ceService ce) t) t w \<noteq> Panics"
proof (cases t)
  case (TDecode item)
  then obtain q where "ceDecode ce (qData item) = Inr q" "qrRequest q \<noteq> None"
    using issued_decodes [OF assms(1,2)] assms(3) by (metis task_fine.simps(1))
  then show ?thesis by (auto simp: TDecode instance_env_def)
next
  case (TProcess q req ch)
  obtain p lg req' where "Process env (ceService ce) req = ((p, lg), req')" by (metis prod.collapse)
  then show ?thesis
    by (auto simp: TProcess service_reply_def split: sum.split option.split)
next
  case (TSend c i resp)
  then show ?thesis by (auto simp: chan_send_def)
next
  case (TAllow item q req ch)
  then show ?thesis by (simp split: prod.split)
next
  case (TReenqueue item q req ch)
  then show ?thesis by (simp split: prod.split)
qed simp_all

text \<open>The channels that a goroutine holds; a channel that is there for one request.\<close>

fun task_chan :: "'b task \<Rightarrow> chan set" where
  "task_chan (TAllow item q req ch) = set_option ch"
| "task_chan (TReenqueue item q req ch) = set_option ch"
| "task_chan (TProcess q req ch) = set_option ch"
| "task_chan (TSend c i resp) = {c}"
| "task_chan t = {}"

definition good_chan :: "('q, 'l, 'b) cluster \<Rightarrow> nat \<Rightarrow> chan \<Rightarrow> bool" where
  "good_chan s n c \<longleftrightarrow>
     clAsked s (n, c) \<noteq> None \<and> c < chNext (clChans s n) \<and> chCap (clChans s n) c = 1 \<and>
     length (chBuf (clChans s n) c) \<le> 1"

lemma fine_task_chan: "task_fine ce iss asked n t \<Longrightarrow> c \<in> task_chan t \<Longrightarrow> asked (n, c) \<noteq> None"
  by (cases t) (auto simp: own_channel_def)

section \<open>Properties\<close>


text \<open>
  C11: in every reachable state the references to channels are good: whatever
  channel a registry holds or a goroutine works with exists in its own instance, was made
  for one request and has room for one response, and no channel holds more.
\<close>

theorem cluster_well_typed:
  fixes ce :: "('q, 'l, 'b) cluster_env"
  assumes "list_ok (ceLists ce) lst" "json_ok (ceLists ce)" "codec_ok (ceEncode ce) (ceDecode ce)"
    and "lst (rqQueueKey (ceQueue ce)) list = []" "cl_reach ce lo hi (initial_cluster list store) s"
  shows "(\<forall>n i c. Get i (clRegs s n) = Some c \<longrightarrow> good_chan s n c) \<and>
    (\<forall>(n, t) \<in> set (clTasks s). \<forall>c \<in> task_chan t. good_chan s n c)"
proof -
  have fine: "cluster_fine ce lst s" by (rule cl_reach_fine [OF assms])
  then have "good_chan s n c" if "clAsked s (n, c) \<noteq> None" for n c
    using that by (auto simp: cluster_fine_def chans_fine_def good_chan_def)
  moreover have "clAsked s (n, c) \<noteq> None" if "Get i (clRegs s n) = Some c" for n i c
    using fine that by (fastforce simp: cluster_fine_def regs_fine_def)
  moreover have "clAsked s (n, c) \<noteq> None" if "(n, t) \<in> set (clTasks s)" "c \<in> task_chan t" for n t c
    using fine that fine_task_chan [of ce "clIssued s" "clAsked s" n t c] by (auto simp: cluster_fine_def)
  ultimately show ?thesis by blast
qed

text \<open>
  C7: however the instances interleave and whatever the connection does, a
  response in a client's channel answers the very request for which that channel was made,
  as it was decoded from the queue: what the service gave for it, or an error about it.  No goroutine of any instance panics.
\<close>

theorem cluster_answers:
  fixes ce :: "('q, 'l, 'b) cluster_env"
  assumes "list_ok (ceLists ce) lst" "json_ok (ceLists ce)" "codec_ok (ceEncode ce) (ceDecode ce)"
    and "lst (rqQueueKey (ceQueue ce)) list = []" "cl_reach ce lo hi (initial_cluster list store) s"
  shows "(\<forall>n c. \<forall>resp \<in> set (chBuf (clChans s n) c). \<exists>q. clAsked s (n, c) = Some q \<and> answered ce q resp) \<and>
    (\<forall>(n, t) \<in> set (clTasks s). \<forall>lks lk tt env.
       task_step (instance_env ce lks lk) tt (reply_for env (ceService ce) t) t (inst_world n s) \<noteq> Panics)"
proof -
  have fine: "cluster_fine ce lst s" by (rule cl_reach_fine [OF assms])
  then have "task_step (instance_env ce lks lk) tt (reply_for env (ceService ce) t) t (inst_world n s) \<noteq> Panics"
    if "(n, t) \<in> set (clTasks s)" for n t lks lk tt env
    using that
    by (intro fine_task_no_panic [OF assms(3), of "clIssued s" "clAsked s" n t])
      (auto simp: cluster_fine_def issued_ok_def)
  with fine show ?thesis by (auto simp: cluster_fine_def chans_fine_def)
qed

lemma new_item_data: "qData (new_item q req d t1) = d"
  by (simp add: new_item_def)


section \<open>A concrete cluster\<close>

text \<open>The store of lists, with an encoding of one item; the identity encodes requests.\<close>

definition job_lists :: "(string \<Rightarrow> string list, QueuedRequest) list_env" where
  "job_lists =
     \<lparr>lnLLen = lnLLen example_lists, lnRPush = lnRPush example_lists, lnExpire = lnExpire example_lists,
      lnLPop = lnLPop example_lists, lnLIndex0 = lnLIndex0 example_lists, lnDel = lnDel example_lists,
      lnMarshal = (\<lambda>item. if without_metadata item = without_metadata example_item then Inr ''j''
                          else Inl (ErrorNew ''json'')),
      lnUnmarshal = (\<lambda>s. if s = ''j'' then Inr example_item else Inl (ErrorNew ''json''))\<rparr>"

lemma job_lists_ok: "list_ok job_lists (\<lambda>k db. db k)"
  using example_lists_ok by (simp add: list_ok_def job_lists_def)

lemma job_json_ok: "json_ok job_lists"
  by (simp add: json_ok_def job_lists_def)

definition example_ce :: "(string \<Rightarrow> string list, string \<Rightarrow> rat option, QueuedRequest) cluster_env" where
  "example_ce =
     \<lparr>ceLists = job_lists, ceQueue = example_rq, ceRedis = map_redis, ceLimiter = example_rl,
      ceEncode = Inr, ceDecode = Inr, ceConfig = example_wc, ceService = example_service\<rparr>"

lemma example_ce_simps [simp]:
  "ceLists example_ce = job_lists" "ceQueue example_ce = example_rq" "ceRedis example_ce = map_redis"
  "ceLimiter example_ce = example_rl" "ceEncode example_ce = Inr" "ceDecode example_ce = Inr"
  "ceConfig example_ce = example_wc" "ceService example_ce = example_service"
  by (simp_all add: example_ce_def)

definition links_up :: enqueue_links where
  "links_up = \<lparr>elLLen = LinkUp, elRPush = LinkUp, elExpire = LinkUp\<rparr>"

definition one_job :: "string \<Rightarrow> string list" where
  "one_job = (\<lambda>k. [])(rqQueueKey example_rq := [''j''])"

lemma job_submit:
  "submit (instance_env example_ce links_up lk) example_queued example_llm_request 1 1 (\<lambda>k. []) = (None, one_job)"
proof -
  have "stamp 1 (new_item example_queued example_llm_request example_queued 1) = example_item"
    by (simp add: stamp_def example_item_def new_item_def IsZero_def)
  then show ?thesis
    by (simp add: submit_def instance_env_def RQ_Enqueue_def links_up_def job_lists_def example_lists_def one_job_def
        example_rq_def Let_def)
qed

lemma job_dequeue: "RQ_Dequeue job_lists example_rq None [example_round] one_job = (DqReturns (Inr example_item), \<lambda>k. [])"
proof -
  have pop: "BLPop job_lists (drPop example_round) (dequeue_timeout None (drUntil example_round)) (rqQueueKey example_rq) one_job
      = Returns (Inr [rqQueueKey example_rq, ''j''], \<lambda>k. [])"
    by (simp add: BLPop_def job_lists_def example_lists_def one_job_def example_round_def fun_eq_iff)
  have "lnUnmarshal job_lists ''j'' = Inr example_item" by (simp add: job_lists_def)
  note run = RQ_Dequeue_popped [OF pop this, of "[]"]
  have "\<not> round_expired example_rq example_round example_item" "item_ready (drNow example_round) example_item"
    by (simp_all add: round_expired_def item_ready_def example_item_def new_item_def IsZero_def example_round_def
        example_rq_def time_Sub_def int64_min_def int64_max_def duration_defs)
  then show ?thesis unfolding run by (simp only: if_True if_False)
qed

lemma job_allowed:
  "\<exists>store. Redis_Allow map_redis LinkUp example_rl 4 (at_unix 100) Map.empty = (Inr True, store)"
proof -
  have "redis_level map_redis example_rl ''default'' 100 Map.empty = 5"
    using skew_absent [OF example_rl_ok, of map_redis "''default''" Map.empty 100] by (simp add: map_redis_def)
  then show ?thesis
    using Redis_AllowN_up [OF example_rl_ok, of 4 map_redis "''default''" "at_unix 100" Map.empty]
    by (simp add: Redis_Allow_def)
qed

text \<open>A goroutine that got the cost and holds a channel sends some response.\<close>

lemma process_sends:
  "\<exists>resp. task_step we tt (service_reply env svc req) (TProcess q req (Some c)) w = Returns (TSend c (qrRequestID q) resp, w)"
proof -
  obtain p lg req' where "Process env svc req = ((p, lg), req')" by (metis prod.collapse)
  then show ?thesis by (cases p) (simp_all add: service_reply_def reply_or_release_def)
qed

definition example_cl :: "(string \<Rightarrow> string list, string \<Rightarrow> rat option, QueuedRequest) cluster" where
  "example_cl = initial_cluster (\<lambda>k. []) Map.empty"

text \<open>The first instance queues the request and takes it.\<close>

definition example_taken :: "(string \<Rightarrow> string list, string \<Rightarrow> rat option, QueuedRequest) cluster" where
  "example_taken = example_cl
     \<lparr>clRegs := (\<lambda>n. NewChannelRegistry)(0 := Register ''a'' 0 NewChannelRegistry),
      clChans := (\<lambda>n. no_chans)(0 := snd (make_chan 1 no_chans)),
      clTasks := [(0, TDecode example_item)], clSem := (\<lambda>n. 0)(0 := 1),
      clIssued := [''a'' \<mapsto> example_queued], clAsked := [(0, 0) \<mapsto> example_queued]\<rparr>"

lemma example_taken_reach: "cl_reach example_ce 100 101 example_cl example_taken"
proof -
  let ?step = "cl_step example_ce 100 101" and ?reach = "cl_reach example_ce 100 101 example_cl"
  let ?s1 = "example_cl
     \<lparr>clRegs := (\<lambda>n. NewChannelRegistry)(0 := Register ''a'' 0 NewChannelRegistry),
      clChans := (\<lambda>n. no_chans)(0 := snd (make_chan 1 no_chans)),
      clSubs := [(0, SubRegistered example_queued example_llm_request)],
      clIssued := [''a'' \<mapsto> example_queued], clAsked := [(0, 0) \<mapsto> example_queued]\<rparr>"
  let ?s2 = "?s1\<lparr>clList := one_job, clSubs := []\<rparr>"
  let ?s3 = "?s2\<lparr>clSem := (\<lambda>n. 0)(0 := 1), clLoop := (\<lambda>n. LoopTop)(0 := LoopHasSlot)\<rparr>"
  have "?step example_cl ?s1"
    using cl_register [of example_cl "''a''" 0 0 "snd (make_chan 1 no_chans)" example_queued example_llm_request 4 1 example_ce 100 101]
    by (simp add: example_cl_def initial_cluster_def plain_id_def make_chan_def no_chans_def example_queued_def)
  then have "?reach ?s1" by (rule cl_next [OF cl_start])
  moreover have "?step ?s1 ?s2"
    using cl_submit [of ?s1 "[]" 0 example_queued example_llm_request "[]" example_ce links_up LinkUp 1 1 None one_job 100 101]
    by (simp add: example_cl_def initial_cluster_def job_submit)
  ultimately have "?reach ?s2" by (rule cl_next)
  moreover have "?step ?s2 ?s3"
    using cl_acquire [of ?s2 0 example_ce 100 101]
    by (simp add: example_cl_def initial_cluster_def example_wc_def worker_config_def)
  ultimately have "?reach ?s3" by (rule cl_next)
  moreover have top: "(\<lambda>n::nat. LoopTop)(0 := LoopTop) = (\<lambda>n. LoopTop)" by (simp add: fun_eq_iff)
  moreover have "?step ?s3 example_taken"
    using cl_take [of ?s3 0 example_ce None example_round example_item "\<lambda>k. []" 100 101]
    by (simp add: example_cl_def example_taken_def initial_cluster_def job_dequeue top del: RQ_Dequeue.simps)
  ultimately show ?thesis by (blast intro: cl_next)
qed

text \<open>Its goroutine gets the cost from the bucket, calls the service and sends the response.\<close>

definition example_times :: task_times where
  "example_times = \<lparr>ttAllow = at_unix 100, ttEnqueue = 0, ttAfter = 0, ttQueue = 0\<rparr>"

definition example_at ::
  "QueuedRequest task \<Rightarrow> (string \<Rightarrow> string list, string \<Rightarrow> rat option) world \<Rightarrow> int \<Rightarrow> nat \<Rightarrow> bool" where
  "example_at t w d k \<longleftrightarrow>
     (\<exists>s. cl_reach example_ce 100 101 example_cl s \<and> clTasks s = [(0, t)] \<and> inst_world 0 s = w \<and>
        clAsked s = [(0, 0) \<mapsto> example_queued] \<and> clDispatched s = d \<and> clCalls s = k)"

lemma example_at_step:
  assumes "example_at t w d k" "t \<notin> {TRelease, TDone}"
    and "task_step (instance_env example_ce links_up LinkUp) example_times (reply_for json_env example_service t) t w
      = Returns (t', w')"
    and "d' = d + task_cost t" "k' = k + (if \<exists>item q req ch. t = TAllow item q req ch then 1 else 0)"
  shows "example_at t' w' d' k'"
proof -
  obtain s where s: "cl_reach example_ce 100 101 example_cl s" "clTasks s = [] @ (0, t) # []" "inst_world 0 s = w"
    "clAsked s = [(0, 0) \<mapsto> example_queued]" "clDispatched s = d" "clCalls s = k"
    using assms(1) by (auto simp: example_at_def)
  let ?s = "record_task t t' (put_world 0 w' (s\<lparr>clTasks := [] @ (0, t') # []\<rparr>))"
  have r: "reads 100 101 (ttAllow example_times)" by (simp add: reads_def example_times_def)
  have st: "task_step (instance_env example_ce links_up LinkUp) example_times
      (reply_for json_env (ceService example_ce) t) t (inst_world 0 s) = Returns (t', w')"
    using assms(3) s(3) by simp
  have "cl_reach example_ce 100 101 example_cl ?s"
    by (rule cl_next [OF s(1) cl_task [OF s(2) assms(2) r st]])
  moreover have "inst_world 0 ?s = w'" by (simp add: inst_world_def)
  moreover have "clDispatched ?s = d'" "clCalls ?s = k'"
    using s(5,6) assms(4,5) by (cases t; simp)+
  ultimately show ?thesis
    using s(4) unfolding example_at_def by (intro exI [of _ ?s]) simp
qed

lemma example_answered_cluster:
  "\<exists>resp w. example_at (TRemove ''a'') w 4 1 \<and> chBuf (woChans w) 0 = [resp]"
proof -
  let ?we = "instance_env example_ce links_up LinkUp"
  have q: "qrRequest example_queued = Some example_llm_request" "qrRequestID example_queued = ''a''"
    "qrTokenCost example_queued = 4" "qData example_item = example_queued"
    by (simp_all add: example_queued_def new_request_def example_item_def new_item_def)
  obtain store where allow: "Redis_Allow map_redis LinkUp example_rl 4 (at_unix 100) Map.empty = (Inr True, store)"
    using job_allowed by blast
  define w where "w = inst_world 0 example_taken"
  have w: "woLimiter w = Map.empty" "Get ''a'' (woRegistry w) = Some 0" "chBuf (woChans w) 0 = []" "chCap (woChans w) 0 = 1"
    by (simp_all add: w_def example_taken_def example_cl_def initial_cluster_def registry.get_register
        make_chan_def no_chans_def)
  have "example_at (TDecode example_item) w 0 0"
    unfolding example_at_def w_def
    by (rule exI [of _ example_taken])
      (simp add: example_taken_reach, simp add: example_taken_def example_cl_def initial_cluster_def)
  then have "example_at (TGet example_item example_queued example_llm_request) w 0 0"
    by (rule example_at_step) (simp_all add: instance_env_def q)
  then have "example_at (TAllow example_item example_queued example_llm_request (Some 0)) w 0 0"
    by (rule example_at_step) (simp_all add: q w)
  then have "example_at (TProcess example_queued example_llm_request (Some 0)) (w\<lparr>woLimiter := store\<rparr>) 0 1"
    by (rule example_at_step) (simp_all add: instance_env_def q w allow example_times_def)
  moreover obtain resp where "task_step ?we example_times (service_reply json_env example_service example_llm_request)
      (TProcess example_queued example_llm_request (Some 0)) (w\<lparr>woLimiter := store\<rparr>)
      = Returns (TSend 0 ''a'' resp, w\<lparr>woLimiter := store\<rparr>)"
    using process_sends [of ?we example_times json_env example_service example_llm_request example_queued 0] q by metis
  ultimately have "example_at (TSend 0 ''a'' resp) (w\<lparr>woLimiter := store\<rparr>) 4 1"
    by (elim example_at_step) (simp_all add: q del: task_step.simps)
  then have "example_at (TRemove ''a'')
      (w\<lparr>woLimiter := store, woChans := (woChans w)\<lparr>chBuf := (chBuf (woChans w))(0 := [resp])\<rparr>\<rparr>) 4 1"
    by (rule example_at_step) (simp_all add: chan_send_def w)
  then show ?thesis by force
qed


theorem cluster_answers_witness:
  "\<exists>s resp. cl_reach example_ce 100 101 example_cl s \<and> chBuf (clChans s 0) 0 = [resp] \<and>
     answered example_ce example_queued resp"
proof -
  obtain s resp where s: "cl_reach example_ce 100 101 example_cl s" "chBuf (clChans s 0) 0 = [resp]"
    "clAsked s = [(0, 0) \<mapsto> example_queued]"
    using example_answered_cluster by (auto simp: example_at_def)
  have "(\<forall>n c. \<forall>resp \<in> set (chBuf (clChans s n) c). \<exists>q. clAsked s (n, c) = Some q \<and> answered example_ce q resp)"
    using cluster_answers [of example_ce "\<lambda>k db. db k" "\<lambda>k. []" 100 101 Map.empty s] s(1)
    by (simp add: job_lists_ok job_json_ok ident_codec example_cl_def)
  then have "\<exists>q. clAsked s (0, 0) = Some q \<and> answered example_ce q resp" using s(2) by (metis list.set_intros(1))
  then have "answered example_ce example_queued resp" by (simp add: s(3))
  with s(1,2) show ?thesis by blast
qed

theorem cluster_well_typed_witness:
  "cl_reach example_ce 100 101 example_cl example_taken \<and> Get ''a'' (clRegs example_taken 0) = Some 0 \<and>
   good_chan example_taken 0 0"
proof -
  have reg: "Get ''a'' (clRegs example_taken 0) = Some 0"
    by (simp add: example_taken_def registry.get_register)
  have "\<forall>n i c. Get i (clRegs example_taken n) = Some c \<longrightarrow> good_chan example_taken n c"
    using cluster_well_typed [of example_ce "\<lambda>k db. db k" "\<lambda>k. []" 100 101 Map.empty example_taken] example_taken_reach
    by (simp add: job_lists_ok job_json_ok ident_codec example_cl_def)
  with reg show ?thesis using example_taken_reach by blast
qed


end
