(* ===== verification/Redis_Expiry.thy ===== *)
theory Redis_Expiry
  imports Redis_Limiter
begin

text \<open>
  The expiry of the limiter's keys (redis_limiter.go).  Every script sets both keys of its bucket
  with \<^verbatim>\<open>EX\<close>, and the other theories let no key expire.  Here the store has deadlines: the limiter
  on it gives the same answers as on a store without them, provided that a bucket fills up
  within the expiry.
\<close>

section \<open>A store with deadlines\<close>

text \<open>
  Redis at an instant: a key is there before its deadline; \<^verbatim>\<open>SET\<close> with \<^verbatim>\<open>EX\<close> sets a new one.  The error of
  an invalid expiry and \<^verbatim>\<open>tostring\<close> are parameters, as for the store that keeps its keys.
\<close>

definition expiring_redis ::
  "go_error \<Rightarrow> (rat \<Rightarrow> string) \<Rightarrow> gotime \<Rightarrow> (string \<Rightarrow> (rat \<times> gotime) option) redis_env" where
  "expiring_redis err tostring now =
     \<lparr>reGet = (\<lambda>k db. case db k of None \<Rightarrow> None | Some (v, deadline) \<Rightarrow> if now < deadline then Some v else None),
      reSet = (\<lambda>k v expiry db. db(k \<mapsto> (v, now + expiry * second))),
      reExpireError = err, reToString = tostring\<rparr>"

definition lasting_redis :: "go_error \<Rightarrow> (rat \<Rightarrow> string) \<Rightarrow> (string \<Rightarrow> rat option) redis_env" where
  "lasting_redis err tostring =
     \<lparr>reGet = (\<lambda>k db. db k), reSet = (\<lambda>k v expiry db. db(k \<mapsto> v)), reExpireError = err, reToString = tostring\<rparr>"

section \<open>Runs of calls\<close>

datatype limiter_call =
    CallAllow string int
  | CallAvailable string
  | CallReserve string int gotime string

datatype limiter_answer =
    Allowed "go_error + bool"
  | Available "go_error + int"
  | Reserved "go_error + redisReservation \<times> redisTask option"

fun do_call ::
  "'db redis_env \<Rightarrow> link \<Rightarrow> gotime \<Rightarrow> limiter_call \<Rightarrow> RedisTokenBucket \<times> 'db \<Rightarrow>
   limiter_answer \<times> RedisTokenBucket \<times> 'db" where
  "do_call re lk now (CallAllow key c) (rl, db) =
     (case Redis_AllowN re lk rl key c now db of (r, db') \<Rightarrow> (Allowed r, rl, db'))"
| "do_call re lk now (CallAvailable key) (rl, db) =
     (case Redis_GetTokensAvailableN re lk rl key now db of (r, db') \<Rightarrow> (Available r, rl, db'))"
| "do_call re lk now (CallReserve key c now' newID) (rl, db) =
     (case Redis_ReserveN re lk key c now now' newID rl db of (r, rl', db') \<Rightarrow> (Reserved r, rl', db'))"

text \<open>Redis and the callers read the same clock; the store at each call is the one of its instant.\<close>

fun run_calls ::
  "(gotime \<Rightarrow> 'db redis_env) \<Rightarrow> (gotime \<times> link \<times> limiter_call) list \<Rightarrow> RedisTokenBucket \<times> 'db \<Rightarrow>
   limiter_answer list \<times> RedisTokenBucket \<times> 'db" where
  "run_calls env [] s = ([], s)"
| "run_calls env ((now, lk, c) # cs) s =
     (case do_call (env now) lk now c s of
        (a, s') \<Rightarrow> (case run_calls env cs s' of (as, s'') \<Rightarrow> (a # as, s'')))"

section \<open>The simulation\<close>

text \<open>
  The two stores agree on what was written last, at an instant \<^term>\<open>n\<close>; the one with deadlines may
  have lost it since.
\<close>

inductive key_sim ::
  "RedisTokenBucket \<Rightarrow> gotime \<Rightarrow> (string \<Rightarrow> (rat \<times> gotime) option) \<Rightarrow> (string \<Rightarrow> rat option) \<Rightarrow> string \<Rightarrow> bool"
  for rl t db kept k where
  key_absent:
    "db (getBucketKey rl k) = None \<Longrightarrow> db (getTimestampKey rl k) = None \<Longrightarrow>
     kept (getBucketKey rl k) = None \<Longrightarrow> kept (getTimestampKey rl k) = None \<Longrightarrow> key_sim rl t db kept k"
| key_there:
    "n \<le> t \<Longrightarrow> small (Unix n) \<Longrightarrow> level_ok (rlBucketSize rl) l \<Longrightarrow>
     db (getBucketKey rl k) = Some (l, n + key_expiry_seconds rl * second) \<Longrightarrow>
     db (getTimestampKey rl k) = Some (of_int (Unix n), n + key_expiry_seconds rl * second) \<Longrightarrow>
     kept (getBucketKey rl k) = Some l \<Longrightarrow> kept (getTimestampKey rl k) = Some (of_int (Unix n)) \<Longrightarrow>
     key_sim rl t db kept k"

definition expiry_sim ::
  "RedisTokenBucket \<Rightarrow> gotime \<Rightarrow> (string \<Rightarrow> (rat \<times> gotime) option) \<Rightarrow> (string \<Rightarrow> rat option) \<Rightarrow> bool" where
  "expiry_sim rl t db kept \<longleftrightarrow> (\<forall>k. key_sim rl t db kept k)"

text \<open>A bucket fills up before its keys expire.\<close>

definition fills_in_time :: "RedisTokenBucket \<Rightarrow> bool" where
  "fills_in_time rl \<longleftrightarrow>
     of_int (rlBucketSize rl) \<le> rlTokensPerSecond rl * of_int (key_expiry_seconds rl)"

lemma sim_key: "expiry_sim rl t db kept \<Longrightarrow> key_sim rl t db kept k"
  by (simp add: expiry_sim_def)

lemma key_sim_later: "key_sim rl t db kept k \<Longrightarrow> t \<le> now \<Longrightarrow> key_sim rl now db kept k"
proof (erule key_sim.cases, goal_cases)
  case (2 n l)
  then show ?case by (intro key_there [where n = n and l = l]) simp_all
qed (rule key_absent)

lemma expiry_sim_later: "expiry_sim rl t db kept \<Longrightarrow> t \<le> now \<Longrightarrow> expiry_sim rl now db kept"
  by (auto simp: expiry_sim_def intro: key_sim_later)

lemma sim_db_ok:
  assumes "expiry_sim rl t db kept"
  shows "db_ok (lasting_redis err ts) rl kept"
  unfolding db_ok_def
proof
  fix k
  show "(reGet (lasting_redis err ts) (getTimestampKey rl k) kept = None \<and>
      reGet (lasting_redis err ts) (getBucketKey rl k) kept = None) \<or>
    (\<exists>u l. reGet (lasting_redis err ts) (getTimestampKey rl k) kept = Some (of_int u) \<and> small u \<and>
      reGet (lasting_redis err ts) (getBucketKey rl k) kept = Some l \<and> level_ok (rlBucketSize rl) l)"
    using sim_key [OF assms, of k] by cases (auto simp: lasting_redis_def)
qed

text \<open>The level that a script computes is full when as many seconds have passed as the expiry has.\<close>

lemma full_after_expiry:
  assumes "rl_ok rl" "fills_in_time rl" "level_ok (rlBucketSize rl) l" "small u0" "small u"
    and "u0 + key_expiry_seconds rl \<le> u"
  shows "min (f64_of_int (rlBucketSize rl))
      (f64_add l (f64_mul (f64_sub (of_int u) (of_int u0)) (rlTokensPerSecond rl))) = of_int (rlBucketSize rl)"
proof -
  let ?size = "of_int (rlBucketSize rl) :: rat" and ?r = "rlTokensPerSecond rl"
  have size: "f64_of_int (rlBucketSize rl) = ?size" "is_f64 ?size"
    using assms(1) by (simp_all add: rl_ok_def is_f64_of_int)
  have d: "f64_sub (of_int u) (of_int u0) = of_int (u - u0)"
    using f64_rnd_of_int [of "u - u0"] assms(4,5) by (simp add: f64_sub_def small_def)
  have "?size \<le> ?r * of_int (key_expiry_seconds rl)" using assms(2) by (simp add: fills_in_time_def)
  also have "\<dots> \<le> of_int (u - u0) * ?r"
    using assms(1,6) by (simp add: rl_ok_def mult.commute)
  finally have "?size \<le> f64_mul (of_int (u - u0)) ?r"
    unfolding f64_mul_def by (rule f64_rnd_ge_bound [OF size(2)])
  then have "?size \<le> l + f64_mul (of_int (u - u0)) ?r" using assms(3) by (simp add: level_ok_def)
  then have "?size \<le> f64_add l (f64_mul (of_int (u - u0)) ?r)"
    unfolding f64_add_def by (rule f64_rnd_ge_bound [OF size(2)])
  then show ?thesis by (simp add: size(1) d)
qed

lemma same_level:
  assumes "rl_ok rl" "fills_in_time rl" "expiry_sim rl t db kept" "t \<le> now" "small (Unix now)"
  shows "redis_level (expiring_redis err ts now) rl k (Unix now) db
    = redis_level (lasting_redis err ts) rl k (Unix now) kept"
  using sim_key [OF assms(3), of k]
proof cases
  case key_absent
  then show ?thesis by (simp add: redis_level_def lua_refill_def expiring_redis_def lasting_redis_def)
next
  case (key_there n l)
  show ?thesis
  proof (cases "now < n + key_expiry_seconds rl * second")
    case True
    with key_there show ?thesis by (simp add: redis_level_def lua_refill_def expiring_redis_def lasting_redis_def)
  next
    case False
    then have "Unix (n + key_expiry_seconds rl * second) \<le> Unix now" by (intro Unix_mono) simp
    moreover have "Unix (n + key_expiry_seconds rl * second) = Unix n + key_expiry_seconds rl"
      by (simp add: Unix_def second_def)
    ultimately have passed: "Unix n + key_expiry_seconds rl \<le> Unix now" by simp
    have "redis_level (lasting_redis err ts) rl k (Unix now) kept = of_int (rlBucketSize rl)"
      using full_after_expiry [OF assms(1,2) key_there(3,2) assms(5) passed] key_there small_exact [OF assms(5)]
      by (simp add: redis_level_def lua_refill_def lasting_redis_def Let_def)
    moreover have "redis_level (expiring_redis err ts now) rl k (Unix now) db = of_int (rlBucketSize rl)"
      using key_there False assms(1)
      by (simp add: redis_level_def lua_refill_def expiring_redis_def f64_sub_def f64_mul_def f64_add_def rl_ok_def
          f64_rnd_of_int)
    ultimately show ?thesis by simp
  qed
qed

lemma sim_level_ok:
  assumes "rl_ok rl" "expiry_sim rl t db kept" "t \<le> now" "small (Unix now)"
  shows "level_ok (rlBucketSize rl) (redis_level (lasting_redis err ts) rl k (Unix now) kept)"
proof -
  have "r_clock (lasting_redis err ts) rl (Unix now) k kept \<le> Unix now"
    using sim_key [OF assms(2), of k]
    by cases (use assms(3) in \<open>auto simp: r_clock_def lasting_redis_def intro!: Unix_mono\<close>)
  then show ?thesis by (rule redis_level_ok [OF assms(1) sim_db_ok [OF assms(2)] _ assms(4)])
qed

lemma sim_writes:
  assumes "expiry_sim rl t db kept" "t \<le> now" "small (Unix now)" "level_ok (rlBucketSize rl) l"
  shows "expiry_sim rl now (script_writes (expiring_redis err ts now) rl k (Unix now) l db)
    (script_writes (lasting_redis err ts) rl k (Unix now) l kept)"
  unfolding expiry_sim_def
proof
  fix k'
  let ?db = "script_writes (expiring_redis err ts now) rl k (Unix now) l db"
  let ?kept = "script_writes (lasting_redis err ts) rl k (Unix now) l kept"
  let ?e = "key_expiry_seconds rl * second"
  have w: "?db = db(getTimestampKey rl k \<mapsto> (of_int (Unix now), now + ?e), getBucketKey rl k \<mapsto> (l, now + ?e))"
    "?kept = kept(getTimestampKey rl k \<mapsto> of_int (Unix now), getBucketKey rl k \<mapsto> l)"
    by (simp_all add: script_writes_def expiring_redis_def lasting_redis_def small_exact [OF assms(3)])
  show "key_sim rl now ?db ?kept k'"
  proof (cases "k' = k")
    case True
    then show ?thesis
      using assms(3,4) by (intro key_there [where n = now and l = l]) (simp_all add: w)
  next
    case False
    with sim_key [OF expiry_sim_later [OF assms(1,2)], of k'] show ?thesis
      by (elim key_sim.cases) (auto simp: w intro: key_sim.intros)
  qed
qed

section \<open>The calls\<close>

lemma getAvailableScript_eq:
  assumes "rl_ok rl"
  shows "getAvailableScript re (getBucketKey rl k) (getTimestampKey rl k) (f64_of_int (rlBucketSize rl))
       (rlTokensPerSecond rl) (f64_of_int u) (key_expiry_seconds rl) db
     = (Inr (redis_level re rl k u db), script_writes re rl k u (redis_level re rl k u db) db)"
proof -
  have "0 < key_expiry_seconds rl" using assms by (simp add: rl_ok_def)
  then show ?thesis
    by (simp add: getAvailableScript_def redis_level_def redis_SET_def script_writes_def Let_def)
qed

text \<open>A script that does the same on both stores keeps the simulation, whatever the connection does.\<close>

lemma run_script_sim:
  assumes "expiry_sim rl t db kept" "t \<le> now" "small (Unix now)" "level_ok (rlBucketSize rl) l"
    and "script db = (Inr x, script_writes (expiring_redis err ts now) rl k (Unix now) l db)"
    and "script' kept = (Inr x, script_writes (lasting_redis err ts) rl k (Unix now) l kept)"
  obtains r db' kept' where "run_script lk script db = (r, db')" "run_script lk script' kept = (r, kept')"
    "expiry_sim rl now db' kept'"
  using that assms(5,6) expiry_sim_later [OF assms(1,2)] sim_writes [OF assms(1-4)] by (cases lk) auto

lemma Allow_sim:
  assumes "rl_ok rl" "fills_in_time rl" "expiry_sim rl t db kept" "t \<le> now" "small (Unix now)"
  obtains r db' kept' where "Redis_AllowN (expiring_redis err ts now) lk rl k c now db = (r, db')"
    "Redis_AllowN (lasting_redis err ts) lk rl k c now kept = (r, kept')" "expiry_sim rl now db' kept'"
proof (cases "c \<le> 0")
  case True
  then show ?thesis using that expiry_sim_later [OF assms(3,4)] by (simp add: Redis_AllowN_def)
next
  case False
  then have ok: "level_ok (rlBucketSize rl) (after_cost (redis_level (lasting_redis err ts) rl k (Unix now) kept) c)"
    using sim_level_ok [OF assms(1,3-5)] by (simp add: after_cost_ok)
  let ?L = "redis_level (lasting_redis err ts) rl k (Unix now) kept"
  let ?script = "\<lambda>re db. allowScript re (getBucketKey rl k) (getTimestampKey rl k) (f64_of_int (rlBucketSize rl))
      (rlTokensPerSecond rl) (f64_of_int (Unix now)) (f64_of_int c) (key_expiry_seconds rl) db"
  have on: "?script (expiring_redis err ts now) db = (Inr (if f64_of_int c \<le> ?L then 1 else 0), script_writes (expiring_redis err ts now) rl k (Unix now) (after_cost ?L c) db)"
    "?script (lasting_redis err ts) kept = (Inr (if f64_of_int c \<le> ?L then 1 else 0), script_writes (lasting_redis err ts) rl k (Unix now) (after_cost ?L c) kept)"
    by (simp_all only: allowScript_eq [OF assms(1)] same_level [OF assms])
  obtain r db' kept' where run: "run_script lk (?script (expiring_redis err ts now)) db = (r, db')"
    "run_script lk (?script (lasting_redis err ts)) kept = (r, kept')" "expiry_sim rl now db' kept'"
    by (rule run_script_sim [where script = "?script (expiring_redis err ts now)" and
        script' = "?script (lasting_redis err ts)" and lk = lk, OF assms(3-5) ok on])
  show ?thesis
    using that run(3) False unfolding Redis_AllowN_def run(1,2)
    by (cases r) (simp_all split: if_splits)
qed

lemma Available_sim:
  assumes "rl_ok rl" "fills_in_time rl" "expiry_sim rl t db kept" "t \<le> now" "small (Unix now)"
  obtains r db' kept' where "Redis_GetTokensAvailableN (expiring_redis err ts now) lk rl k now db = (r, db')"
    "Redis_GetTokensAvailableN (lasting_redis err ts) lk rl k now kept = (r, kept')" "expiry_sim rl now db' kept'"
proof -
  let ?L = "redis_level (lasting_redis err ts) rl k (Unix now) kept"
  let ?script = "\<lambda>re db. getAvailableScript re (getBucketKey rl k) (getTimestampKey rl k) (f64_of_int (rlBucketSize rl))
      (rlTokensPerSecond rl) (f64_of_int (Unix now)) (key_expiry_seconds rl) db"
  have on: "?script (expiring_redis err ts now) db = (Inr (?L), script_writes (expiring_redis err ts now) rl k (Unix now) ?L db)"
    "?script (lasting_redis err ts) kept = (Inr (?L), script_writes (lasting_redis err ts) rl k (Unix now) ?L kept)"
    by (simp_all only: getAvailableScript_eq [OF assms(1)] same_level [OF assms])
  obtain r db' kept' where run: "run_script lk (?script (expiring_redis err ts now)) db = (r, db')"
    "run_script lk (?script (lasting_redis err ts)) kept = (r, kept')" "expiry_sim rl now db' kept'"
    by (rule run_script_sim [where script = "?script (expiring_redis err ts now)" and
        script' = "?script (lasting_redis err ts)" and lk = lk, OF assms(3-5) sim_level_ok [OF assms(1,3-5)] on])
  show ?thesis
    using that run(3) unfolding Redis_GetTokensAvailableN_def run(1,2)
    by (cases r; cases "r = Inl RedisNil") simp_all
qed

lemma same_limits [simp]:
  "rl_ok (rl\<lparr>rlWaiters := w, rlWaitersByID := i, rlChanNext := m\<rparr>) = rl_ok rl"
  "fills_in_time (rl\<lparr>rlWaiters := w, rlWaitersByID := i, rlChanNext := m\<rparr>) = fills_in_time rl"
  "expiry_sim (rl\<lparr>rlWaiters := w, rlWaitersByID := i, rlChanNext := m\<rparr>) = expiry_sim rl"
  by (simp_all add: rl_ok_def fills_in_time_def key_expiry_seconds_def expiry_sim_def key_sim.simps fun_eq_iff
      getBucketKey_def getTimestampKey_def)

lemma Reserve_sim:
  assumes "rl_ok rl" "fills_in_time rl" "expiry_sim rl t db kept" "t \<le> now" "small (Unix now)"
  obtains r rl' db' kept' where
    "Redis_ReserveN (expiring_redis err ts now) lk k c now now' newID rl db = (r, rl', db')"
    "Redis_ReserveN (lasting_redis err ts) lk k c now now' newID rl kept = (r, rl', kept')"
    "expiry_sim rl' now db' kept'" "rl_ok rl'" "fills_in_time rl'"
proof (cases "c \<le> 0")
  case True
  then show ?thesis using that assms(1,2) expiry_sim_later [OF assms(3,4)] by (simp add: Redis_ReserveN_def)
next
  case False
  then have ok: "level_ok (rlBucketSize rl) (after_cost (redis_level (lasting_redis err ts) rl k (Unix now) kept) c)"
    using sim_level_ok [OF assms(1,3-5)] by (simp add: after_cost_ok)
  let ?L = "redis_level (lasting_redis err ts) rl k (Unix now) kept"
  let ?script = "\<lambda>re db. reserveScript re (getBucketKey rl k) (getTimestampKey rl k) (f64_of_int (rlBucketSize rl))
      (rlTokensPerSecond rl) (f64_of_int (Unix now)) (f64_of_int c) (key_expiry_seconds rl) db"
  let ?text = "if f64_of_int c \<le> ?L then ''0'' else ts (of_int (wait_ms (rlTokensPerSecond rl) c ?L))"
  have str: "reToString (expiring_redis err ts now) = ts" "reToString (lasting_redis err ts) = ts"
    by (simp_all add: expiring_redis_def lasting_redis_def)
  have on: "?script (expiring_redis err ts now) db = (Inr ?text, script_writes (expiring_redis err ts now) rl k (Unix now) (after_cost ?L c) db)"
    "?script (lasting_redis err ts) kept = (Inr ?text, script_writes (lasting_redis err ts) rl k (Unix now) (after_cost ?L c) kept)"
    by (simp_all only: reserveScript_eq [OF assms(1)] same_level [OF assms] str)
  obtain r db' kept' where run: "run_script lk (?script (expiring_redis err ts now)) db = (r, db')"
    "run_script lk (?script (lasting_redis err ts)) kept = (r, kept')" "expiry_sim rl now db' kept'"
    by (rule run_script_sim [where script = "?script (expiring_redis err ts now)" and
        script' = "?script (lasting_redis err ts)" and lk = lk, OF assms(3-5) ok on])
  show ?thesis
  proof (cases r)
    case (Inl e)
    then show ?thesis using that assms(1,2) run(3) False unfolding Redis_ReserveN_def run(1,2) by simp
  next
    case (Inr s)
    then show ?thesis
      using that assms(1,2) run(3) False unfolding Redis_ReserveN_def run(1,2) Let_def
      by (cases "ParseInt s"; cases "ParseInt s = Inr 0") simp_all
  qed
qed

lemma do_call_sim:
  assumes "rl_ok rl" "fills_in_time rl" "expiry_sim rl t db kept" "t \<le> now" "small (Unix now)"
  obtains a rl' db' kept' where "do_call (expiring_redis err ts now) lk now c (rl, db) = (a, rl', db')"
    "do_call (lasting_redis err ts) lk now c (rl, kept) = (a, rl', kept')"
    "expiry_sim rl' now db' kept'" "rl_ok rl'" "fills_in_time rl'"
proof (cases c)
  case (CallAllow key cost)
  obtain r db' kept' where "Redis_AllowN (expiring_redis err ts now) lk rl key cost now db = (r, db')"
    "Redis_AllowN (lasting_redis err ts) lk rl key cost now kept = (r, kept')" "expiry_sim rl now db' kept'"
    by (rule Allow_sim [OF assms])
  then show ?thesis using that assms(1,2) by (simp add: CallAllow)
next
  case (CallAvailable key)
  obtain r db' kept' where "Redis_GetTokensAvailableN (expiring_redis err ts now) lk rl key now db = (r, db')"
    "Redis_GetTokensAvailableN (lasting_redis err ts) lk rl key now kept = (r, kept')" "expiry_sim rl now db' kept'"
    by (rule Available_sim [OF assms])
  then show ?thesis using that assms(1,2) by (simp add: CallAvailable)
next
  case (CallReserve key cost now' newID)
  obtain r rl' db' kept' where "Redis_ReserveN (expiring_redis err ts now) lk key cost now now' newID rl db = (r, rl', db')"
    "Redis_ReserveN (lasting_redis err ts) lk key cost now now' newID rl kept = (r, rl', kept')"
    "expiry_sim rl' now db' kept'" "rl_ok rl'" "fills_in_time rl'"
    by (rule Reserve_sim [OF assms])
  then show ?thesis using that by (simp add: CallReserve)
qed

lemma run_calls_sim:
  assumes "rl_ok rl" "fills_in_time rl" "expiry_sim rl t db kept" "sorted (t # map fst cs)"
    and "list_all (\<lambda>(now, lk, c). small (Unix now)) cs"
  shows "fst (run_calls (expiring_redis err ts) cs (rl, db)) = fst (run_calls (\<lambda>now. lasting_redis err ts) cs (rl, kept))"
  using assms
proof (induction cs arbitrary: rl t db kept)
  case (Cons x cs)
  obtain now lk c where x: "x = (now, lk, c)" by (metis prod.collapse)
  have now: "t \<le> now" "small (Unix now)" "sorted (now # map fst cs)" using Cons.prems(4,5) by (auto simp: x)
  obtain a rl' db' kept' where step: "do_call (expiring_redis err ts now) lk now c (rl, db) = (a, rl', db')"
    "do_call (lasting_redis err ts) lk now c (rl, kept) = (a, rl', kept')"
    "expiry_sim rl' now db' kept'" "rl_ok rl'" "fills_in_time rl'"
    by (rule do_call_sim [OF Cons.prems(1-3) now(1,2)])
  have "fst (run_calls (expiring_redis err ts) cs (rl', db')) = fst (run_calls (\<lambda>now. lasting_redis err ts) cs (rl', kept'))"
    using Cons.prems(5) by (intro Cons.IH [OF step(4,5,3) now(3)]) (simp add: x)
  then show ?case by (simp add: x step(1,2) case_prod_beta)
qed simp

section \<open>Properties\<close>

text \<open>
  C34: when a bucket fills up within the expiry of its keys, Redis may drop
  expired keys without anyone noticing: over every sequence of calls of \<^verbatim>\<open>AllowN\<close>,
  \<^verbatim>\<open>GetTokensAvailableN\<close> and \<^verbatim>\<open>ReserveN\<close> for any keys, with lost scripts and replies, on one clock,
  the limiter answers as on a store that keeps all its keys.
\<close>

theorem expiry_is_invisible:
  assumes "rl_ok rl" "fills_in_time rl" "sorted (map fst cs)" "list_all (\<lambda>(now, lk, c). small (Unix now)) cs"
  shows "fst (run_calls (expiring_redis err ts) cs (rl, Map.empty))
    = fst (run_calls (\<lambda>now. lasting_redis err ts) cs (rl, Map.empty))"
proof (cases cs)
  case (Cons x xs)
  have "expiry_sim rl (fst x) Map.empty Map.empty" by (simp add: expiry_sim_def key_absent)
  then show ?thesis
    using assms(3,4) by (intro run_calls_sim [OF assms(1,2)]) (auto simp: Cons)
qed simp

theorem expiry_is_invisible_witness:
  "fst (run_calls (expiring_redis RedisNil (\<lambda>x. fmt_d \<lfloor>x\<rfloor>))
      [(at_unix 100, LinkUp, CallAllow ''k'' 5), (at_unix 200000, LinkUp, CallAllow ''k'' 5)] (example_rl, Map.empty))
   = fst (run_calls (\<lambda>now. lasting_redis RedisNil (\<lambda>x. fmt_d \<lfloor>x\<rfloor>))
      [(at_unix 100, LinkUp, CallAllow ''k'' 5), (at_unix 200000, LinkUp, CallAllow ''k'' 5)] (example_rl, Map.empty))"
proof (rule expiry_is_invisible [OF example_rl_ok])
  show "fills_in_time example_rl"
    using day_expiry [of example_rl] by (simp add: fills_in_time_def example_rl_def)
qed (simp_all add: small_def, simp add: at_unix_def second_def)

text \<open>
  Without the condition the answers differ: a bucket of 1000 tokens that gets one token every 1024
  seconds is empty after the first call and holds 84 tokens a day later, but its keys have
  expired by then, and it is full again.
\<close>

definition slow_rl :: RedisTokenBucket where
  "slow_rl =
     \<lparr>rlTokensPerSecond = 1 / 1024, rlBucketSize = 1000, rlKeyPrefix = ''l:'', rlKeyExpiry = 24 * hour,
      rlWaiters = Map.empty, rlWaitersByID = Map.empty, rlChanNext = 0, rlChanClosed = []\<rparr>"

lemma slow_rl_simps [simp]:
  "rlTokensPerSecond slow_rl = 1 / 1024" "rlBucketSize slow_rl = 1000" "key_expiry_seconds slow_rl = 86400"
  using day_expiry [of slow_rl] by (simp_all add: slow_rl_def)

lemma slow_rl_ok: "rl_ok slow_rl"
  by (simp add: rl_ok_def)

lemma slow_Allow:
  "Redis_AllowN re LinkUp slow_rl k 1000 (at_unix u) db =
     (Inr (1000 \<le> redis_level re slow_rl k u db),
      script_writes re slow_rl k u (after_cost (redis_level re slow_rl k u db) 1000) db)"
  using allowScript_eq [OF slow_rl_ok, of re k u 1000 db] by (simp add: Redis_AllowN_def)

lemma fresh_level:
  assumes "rl_ok rl" "reGet re (getBucketKey rl k) db = None" "reGet re (getTimestampKey rl k) db = None"
  shows "redis_level re rl k u db = of_int (rlBucketSize rl)"
  using assms by (simp add: redis_level_def lua_refill_def f64_sub_def f64_mul_def f64_add_def rl_ok_def f64_rnd_of_int)

lemma short_expiry_refills:
  fixes err :: go_error and ts :: "rat \<Rightarrow> string"
  defines "calls \<equiv> [(at_unix 100, LinkUp, CallAllow ''k'' 1000), (at_unix 86500, LinkUp, CallAllow ''k'' 1000)]"
  shows "fst (run_calls (expiring_redis err ts) calls (slow_rl, Map.empty)) = [Allowed (Inr True), Allowed (Inr True)]"
    "fst (run_calls (\<lambda>now. lasting_redis err ts) calls (slow_rl, Map.empty)) = [Allowed (Inr True), Allowed (Inr False)]"
proof -
  let ?la = "lasting_redis err ts"
  have first: "redis_level (expiring_redis err ts now) slow_rl ''k'' u Map.empty = 1000"
    "redis_level ?la slow_rl ''k'' u Map.empty = 1000" for now u
    using fresh_level [OF slow_rl_ok, of "expiring_redis err ts now" "''k''" Map.empty u]
      fresh_level [OF slow_rl_ok, of ?la "''k''" Map.empty u]
    by (simp_all add: expiring_redis_def lasting_redis_def)
  have empty: "after_cost 1000 1000 = 0" by (simp add: after_cost_def f64_sub_def)
  have again: "redis_level (expiring_redis err ts (at_unix 86500)) slow_rl ''k'' 86500
      (script_writes (expiring_redis err ts (at_unix 100)) slow_rl ''k'' 100 0 Map.empty) = 1000"
    using fresh_level [OF slow_rl_ok, of "expiring_redis err ts (at_unix 86500)" "''k''"
        "script_writes (expiring_redis err ts (at_unix 100)) slow_rl ''k'' 100 0 Map.empty" 86500]
    by (simp add: script_writes_def expiring_redis_def at_unix_def second_def)
  have "f64_rnd (675 / 8) \<le> 999" by (rule f64_rnd_le_iff_bound) (simp_all add: is_f64_numeral)
  then have "redis_level ?la slow_rl ''k'' 86500 (script_writes ?la slow_rl ''k'' 100 0 Map.empty) < 1000"
    using f64_rnd_of_int [of 86400]
    by (simp add: redis_level_def lua_refill_def script_writes_def lasting_redis_def f64_sub_def f64_mul_def f64_add_def)
  then show "fst (run_calls (expiring_redis err ts) calls (slow_rl, Map.empty)) = [Allowed (Inr True), Allowed (Inr True)]"
    "fst (run_calls (\<lambda>now. ?la) calls (slow_rl, Map.empty)) = [Allowed (Inr True), Allowed (Inr False)]"
    by (simp_all add: calls_def slow_Allow first empty again)
qed

end
