(* ===== verification/Proxy.thy ===== *)
theory Proxy
  imports Handler Strconv "HOL-Library.AList"
begin

text \<open>
  Package \<^verbatim>\<open>proxy\<close>, file reverse_proxy.go: the reverse proxy with its options, \<^verbatim>\<open>Forward\<close>, the
  handlers made from it and the common modifiers.  The transport, the parsing and resolving
  of URLs, and the spare capacity of the buffer that holds a response body are parameters.
\<close>

section \<open>Headers\<close>

text \<open>
  A \<^verbatim>\<open>http.Header\<close> maps canonical keys to lists of values.  A key with a character that no
  field name may have is its own canonical form.
\<close>

type_synonym header = "(string \<times> string list) list"

definition is_lower :: "char \<Rightarrow> bool" where
  "is_lower c \<longleftrightarrow> (let n = of_char c :: nat in 97 \<le> n \<and> n \<le> 122)"

definition is_upper :: "char \<Rightarrow> bool" where
  "is_upper c \<longleftrightarrow> (let n = of_char c :: nat in 65 \<le> n \<and> n \<le> 90)"

definition to_upper :: "char \<Rightarrow> char" where
  "to_upper c = (if is_lower c then char_of (of_char c - 32 :: nat) else c)"

definition to_lower :: "char \<Rightarrow> char" where
  "to_lower c = (if is_upper c then char_of (of_char c + 32 :: nat) else c)"

definition field_char :: "char \<Rightarrow> bool" where
  "field_char c \<longleftrightarrow> is_lower c \<or> is_upper c \<or> c \<in> set ''0123456789!#$%&*+-.^_`|~'' \<or> c = CHR 0x27"

fun canonical_from :: "bool \<Rightarrow> string \<Rightarrow> string" where
  "canonical_from up [] = []"
| "canonical_from up (c # cs) = (if up then to_upper c else to_lower c) # canonical_from (c = CHR ''-'') cs"

definition CanonicalKey :: "string \<Rightarrow> string" where
  "CanonicalKey k = (if \<forall>c \<in> set k. field_char c then canonical_from True k else k)"

definition header_values :: "header \<Rightarrow> string \<Rightarrow> string list" where
  "header_values h k = (case map_of h (CanonicalKey k) of None \<Rightarrow> [] | Some vs \<Rightarrow> vs)"

definition header_Get :: "header \<Rightarrow> string \<Rightarrow> string" where
  "header_Get h k = (case header_values h k of [] \<Rightarrow> '''' | v # _ \<Rightarrow> v)"

definition header_Set :: "header \<Rightarrow> string \<Rightarrow> string \<Rightarrow> header" where
  "header_Set h k v = AList.update (CanonicalKey k) [v] h"

definition header_Add :: "header \<Rightarrow> string \<Rightarrow> string \<Rightarrow> header" where
  "header_Add h k v = AList.update (CanonicalKey k) (header_values h k @ [v]) h"

lemma values_Set:
  "header_values (header_Set h k v) k' =
     (if CanonicalKey k' = CanonicalKey k then [v] else header_values h k')"
  by (simp add: header_values_def header_Set_def update_conv')

lemma values_Add:
  "header_values (header_Add h k v) k' =
     (if CanonicalKey k' = CanonicalKey k then header_values h k @ [v] else header_values h k')"
  by (simp add: header_values_def header_Add_def update_conv')

section \<open>Requests, responses and the proxy\<close>

text \<open>A body is absent, or reading it to its end yields an error or its bytes.\<close>

type_synonym body = "(go_error + string) option"

record 'url request =
  pqMethod :: string
  pqURL :: 'url
  pqHost :: string
  pqHeader :: header
  pqBody :: body

record response =
  psStatusCode :: int
  psHeader :: header
  psBody :: body

type_synonym 'url request_modifier = "'url request \<Rightarrow> go_error option \<times> 'url request"
type_synonym response_modifier = "response \<Rightarrow> go_error option \<times> response"
type_synonym 'url transport = "'url request \<Rightarrow> go_error + response"

record 'url ReverseProxy =
  requestModifiers :: "'url request_modifier list"
  responseModifiers :: "response_modifier list"
  proxyTransport :: "'url transport"

type_synonym 'url proxy_option = "'url ReverseProxy \<Rightarrow> 'url ReverseProxy"

definition NewReverseProxy :: "'url transport \<Rightarrow> 'url proxy_option list \<Rightarrow> 'url ReverseProxy" where
  "NewReverseProxy defaultTransport options =
     fold (\<lambda>option p. option p) options
       \<lparr>requestModifiers = [], responseModifiers = [], proxyTransport = defaultTransport\<rparr>"

definition WithTransport :: "'url transport \<Rightarrow> 'url proxy_option" where
  "WithTransport transport p = p\<lparr>proxyTransport := transport\<rparr>"

definition WithRequestModifier :: "'url request_modifier \<Rightarrow> 'url proxy_option" where
  "WithRequestModifier modifier p = p\<lparr>requestModifiers := requestModifiers p @ [modifier]\<rparr>"

definition WithResponseModifier :: "response_modifier \<Rightarrow> 'url proxy_option" where
  "WithResponseModifier modifier p = p\<lparr>responseModifiers := responseModifiers p @ [modifier]\<rparr>"

record RequestMetrics =
  mxStartTime :: gotime
  mxEndTime :: gotime
  mxDuration :: duration
  mxRequestSize :: int
  mxResponseSize :: int
  mxStatusCode :: int
  mxProviderName :: string
  mxModelName :: string
  mxRequestID :: string
  mxEndpointPath :: string
  mxResponseTokens :: int

section \<open>Modifiers\<close>

definition AddAuthHeader :: "string \<Rightarrow> string \<Rightarrow> 'url request_modifier" where
  "AddAuthHeader authType authValue req =
     (None, req\<lparr>pqHeader := header_Set (pqHeader req) ''Authorization'' (authType @ '' '' @ authValue)\<rparr>)"

definition AddRequestHeaders :: "(string \<times> string) list \<Rightarrow> 'url request_modifier" where
  "AddRequestHeaders headers req =
     (None, req\<lparr>pqHeader := fold (\<lambda>(key, val) h. header_Set h key val) headers (pqHeader req)\<rparr>)"

definition ModifyResponseHeader :: "string \<Rightarrow> string \<Rightarrow> response_modifier" where
  "ModifyResponseHeader key val resp = (None, resp\<lparr>psHeader := header_Set (psHeader resp) key val\<rparr>)"

text \<open>The first failing request modifier ends the loop; a failing response modifier does not.\<close>

fun modify_request :: "'url request_modifier list \<Rightarrow> 'url request \<Rightarrow> go_error + 'url request" where
  "modify_request [] req = Inr req"
| "modify_request (m # ms) req =
     (case m req of
        (Some err, req') \<Rightarrow> Inl (Wrapf ''request modifier failed: '' err '''')
      | (None, req') \<Rightarrow> modify_request ms req')"

definition modify_response :: "response_modifier list \<Rightarrow> response \<Rightarrow> response" where
  "modify_response ms resp = fold (\<lambda>m r. snd (m r)) ms resp"

section \<open>The token count of a response\<close>

text \<open>\<^verbatim>\<open>bytes.Index\<close> and \<^verbatim>\<open>bytes.IndexAny\<close>: the first position, if any.\<close>

fun bytes_Index :: "string \<Rightarrow> string \<Rightarrow> nat option" where
  "bytes_Index [] sub = (if sub = [] then Some 0 else None)"
| "bytes_Index (c # cs) sub =
     (if HasPrefix (c # cs) sub then Some 0 else map_option Suc (bytes_Index cs sub))"

definition IndexAny :: "string \<Rightarrow> char set \<Rightarrow> nat option" where
  "IndexAny s cs = find_index (\<lambda>c. c \<in> cs) s"

text \<open>\<^verbatim>\<open>bytes.TrimSpace\<close>: the encodings of the white space characters, at both ends.\<close>

definition white_space :: "string list" where
  "white_space =
     [[CHR 0x09], [CHR 0x0A], [CHR 0x0B], [CHR 0x0C], [CHR 0x0D], [CHR 0x20],
      [CHR 0xC2, CHR 0x85], [CHR 0xC2, CHR 0xA0], [CHR 0xE1, CHR 0x9A, CHR 0x80],
      [CHR 0xE2, CHR 0x80, CHR 0x80], [CHR 0xE2, CHR 0x80, CHR 0x81], [CHR 0xE2, CHR 0x80, CHR 0x82],
      [CHR 0xE2, CHR 0x80, CHR 0x83], [CHR 0xE2, CHR 0x80, CHR 0x84], [CHR 0xE2, CHR 0x80, CHR 0x85],
      [CHR 0xE2, CHR 0x80, CHR 0x86], [CHR 0xE2, CHR 0x80, CHR 0x87], [CHR 0xE2, CHR 0x80, CHR 0x88],
      [CHR 0xE2, CHR 0x80, CHR 0x89], [CHR 0xE2, CHR 0x80, CHR 0x8A], [CHR 0xE2, CHR 0x80, CHR 0xA8],
      [CHR 0xE2, CHR 0x80, CHR 0xA9], [CHR 0xE2, CHR 0x80, CHR 0xAF], [CHR 0xE2, CHR 0x81, CHR 0x9F],
      [CHR 0xE3, CHR 0x80, CHR 0x80]]"

text \<open>Every encoding is at most three bytes long.\<close>

fun trim_left :: "string list \<Rightarrow> nat \<Rightarrow> string \<Rightarrow> string" where
  "trim_left spaces 0 s = s"
| "trim_left spaces (Suc n) s =
     (case find (\<lambda>w. HasPrefix s w) spaces of
        None \<Rightarrow> s
      | Some w \<Rightarrow> trim_left spaces n (drop (length w) s))"

definition TrimSpace :: "string \<Rightarrow> string" where
  "TrimSpace s =
     (let l = trim_left white_space (length s) s
      in rev (trim_left (map rev white_space) (length l) (rev l)))"

definition token_marker :: string where
  "token_marker = CHR 0x22 # ''total_tokens'' @ [CHR 0x22, CHR '':'']"

text \<open>
  The count that \<^verbatim>\<open>Forward\<close> records, if it finds one.  The slice reaches 30 bytes from the
  marker on: it panics when the buffer is shorter, and reads the spare bytes of the buffer
  when only the body is.
\<close>

definition response_tokens :: "string \<Rightarrow> string \<Rightarrow> int option outcome" where
  "response_tokens spare body =
     (case bytes_Index body token_marker of
        None \<Rightarrow> Returns None
      | Some tokenIndex \<Rightarrow>
          if tokenIndex = 0 then Returns None
          else if length (body @ spare) < tokenIndex + 30 then Panics
          else
            let tokenStr = take 15 (drop (tokenIndex + 15) (body @ spare))
            in (case IndexAny tokenStr {CHR '','', CHR ''}''} of
                  None \<Rightarrow> Returns None
                | Some endIndex \<Rightarrow>
                    if endIndex = 0 then Returns None
                    else
                      case ParseInt (TrimSpace (take endIndex tokenStr)) of
                        Inl err \<Rightarrow> Returns None
                      | Inr tokenCount \<Rightarrow> Returns (Some tokenCount)))"

section \<open>Forward\<close>

text \<open>What the proxy takes from its environment.\<close>

record 'url proxy_env =
  peParse :: "string \<Rightarrow> go_error + 'url"
  peResolve :: "'url \<Rightarrow> 'url \<Rightarrow> 'url"
  peHost :: "'url \<Rightarrow> string"
  pePath :: "'url \<Rightarrow> string"
  peSpare :: "string \<Rightarrow> string"

definition body_len :: "body \<Rightarrow> int" where
  "body_len b = (case b of Some (Inr bs) \<Rightarrow> int (length bs) | _ \<Rightarrow> 0)"

definition has_substring :: "string \<Rightarrow> string \<Rightarrow> bool" where
  "has_substring s sub \<longleftrightarrow> bytes_Index s sub \<noteq> None"

text \<open>The request before the modifiers, or why there is none.\<close>

definition outgoing :: "'url proxy_env \<Rightarrow> 'url request \<Rightarrow> string \<Rightarrow> go_error + 'url request" where
  "outgoing pe req targetURL =
     (case peParse pe targetURL of
        Inl err \<Rightarrow> Inl (Wrapf ''invalid target URL: '' err '''')
      | Inr parsedURL \<Rightarrow>
          let outReq = req\<lparr>pqURL := peResolve pe parsedURL (pqURL req), pqHost := peHost pe parsedURL\<rparr>
          in (case pqBody req of
                Some (Inl err) \<Rightarrow> Inl (Wrapf ''failed to read request body: '' err '''')
              | _ \<Rightarrow> Inr outReq))"

text \<open>
  The result of \<^verbatim>\<open>Forward\<close>, with the requests that it sent and its metrics; the caller's
  request keeps its header and URL, and its body can be read again.
\<close>

definition Forward ::
  "'url proxy_env \<Rightarrow> 'url ReverseProxy \<Rightarrow> gotime \<Rightarrow> gotime \<Rightarrow> 'url request \<Rightarrow> string \<Rightarrow>
   ((go_error + response \<times> RequestMetrics) \<times> 'url request list) outcome" where
  "Forward pe p t1 t2 req targetURL =
     (case outgoing pe req targetURL of
        Inl err \<Rightarrow> Returns (Inl err, [])
      | Inr outReq \<Rightarrow>
          (case modify_request (requestModifiers p) outReq of
             Inl err \<Rightarrow> Returns (Inl err, [])
           | Inr sent \<Rightarrow>
               (case proxyTransport p sent of
                  Inl err \<Rightarrow> Returns (Inl (Wrapf ''request failed: '' err ''''), [sent])
                | Inr resp0 \<Rightarrow>
                    let resp = modify_response (responseModifiers p) resp0;
                        metrics = \<lparr>mxStartTime = t1, mxEndTime = t2, mxDuration = time_Sub t2 t1,
                                   mxRequestSize = body_len (pqBody req),
                                   mxResponseSize = body_len (psBody resp),
                                   mxStatusCode = psStatusCode resp0,
                                   mxProviderName = header_Get (pqHeader req) ''X-Provider'',
                                   mxModelName = header_Get (pqHeader req) ''X-Model'',
                                   mxRequestID = header_Get (pqHeader req) ''X-Request-ID'',
                                   mxEndpointPath = pePath pe (pqURL req),
                                   mxResponseTokens = 0\<rparr>
                    in (case psBody resp of
                          None \<Rightarrow> Returns (Inr (resp, metrics), [sent])
                        | Some (Inl err) \<Rightarrow>
                            Returns (Inl (Wrapf ''failed to read response body: '' err ''''), [sent])
                        | Some (Inr bodyBytes) \<Rightarrow>
                            if has_substring (header_Get (psHeader resp) ''Content-Type'') ''application/json''
                            then bind_outcome (response_tokens (peSpare pe bodyBytes) bodyBytes) (\<lambda>tokens.
                              Returns (Inr (resp, metrics\<lparr>mxResponseTokens :=
                                case tokens of None \<Rightarrow> 0 | Some n \<Rightarrow> n\<rparr>), [sent]))
                            else Returns (Inr (resp, metrics), [sent])))))"

section \<open>Handlers\<close>

text \<open>
  The reply: the response's headers are added one by one, then status and body are written.
  \<^verbatim>\<open>WriteHeader\<close> panics on a code that does not have three digits.
\<close>

record proxy_reply =
  prStatus :: int
  prHeader :: header
  prBody :: string

definition header_pairs :: "header \<Rightarrow> (string \<times> string) list" where
  "header_pairs h = concat (map (\<lambda>(key, vals). map (Pair key) vals) h)"

definition copy_header :: "header \<Rightarrow> header \<Rightarrow> header" where
  "copy_header h w = fold (\<lambda>(key, val) w. header_Add w key val) (header_pairs h) w"

definition proxy_error :: "string \<Rightarrow> int \<Rightarrow> proxy_reply" where
  "proxy_error msg code =
     \<lparr>prStatus = code,
      prHeader = map (\<lambda>(k, v). (k, [v])) (hpHeaders (http_Error msg code)),
      prBody = hpBody (http_Error msg code)\<rparr>"

definition write_response :: "response \<Rightarrow> proxy_reply outcome" where
  "write_response resp =
     (case psBody resp of
        None \<Rightarrow> Panics
      | Some b \<Rightarrow>
          if psStatusCode resp < 100 \<or> 999 < psStatusCode resp then Panics
          else Returns \<lparr>prStatus = psStatusCode resp, prHeader = copy_header (psHeader resp) [],
                        prBody = (case b of Inl err \<Rightarrow> '''' | Inr bs \<Rightarrow> bs)\<rparr>)"

definition ProxyHandler ::
  "'url proxy_env \<Rightarrow> 'url ReverseProxy \<Rightarrow> string \<Rightarrow> gotime \<Rightarrow> gotime \<Rightarrow> 'url request \<Rightarrow> proxy_reply outcome" where
  "ProxyHandler pe p targetURL t1 t2 r =
     bind_outcome (Forward pe p t1 t2 r targetURL) (\<lambda>(res, sent).
       case res of
         Inl err \<Rightarrow> Returns (proxy_error (''Proxy error: '' @ error_text err) 502)
       | Inr (resp, metrics) \<Rightarrow> write_response resp)"

definition CreateDynamicProxy ::
  "'url proxy_env \<Rightarrow> 'url transport \<Rightarrow> ('url request \<Rightarrow> go_error + string) \<Rightarrow> gotime \<Rightarrow> gotime \<Rightarrow>
   'url request \<Rightarrow> proxy_reply outcome" where
  "CreateDynamicProxy pe defaultTransport targetResolver t1 t2 r =
     (case targetResolver r of
        Inl err \<Rightarrow> Returns (proxy_error (''Routing error: '' @ error_text err) 400)
      | Inr targetURL \<Rightarrow>
          bind_outcome (Forward pe (NewReverseProxy defaultTransport []) t1 t2 r targetURL) (\<lambda>(res, sent).
            case res of
              Inl err \<Rightarrow> Returns (proxy_error (''Proxy error: '' @ error_text err) 502)
            | Inr (resp, metrics) \<Rightarrow> write_response resp))"

text \<open>
  The standard library's proxy for one host, for a target that can be parsed; that proxy is the
  library's own.
\<close>

definition CreateStandardReverseProxy :: "'url proxy_env \<Rightarrow> ('url \<Rightarrow> 'proxy) \<Rightarrow> string \<Rightarrow> go_error + 'proxy" where
  "CreateStandardReverseProxy pe newSingleHostReverseProxy targetURL =
     (case peParse pe targetURL of
        Inl err \<Rightarrow> Inl err
      | Inr url \<Rightarrow> Inr (newSingleHostReverseProxy url))"

section \<open>Credentials\<close>

lemma modify_request_append:
  "modify_request (ms @ [m]) req =
     (case modify_request ms req of Inl err \<Rightarrow> Inl err | Inr req' \<Rightarrow> modify_request [m] req')"
  by (induction ms arbitrary: req) (auto split: prod.split option.split)

lemma Forward_sent:
  assumes "Forward pe p t1 t2 req targetURL = Returns (res, sent)" "sent \<noteq> []"
  obtains outReq out where "outgoing pe req targetURL = Inr outReq"
    "modify_request (requestModifiers p) outReq = Inr out" "sent = [out]"
proof -
  obtain outReq where o: "outgoing pe req targetURL = Inr outReq"
    using assms by (cases "outgoing pe req targetURL") (auto simp: Forward_def)
  obtain out where out: "modify_request (requestModifiers p) outReq = Inr out"
    using assms o by (cases "modify_request (requestModifiers p) outReq") (auto simp: Forward_def)
  have bind: "bind_outcome x (\<lambda>tokens. Returns (f tokens, [out])) = Returns (res, sent) \<Longrightarrow> sent = [out]" for x f
    by (cases x) simp_all
  have "sent = [out]"
    using assms(1) o out bind
    by (cases "proxyTransport p out") (auto simp: Forward_def Let_def split: option.splits sum.splits if_splits)
  with o out show ?thesis by (rule that)
qed

text \<open>
  proxy_sends_own_credentials: a proxy whose last option adds an authorization header sends at
  most one request per call of \<^verbatim>\<open>Forward\<close>, and that request carries exactly the proxy's
  credentials, whatever the client or an earlier modifier put there.
\<close>

theorem proxy_sends_own_credentials:
  assumes "Forward pe (NewReverseProxy transport (options @ [WithRequestModifier (AddAuthHeader ty val)])) t1 t2 req targetURL
      = Returns (res, sent)"
  shows "length sent \<le> 1 \<and>
    (\<lambda>out. header_values (pqHeader out) ''Authorization'') ` set sent \<subseteq> {[ty @ '' '' @ val]}"
proof (cases "sent = []")
  case False
  obtain outReq out where out:
    "modify_request (requestModifiers (NewReverseProxy transport (options @ [WithRequestModifier (AddAuthHeader ty val)]))) outReq
      = Inr out" "sent = [out]"
    by (rule Forward_sent [OF assms False])
  then obtain req' where "out = snd (AddAuthHeader ty val req')"
    by (auto simp: NewReverseProxy_def WithRequestModifier_def modify_request_append AddAuthHeader_def
        split: sum.splits)
  then show ?thesis
    using out(2) by (simp add: AddAuthHeader_def values_Set)
qed simp

section \<open>Replies\<close>

text \<open>What a header has after reading a response: canonical keys, each once.\<close>

definition canonical_header :: "header \<Rightarrow> bool" where
  "canonical_header h \<longleftrightarrow> distinct (map fst h) \<and> (\<forall>(k, vs) \<in> set h. CanonicalKey k = k)"

lemma add_values:
  assumes "CanonicalKey key = key"
  shows "header_values (fold (\<lambda>(k, v) w. header_Add w k v) (map (Pair key) vs) w) k =
    header_values w k @ (if CanonicalKey k = key then vs else [])"
proof (induction vs arbitrary: w)
  case (Cons v vs)
  have "header_values w key = header_values w k" if "CanonicalKey k = key"
    using that assms by (simp add: header_values_def)
  then show ?case by (auto simp: Cons.IH values_Add assms)
qed simp

lemma values_Cons:
  "header_values ((key, vs) # h) k = (if CanonicalKey k = key then vs else header_values h k)"
  by (simp add: header_values_def)

lemma values_copy:
  "canonical_header h \<Longrightarrow> header_values (copy_header h w) k = header_values w k @ header_values h k"
proof (induction h arbitrary: w)
  case Nil
  then show ?case by (simp add: copy_header_def header_pairs_def header_values_def)
next
  case (Cons p h)
  obtain key vs where p: "p = (key, vs)" by (cases p)
  have can: "canonical_header h" "CanonicalKey key = key" "key \<notin> fst ` set h"
    using Cons.prems by (auto simp: canonical_header_def p)
  have none: "header_values h k = []" if "CanonicalKey k = key"
    using that can(3) by (simp add: header_values_def map_of_eq_None_iff [THEN iffD2])
  have "copy_header (p # h) w = copy_header h (fold (\<lambda>(k, v) w. header_Add w k v) (map (Pair key) vs) w)"
    by (simp add: copy_header_def header_pairs_def p)
  then show ?case
    using none by (simp add: Cons.IH [OF can(1)] add_values [OF can(2)] p values_Cons)
qed

text \<open>
  proxy_reply_is_the_response: when \<^verbatim>\<open>Forward\<close> succeeds, the handler's reply has the status and
  the body of the response and, for every key in any spelling, the same header values.
\<close>

theorem proxy_reply_is_the_response:
  assumes "Forward pe p t1 t2 r targetURL = Returns (Inr (resp, metrics), sent)"
    and "psBody resp = Some (Inr bs)" "100 \<le> psStatusCode resp" "psStatusCode resp \<le> 999"
    and "canonical_header (psHeader resp)"
  shows "\<exists>reply. ProxyHandler pe p targetURL t1 t2 r = Returns reply \<and>
    prStatus reply = psStatusCode resp \<and> prBody reply = bs \<and>
    header_values (prHeader reply) k = header_values (psHeader resp) k"
  using assms values_copy [OF assms(5), of "[]" k]
  by (simp add: ProxyHandler_def write_response_def header_values_def)

section \<open>Token counts\<close>

lemma find_index_first:
  "\<forall>x \<in> set xs. \<not> p x \<Longrightarrow> p y \<Longrightarrow> find_index p (xs @ y # ys) = Some (length xs)"
  by (induction xs) simp_all

text \<open>The characters that a printed number is made of, and those at the ends of white space.\<close>

definition graphic :: "char \<Rightarrow> bool" where
  "graphic c \<longleftrightarrow> (let n = of_char c :: nat in 33 \<le> n \<and> n < 128 \<and> n \<noteq> 44 \<and> n \<noteq> 125)"

lemma fmt_d_graphic: "\<forall>c \<in> set (fmt_d n). graphic c"
proof -
  have "set (nat_digits 10 k) \<subseteq> set ''0123456789abcdef''" for k
    by (rule nat_digits_range) simp_all
  moreover have "\<forall>c \<in> set ''0123456789abcdef''. graphic c" "graphic CHR ''-''"
    by (simp_all add: graphic_def)
  ultimately have "\<forall>c \<in> set (nat_digits 10 k). graphic c" "graphic CHR ''-''" for k by blast+
  then show ?thesis by (simp add: fmt_d_def format_base_def)
qed

lemma fmt_d_nonempty [simp]: "fmt_d n \<noteq> []"
  by (simp add: fmt_d_def format_base_def)

lemma white_space_ends: "\<forall>w \<in> set white_space. w \<noteq> [] \<and> \<not> graphic (hd w) \<and> \<not> graphic (last w)"
  by (simp add: white_space_def graphic_def)

lemma HasPrefix_hd: "HasPrefix (c # s) w \<Longrightarrow> w \<noteq> [] \<Longrightarrow> hd w = c"
  by (cases w) (simp_all add: HasPrefix_def)

lemma trim_graphic:
  assumes "graphic c"
  shows "trim_left white_space n (c # s) = c # s" "trim_left (map rev white_space) n (c # s) = c # s"
proof -
  have "\<not> HasPrefix (c # s) w" if "w \<in> set white_space" for w
    using HasPrefix_hd [of c s w] that white_space_ends assms by blast
  then have "find (\<lambda>w. HasPrefix (c # s) w) white_space = None"
    by (simp add: find_None_iff)
  then show "trim_left white_space n (c # s) = c # s" by (cases n) simp_all
  have "\<not> HasPrefix (c # s) (rev w)" if "w \<in> set white_space" for w
    using HasPrefix_hd [of c s "rev w"] that white_space_ends assms by (auto simp: hd_rev)
  then have "find (\<lambda>w. HasPrefix (c # s) w) (map rev white_space) = None"
    by (auto simp: find_None_iff)
  then show "trim_left (map rev white_space) n (c # s) = c # s" by (cases n) simp_all
qed

lemma trim_blanks:
  "m \<le> n \<Longrightarrow> trim_left white_space n (replicate m CHR 0x20 @ s) = trim_left white_space (n - m) s"
proof (induction m arbitrary: n)
  case (Suc m)
  then obtain n' where n: "n = Suc n'" by (cases n) auto
  have "find (\<lambda>w. HasPrefix (CHR 0x20 # replicate m CHR 0x20 @ s) w) white_space = Some [CHR 0x20]"
    by (simp add: white_space_def HasPrefix_def)
  then show ?case using Suc by (simp add: n)
qed simp

lemma TrimSpace_number: "TrimSpace (replicate m CHR 0x20 @ fmt_d n) = fmt_d n"
proof -
  obtain c s where cs: "fmt_d n = c # s" by (cases "fmt_d n") simp_all
  obtain d t where dt: "rev (fmt_d n) = d # t" by (cases "rev (fmt_d n)") simp_all
  have "c \<in> set (fmt_d n)" by (simp add: cs)
  then have c: "graphic c" using fmt_d_graphic by blast
  have "d \<in> set (rev (fmt_d n))" by (simp only: dt list.set_intros)
  then have d: "graphic d" using fmt_d_graphic by auto
  have l: "trim_left white_space (length (replicate m CHR 0x20 @ fmt_d n)) (replicate m CHR 0x20 @ fmt_d n) = fmt_d n"
    by (subst trim_blanks) (simp_all only: length_append length_replicate le_add1 cs trim_graphic(1) [OF c])
  have "trim_left (map rev white_space) (length (fmt_d n)) (rev (fmt_d n)) = rev (fmt_d n)"
    by (simp only: dt trim_graphic(2) [OF d])
  then show ?thesis unfolding TrimSpace_def l Let_def by simp
qed

lemma marker_length [simp]: "length token_marker = 15"
  by (simp add: token_marker_def)


text \<open>
  proxy_short_body_panics: when the marker stands within the last 30 bytes of the buffer of a
  JSON response, the handler panics instead of answering, although the service answered.
\<close>

theorem proxy_short_body_panics:
  assumes "outgoing pe r targetURL = Inr outReq" "modify_request (requestModifiers p) outReq = Inr out"
    and "proxyTransport p out = Inr resp0" "modify_response (responseModifiers p) resp0 = resp"
    and "psBody resp = Some (Inr bs)"
    and "has_substring (header_Get (psHeader resp) ''Content-Type'') ''application/json''"
    and "bytes_Index bs token_marker = Some i" "0 < i" "length (bs @ peSpare pe bs) < i + 30"
  shows "ProxyHandler pe p targetURL t1 t2 r = Panics"
proof -
  have "response_tokens (peSpare pe bs) bs = Panics"
    using assms(7-9) by (simp add: response_tokens_def)
  then show ?thesis
    using assms(1-6) by (simp add: ProxyHandler_def Forward_def Let_def)
qed

section \<open>A concrete exchange\<close>

definition example_pe :: "string proxy_env" where
  "example_pe =
     \<lparr>peParse = Inr, peResolve = (\<lambda>base ref. base @ ref), peHost = (\<lambda>u. u), pePath = (\<lambda>u. u), peSpare = (\<lambda>b. [])\<rparr>"

definition example_preq :: "string request" where
  "example_preq =
     \<lparr>pqMethod = ''POST'', pqURL = ''/v1'', pqHost = ''me'',
      pqHeader = [(''Authorization'', [''client'']), (''X-Model'', [''m''])], pqBody = Some (Inr ''{}'')\<rparr>"

definition short_body :: string where
  "short_body = CHR ''{'' # token_marker @ ''5}''"

definition example_presp :: "string \<Rightarrow> response" where
  "example_presp ctype =
     \<lparr>psStatusCode = 200, psHeader = [(''Content-Type'', [ctype])], psBody = Some (Inr short_body)\<rparr>"

definition example_proxy :: "string \<Rightarrow> string ReverseProxy" where
  "example_proxy ctype =
     NewReverseProxy (\<lambda>out. Inr (example_presp ctype)) ([] @ [WithRequestModifier (AddAuthHeader ''Bearer'' ''key'')])"

lemma example_canonical [simp]:
  "CanonicalKey ''Content-Type'' = ''Content-Type''" "CanonicalKey ''content-type'' = ''Content-Type''"
  "CanonicalKey ''Authorization'' = ''Authorization''"
  by code_simp+

lemma marker_position:
  "bytes_Index (CHR ''{'' # token_marker @ s) token_marker = Some 1"
  by (simp add: token_marker_def HasPrefix_def)

lemma example_forward:
  "\<exists>metrics out. Forward example_pe (example_proxy ''text/plain'') 0 1 example_preq ''u'' =
     Returns (Inr (example_presp ''text/plain'', metrics), [out])"
proof -
  have "\<not> has_substring ''text/plain'' ''application/json''"
    by (simp add: has_substring_def HasPrefix_def)
  then show ?thesis
    by (simp add: Forward_def outgoing_def example_pe_def example_preq_def example_proxy_def NewReverseProxy_def
        WithRequestModifier_def AddAuthHeader_def modify_response_def example_presp_def header_Get_def
        header_values_def Let_def)
qed

theorem proxy_sends_own_credentials_witness:
  "\<exists>res sent. Forward example_pe (example_proxy ''text/plain'') 0 1 example_preq ''u'' = Returns (res, sent) \<and>
     sent \<noteq> [] \<and>
     (\<lambda>out. header_values (pqHeader out) ''Authorization'') ` set sent \<subseteq> {[''Bearer key'']}"
proof -
  obtain metrics out where f: "Forward example_pe (example_proxy ''text/plain'') 0 1 example_preq ''u'' =
     Returns (Inr (example_presp ''text/plain'', metrics), [out])" using example_forward by blast
  from proxy_sends_own_credentials [OF f [unfolded example_proxy_def]] f show ?thesis
    by (intro exI [of _ "Inr (example_presp ''text/plain'', metrics)"] exI [of _ "[out]"]) simp
qed

theorem proxy_reply_is_the_response_witness:
  "\<exists>reply. ProxyHandler example_pe (example_proxy ''text/plain'') ''u'' 0 1 example_preq = Returns reply \<and>
     prStatus reply = 200 \<and> prBody reply = short_body \<and> header_values (prHeader reply) ''content-type'' = [''text/plain'']"
proof -
  obtain metrics out where f: "Forward example_pe (example_proxy ''text/plain'') 0 1 example_preq ''u'' =
     Returns (Inr (example_presp ''text/plain'', metrics), [out])" using example_forward by blast
  from proxy_reply_is_the_response [OF f, of short_body "''content-type''"] show ?thesis
    by (simp add: example_presp_def canonical_header_def header_values_def)
qed


theorem proxy_short_body_panics_witness:
  "ProxyHandler example_pe (example_proxy ''application/json'') ''u'' 0 1 example_preq = Panics"
proof -
  have pos: "bytes_Index short_body token_marker = Some 1"
    unfolding short_body_def by (rule marker_position)
  have json: "has_substring ''application/json'' ''application/json''"
    by (simp add: has_substring_def HasPrefix_def)
  let ?resp = "example_presp ''application/json''"
  let ?o = "example_preq\<lparr>pqURL := ''u/v1'', pqHost := ''u''\<rparr>"
  have o: "outgoing example_pe example_preq ''u'' = Inr ?o"
    by (simp add: outgoing_def example_pe_def example_preq_def)
  have m: "modify_request (requestModifiers (example_proxy ''application/json'')) ?o =
      Inr (snd (AddAuthHeader ''Bearer'' ''key'' ?o))"
    by (simp add: example_proxy_def NewReverseProxy_def WithRequestModifier_def AddAuthHeader_def)
  have t: "proxyTransport (example_proxy ''application/json'') out = Inr ?resp" for out
    by (simp add: example_proxy_def NewReverseProxy_def WithRequestModifier_def)
  have r: "modify_response (responseModifiers (example_proxy ''application/json'')) ?resp = ?resp"
    by (simp add: example_proxy_def NewReverseProxy_def WithRequestModifier_def modify_response_def)
  have b: "psBody ?resp = Some (Inr short_body)" by (simp add: example_presp_def)
  have c: "has_substring (header_Get (psHeader ?resp) ''Content-Type'') ''application/json''"
    using json by (simp add: example_presp_def header_Get_def header_values_def)
  show ?thesis
    by (rule proxy_short_body_panics [OF o m t r b c pos]) (simp_all add: short_body_def example_pe_def)
qed

end
