(* ===== verification/Redis_Client.thy ===== *)
theory Redis_Client
  imports Prelude
begin

text \<open>
  Package \<^verbatim>\<open>redisclient\<close>: the wrapper of the Redis client.  Redis and its client library are
  parameters: every command is a function on the store that may fail.
\<close>

section \<open>The client library\<close>

type_synonym ('db, 'a) command = "'db \<Rightarrow> (go_error + 'a) \<times> 'db"

record ('db, 'v) rdb =
  rdbGet :: "string \<Rightarrow> ('db, string) command"
  rdbSet :: "string \<Rightarrow> string \<Rightarrow> duration \<Rightarrow> ('db, unit) command"
  rdbIncr :: "string \<Rightarrow> ('db, int) command"
  rdbDecr :: "string \<Rightarrow> ('db, int) command"
  rdbIncrBy :: "string \<Rightarrow> int \<Rightarrow> ('db, int) command"
  rdbDecrBy :: "string \<Rightarrow> int \<Rightarrow> ('db, int) command"
  rdbDel :: "string \<Rightarrow> ('db, int) command"
  rdbExpire :: "string \<Rightarrow> duration \<Rightarrow> ('db, bool) command"
  rdbLPush :: "string \<Rightarrow> string list \<Rightarrow> ('db, int) command"
  rdbRPop :: "string \<Rightarrow> ('db, string) command"
  rdbBRPop :: "duration \<Rightarrow> string list \<Rightarrow> ('db, string list) command"
  rdbLLen :: "string \<Rightarrow> ('db, int) command"
  rdbEval :: "string \<Rightarrow> string list \<Rightarrow> 'v list \<Rightarrow> ('db, 'v) command"
  rdbPing :: "('db, unit) command"
  rdbClose :: "('db, unit) command"

text \<open>The settings that the wrapper fixes, beside those of the configuration.\<close>

record client_options =
  coAddr :: string
  coPassword :: string
  coDB :: int
  coPoolSize :: int
  coMinIdleConns :: int
  coMaxRetries :: int
  coDialTimeout :: duration
  coReadTimeout :: duration
  coWriteTimeout :: duration
  coPoolTimeout :: duration

record client_config =
  ccAddr :: string
  ccPassword :: string
  ccDB :: int
  ccPoolSize :: int

definition client_options_of :: "client_config \<Rightarrow> client_options" where
  "client_options_of cfg =
     \<lparr>coAddr = ccAddr cfg, coPassword = ccPassword cfg, coDB = ccDB cfg, coPoolSize = ccPoolSize cfg,
      coMinIdleConns = 10, coMaxRetries = 5, coDialTimeout = 5 * second, coReadTimeout = 3 * second,
      coWriteTimeout = 3 * second, coPoolTimeout = 4 * second\<rparr>"

section \<open>The wrapper\<close>

definition NewClient ::
  "(client_options \<Rightarrow> ('db, 'v) rdb) \<Rightarrow> client_config \<Rightarrow> ('db, ('db, 'v) rdb) command" where
  "NewClient dial cfg db =
     (let rd = dial (client_options_of cfg) in
      case rdbPing rd db of
        (Inl err, db') \<Rightarrow> (Inl (Wrapf ''failed to connect to Redis: '' err ''''), db')
      | (Inr _, db') \<Rightarrow> (Inr rd, db'))"

text \<open>An absent key and a key with the empty string give the same result.\<close>

definition Client_Get :: "('db, 'v) rdb \<Rightarrow> string \<Rightarrow> ('db, string) command" where
  "Client_Get rd key db =
     (case rdbGet rd key db of
        (Inl err, db') \<Rightarrow> (if err = RedisNil then (Inr '''', db') else (Inl err, db'))
      | (Inr val, db') \<Rightarrow> (Inr val, db'))"

text \<open>\<^verbatim>\<open>.Err()\<close> drops the value of a reply.\<close>

definition reply_err :: "('db, 'a) command \<Rightarrow> ('db, unit) command" where
  "reply_err c db = (case c db of (Inl err, db') \<Rightarrow> (Inl err, db') | (Inr _, db') \<Rightarrow> (Inr (), db'))"

definition Client_Set :: "('db, 'v) rdb \<Rightarrow> string \<Rightarrow> string \<Rightarrow> duration \<Rightarrow> ('db, unit) command" where
  "Client_Set rd key val expiration = reply_err (rdbSet rd key val expiration)"

definition Client_Incr :: "('db, 'v) rdb \<Rightarrow> string \<Rightarrow> ('db, int) command" where
  "Client_Incr rd key = rdbIncr rd key"

definition Client_Decr :: "('db, 'v) rdb \<Rightarrow> string \<Rightarrow> ('db, int) command" where
  "Client_Decr rd key = rdbDecr rd key"

definition Client_DecrBy :: "('db, 'v) rdb \<Rightarrow> string \<Rightarrow> int \<Rightarrow> ('db, int) command" where
  "Client_DecrBy rd key n = rdbDecrBy rd key n"

definition Client_IncrBy :: "('db, 'v) rdb \<Rightarrow> string \<Rightarrow> int \<Rightarrow> ('db, int) command" where
  "Client_IncrBy rd key n = rdbIncrBy rd key n"

definition Client_Del :: "('db, 'v) rdb \<Rightarrow> string \<Rightarrow> ('db, unit) command" where
  "Client_Del rd key = reply_err (rdbDel rd key)"

definition Client_Expire :: "('db, 'v) rdb \<Rightarrow> string \<Rightarrow> duration \<Rightarrow> ('db, unit) command" where
  "Client_Expire rd key expiration = reply_err (rdbExpire rd key expiration)"

definition Client_LPush :: "('db, 'v) rdb \<Rightarrow> string \<Rightarrow> string list \<Rightarrow> ('db, int) command" where
  "Client_LPush rd key vals = rdbLPush rd key vals"

definition Client_RPop :: "('db, 'v) rdb \<Rightarrow> string \<Rightarrow> ('db, string) command" where
  "Client_RPop rd key db =
     (case rdbRPop rd key db of
        (Inl err, db') \<Rightarrow> (if err = RedisNil then (Inr '''', db') else (Inl err, db'))
      | (Inr val, db') \<Rightarrow> (Inr val, db'))"

text \<open>A timeout gives a nil slice.\<close>

definition Client_BRPop :: "('db, 'v) rdb \<Rightarrow> duration \<Rightarrow> string list \<Rightarrow> ('db, string list option) command" where
  "Client_BRPop rd timeout keys db =
     (case rdbBRPop rd timeout keys db of
        (Inl err, db') \<Rightarrow> (if err = RedisNil then (Inr None, db') else (Inl err, db'))
      | (Inr res, db') \<Rightarrow> (Inr (Some res), db'))"

definition Client_LLen :: "('db, 'v) rdb \<Rightarrow> string \<Rightarrow> ('db, int) command" where
  "Client_LLen rd key = rdbLLen rd key"

definition Client_Eval :: "('db, 'v) rdb \<Rightarrow> string \<Rightarrow> string list \<Rightarrow> 'v list \<Rightarrow> ('db, 'v) command" where
  "Client_Eval rd script keys args = rdbEval rd script keys args"

definition Client_Close :: "('db, 'v) rdb \<Rightarrow> ('db, unit) command" where
  "Client_Close rd = rdbClose rd"

text \<open>A pipeline is an object of the client library.\<close>

definition Client_Pipeline :: "(('db, 'v) rdb \<Rightarrow> 'pipeline) \<Rightarrow> ('db, 'v) rdb \<Rightarrow> 'pipeline" where
  "Client_Pipeline newPipeline rd = newPipeline rd"

text \<open>The client is closed after the function, and the outcome of closing is dropped.\<close>

definition WithRedisClient ::
  "(client_options \<Rightarrow> ('db, 'v) rdb) \<Rightarrow> client_config \<Rightarrow> (('db, 'v) rdb \<Rightarrow> ('db, unit) command) \<Rightarrow>
   ('db, unit) command" where
  "WithRedisClient dial cfg fn db =
     (case NewClient dial cfg db of
        (Inl err, db1) \<Rightarrow> (Inl err, db1)
      | (Inr client, db1) \<Rightarrow> (let (res, db2) = fn client db1 in (res, snd (Client_Close client db2))))"

section \<open>What the wrapper hides\<close>

lemma Get_hides_absence:
  "fst (Client_Get rd key db) = Inr '''' \<longleftrightarrow> fst (rdbGet rd key db) \<in> {Inl RedisNil, Inr ''''}"
  by (auto simp: Client_Get_def split: prod.split sum.split)

lemma RPop_hides_empty_list:
  "fst (Client_RPop rd key db) = Inr '''' \<longleftrightarrow> fst (rdbRPop rd key db) \<in> {Inl RedisNil, Inr ''''}"
  by (auto simp: Client_RPop_def split: prod.split sum.split)

lemma wrapped_reads_never_report_nil:
  "fst (Client_Get rd key db) \<noteq> Inl RedisNil" "fst (Client_RPop rd key db) \<noteq> Inl RedisNil"
  "fst (Client_BRPop rd timeout keys db) \<noteq> Inl RedisNil"
  by (auto simp: Client_Get_def Client_RPop_def Client_BRPop_def split: prod.split sum.split)

text \<open>The function runs only on a client that answered a ping, and its error is the result.\<close>

lemma WithRedisClient_runs:
  "fst (WithRedisClient dial cfg fn db) =
     (let rd = dial (client_options_of cfg) in
      case rdbPing rd db of
        (Inl err, db1) \<Rightarrow> Inl (Wrapf ''failed to connect to Redis: '' err '''')
      | (Inr _, db1) \<Rightarrow> fst (fn rd db1))"
  by (simp add: WithRedisClient_def NewClient_def Let_def split: prod.split sum.split)

end
