(* ===== verification/Spec2Isabelle.thy ===== *)
theory Spec2Isabelle
  imports Shutdown Worker_Cluster Redis_Expiry Proxy Redis_Client
begin

text \<open>
  A verification of the LLM request balancer, a Go server that queues requests for language
  models, releases them under a token-bucket rate limit, sends them to a provider and returns
  the answers to the waiting clients.

  \<^bold>\<open>How the program works.\<close>  cmd/server/main.go builds the parts from the configuration
  (internal/config).  A client's POST reaches \<^verbatim>\<open>RequestHandler.ServeHTTP\<close> (internal/handler),
  which computes a token cost and hands the request, with a response channel, to the worker
  (internal/queue/worker.go).  The worker registers the channel (channel_registry.go) and puts
  an item into the queue (fifo_queue.go).  Its loop takes items out and starts a goroutine of
  \<^verbatim>\<open>processItem\<close> for each: that one asks the limiter (internal/limiter) for the cost, puts the
  item back with a delay when it is refused, or else calls the LLM service
  (internal/llm/provider.go), sends the response on the channel and removes the channel.
  Limiter and queue exist in memory and on Redis.  A direct handler calls the service without
  queue and limiter.  Two packages, internal/proxy and pkg/redisclient, are not used by the
  server.

  \<^bold>\<open>What models what.\<close>
  \<^item> \<^verbatim>\<open>Float64\<close>: float64 arithmetic on rationals, rounded to nearest even with 53 bits; no
    overflow, subnormal numbers or NaN.  \<^verbatim>\<open>Prelude\<close>: errors and \<^verbatim>\<open>errors.Is\<close>, int64 wrap-around,
    instants and durations in nanoseconds, outcomes (a value, blocking, a panic), lists.
    \<^verbatim>\<open>Go_Value\<close>: \<^verbatim>\<open>interface{}\<close> values and maps.  \<^verbatim>\<open>Text\<close> and \<^verbatim>\<open>Strconv\<close>: printing and parsing of
    numbers.  \<^verbatim>\<open>Redis\<close>: what can become of one use of the connection to Redis.
  \<^item> \<^verbatim>\<open>Limiter\<close> (limiter.go): configuration, and the interface \<^verbatim>\<open>Limiter\<close> as the locale
    \<^verbatim>\<open>token_limiter\<close>, in which the rate limit of a run of calls is proved once.
  \<^item> \<^verbatim>\<open>Token_Bucket\<close> (token_bucket.go): every operation as a function on the record of the
    bucket; \<^verbatim>\<open>Token_Bucket_System\<close>: calls, cancellations and waking goroutines interleaved.
  \<^item> \<^verbatim>\<open>Redis_Limiter\<close> (redis_limiter.go): the Lua scripts and every operation over a store;
    \<^verbatim>\<open>Redis_Limiter_System\<close>: several instances on one store, with clocks that disagree;
    \<^verbatim>\<open>Redis_Expiry\<close>: a store with deadlines, and the simulation by one that keeps its keys.
  \<^item> \<^verbatim>\<open>Fifo_Queue\<close> (fifo_queue.go): the interface \<^verbatim>\<open>Queue\<close> as the locale \<^verbatim>\<open>request_queue\<close>, and the
    in-memory queue; \<^verbatim>\<open>Dequeue_Wait\<close>: the waiting part of \<^verbatim>\<open>Dequeue\<close> with its watcher goroutine;
    \<^verbatim>\<open>Redis_Queue\<close>: the queue in a Redis list.
  \<^item> \<^verbatim>\<open>Config\<close> (config.go); \<^verbatim>\<open>Retry\<close> and \<^verbatim>\<open>Provider\<close> (provider.go), with the locale \<^verbatim>\<open>llm_provider\<close>;
    \<^verbatim>\<open>Channel_Registry\<close> (channel_registry.go), with the locale \<^verbatim>\<open>channel_map\<close>.
  \<^item> \<^verbatim>\<open>Worker\<close> (worker.go): \<^verbatim>\<open>EnqueueRequest\<close>, and \<^verbatim>\<open>processItem\<close> in one piece and as steps between
    which other goroutines run; \<^verbatim>\<open>Worker_System\<close>: the loop, the goroutines, the submitting
    handlers, the clients and the queue's clean-up as one step relation; \<^verbatim>\<open>Worker_Cluster\<close>:
    several instances, each with its worker, registry and clients, on one Redis, where the list
    and the buckets are shared, clocks disagree and connections fail.
  \<^item> \<^verbatim>\<open>Logger\<close> (logger.go), \<^verbatim>\<open>Handler\<close> (request_handler.go, direct_handler.go, the token
    calculator of main.go), \<^verbatim>\<open>Server\<close> (start of main.go), \<^verbatim>\<open>Shutdown\<close> (its end, with the
    connections, the loop in its blocking \<^verbatim>\<open>Dequeue\<close> and the goroutines, as one relation), \<^verbatim>\<open>Proxy\<close> (reverse_proxy.go),
    \<^verbatim>\<open>Redis_Client\<close> (redis_client.go).

  \<^bold>\<open>What is shown.\<close>
  \<^item> The limit holds: whatever the interleaving, the tokens granted, and the costs of the
    requests passed on to the service, are bounded by bucket size and refill, with the
    rounding of every float64 operation counted; on Redis also when scripts are not sent or
    replies are lost, and with instances whose clocks show different times, for the calls of the limiter and for
    whole instances of the program.  The Redis limiter refines the in-memory one at whole
    seconds, and the expiry of its keys changes no answer when a bucket fills up in time.
  \<^item> No request is lost, answered twice or made up inside the worker: every id is in one
    place; the registry holds the channels it should (and those of expired items); the
    goroutines neither panic nor block, are bounded in number and finish on stop.
  \<^item> Across instances on one Redis every response in a channel answers the request of that
    channel and no goroutine panics, but an item that another instance takes is paid for and its
    response dropped.
  \<^item> The program exits only after a signal, with its worker at its end; it can exit from a state
    exactly when its loop has not lost its wake-up, and a reachable shutdown hangs for ever.
  \<^item> The queues deliver at most once; the in-memory queue refines a bounded list first in
    first out, its blocking wait can lose a wake-up; the Redis queue returns the first ready
    item after a known number of rounds, but spins when all are delayed and can pass its
    maximal size by the number of concurrent clients.
  \<^item> The retry loop makes the attempts that it should and no more; the service answers only
    with what a configured provider answered; handlers map outcomes to status codes; a
    request that is queued and granted gets its own response.
  \<^item> Printed numbers are read back (\<^verbatim>\<open>Strconv\<close>, \<^verbatim>\<open>Proxy\<close>, the wait of the reserve script).

  \<^bold>\<open>Bounds and fuel.\<close>  \<^verbatim>\<open>doRequest_loop\<close> terminates by the attempts left.  \<^verbatim>\<open>RQ_Dequeue\<close> runs over a
  list of rounds, one per call of itself; the theorem on it gives the number of rounds that
  is enough, and the one on spinning shows when no number is.  \<^verbatim>\<open>run_task\<close> counts the at most
  seven steps of \<^verbatim>\<open>processItem\<close>.  Bucket sizes are below \<^verbatim>\<open>2^53\<close>, where float64 is exact; Unix
  times below \<^verbatim>\<open>2^52\<close>, and runs of the Redis limiter at most \<^verbatim>\<open>2^50\<close> steps long, so that the
  roundings stay below the bucket size and the refill of the window; the agreement of the two limiters is for instants less than 285 years
  apart, where \<^verbatim>\<open>time.Sub\<close> does not saturate.

  \<^bold>\<open>Parameters and hypotheses.\<close>  Code that is not in the repository is a parameter: Redis and
  its client (what is set is read back, lists are lists),
  encoding/json (what was encoded is decoded with its fields, metadata apart), the HTTP
  transport and \<^verbatim>\<open>net/url\<close>, viper, zerolog, the random generator.  The hypotheses are the
  predicates \<^verbatim>\<open>redis_ok\<close>, \<^verbatim>\<open>list_ok\<close>, \<^verbatim>\<open>json_ok\<close>, \<^verbatim>\<open>json_total\<close>; concrete instances witness them.

  \<^bold>\<open>Not modelled.\<close>  Console output, and what zerolog writes beyond the entries and its set-up;
  the expiry of Redis keys with clocks that disagree, and that of the queue's list, which
  main.go sets to three times the life of its items; the objects of libraries that the proxy and
  the Redis client hand out; build files.
\<close>

end
